(* ===== verification/Prelude.thy ===== *)
theory Prelude
  imports Main "HOL-Library.Word"
begin

text \<open>
  Shared vocabulary of the development: error codes, C character buffers and strings, decimal
  output, the atomic and string primitives the modules use, and user-space memory.

  \<^item> A C \<open>char\<close> array is a \<open>char list\<close> of the array's length; an access outside it is the value
    \<open>None\<close>, so a handler whose result is \<open>None\<close> has left its object (undefined behaviour in C).
  \<^item> Handlers return the C return value as an \<open>int\<close>: a count, 0, or a negative error code.
  \<^item> User-space memory is a partial map from addresses to bytes. Its domain is the set of
    addresses the process has mapped, which is a parameter of every theorem that mentions it.
\<close>

named_theorems c_buf \<open>bounded buffer accesses and C strings\<close>
named_theorems umem_simps \<open>user-space memory accesses\<close>

subsection \<open>Error codes (asm/errno.h)\<close>

abbreviation EPERM :: int where "EPERM \<equiv> 1"
abbreviation ENOENT :: int where "ENOENT \<equiv> 2"
abbreviation EINTR :: int where "EINTR \<equiv> 4"
abbreviation EIO :: int where "EIO \<equiv> 5"
abbreviation EEXIST :: int where "EEXIST \<equiv> 17"
abbreviation EBADF :: int where "EBADF \<equiv> 9"
abbreviation EAGAIN :: int where "EAGAIN \<equiv> 11"
abbreviation ENOMEM :: int where "ENOMEM \<equiv> 12"
abbreviation EFAULT :: int where "EFAULT \<equiv> 14"
abbreviation EBUSY :: int where "EBUSY \<equiv> 16"
abbreviation ENODEV :: int where "ENODEV \<equiv> 19"
abbreviation EINVAL :: int where "EINVAL \<equiv> 22"
abbreviation ENOTTY :: int where "ENOTTY \<equiv> 25"
abbreviation ESPIPE :: int where "ESPIPE \<equiv> 29"
abbreviation ENOBUFS :: int where "ENOBUFS \<equiv> 105"
abbreviation ETIMEDOUT :: int where "ETIMEDOUT \<equiv> 110"

text \<open>\<open>KERNEL_VERSION(a,b,c)\<close> of linux/version.h, which the version guards compare with.\<close>

definition KERNEL_VERSION :: "nat \<Rightarrow> nat \<Rightarrow> nat \<Rightarrow> nat" where
  "KERNEL_VERSION a b c = a * 65536 + b * 256 + min c 255"

subsection \<open>Characters, buffers and C strings\<close>

abbreviation NUL :: char where "NUL \<equiv> CHR 0x00"
abbreviation LF :: char where "LF \<equiv> CHR 0x0A"

definition zeros :: "nat \<Rightarrow> char list" where
  "zeros n = replicate n NUL"

text \<open>Read \<open>buf[i]\<close>.\<close>

definition rd :: "'a list \<Rightarrow> int \<Rightarrow> 'a option" where
  "rd buf i = (if 0 \<le> i \<and> i < int (length buf) then Some (buf ! nat i) else None)"

text \<open>Write \<open>buf[i] = c\<close>.\<close>

definition wr :: "'a list \<Rightarrow> int \<Rightarrow> 'a \<Rightarrow> 'a list option" where
  "wr buf i c = (if 0 \<le> i \<and> i < int (length buf) then Some (buf[nat i := c]) else None)"

text \<open>The characters before the first NUL of a buffer.\<close>

definition cstr :: "char list \<Rightarrow> string" where
  "cstr buf = takeWhile (\<lambda>c. c \<noteq> NUL) buf"

text \<open>A buffer that holds a terminated string.\<close>

definition terminated :: "char list \<Rightarrow> bool" where
  "terminated buf \<longleftrightarrow> NUL \<in> set buf"

text \<open>Overwrite the bytes from position \<open>i\<close> on with \<open>s\<close> (\<open>memcpy(buf + i, s, n)\<close>).\<close>

definition blit :: "'a list \<Rightarrow> nat \<Rightarrow> 'a list \<Rightarrow> 'a list option" where
  "blit buf i s =
     (if i + length s \<le> length buf then Some (take i buf @ s @ drop (i + length s) buf) else None)"

text \<open>\<open>sprintf(buf, ...)\<close> with formatted text \<open>s\<close>: the text and its NUL must fit.\<close>

definition c_sprintf :: "char list \<Rightarrow> string \<Rightarrow> char list option" where
  "c_sprintf buf s = blit buf 0 (s @ [NUL])"

text \<open>
  \<open>snprintf(buf, size, ...)\<close> with formatted text \<open>s\<close>: at most \<open>size - 1\<close> characters and a NUL
  are stored, and the length of the whole text is returned.
\<close>

definition c_snprintf :: "char list \<Rightarrow> nat \<Rightarrow> string \<Rightarrow> (char list \<times> int) option" where
  "c_snprintf buf sz s =
     (if sz = 0 then Some (buf, int (length s))
      else map_option (\<lambda>b. (b, int (length s))) (blit buf 0 (take (sz - 1) s @ [NUL])))"

text \<open>
  \<open>strncmp(s, t, n) == 0\<close> for the contents \<open>s\<close> and \<open>t\<close> of two C strings (without their NUL).
\<close>

definition strncmp_eq :: "string \<Rightarrow> string \<Rightarrow> nat \<Rightarrow> bool" where
  "strncmp_eq s t n \<longleftrightarrow> take n s = take n t"

lemma char_of_0 [simp]: "char_of (0 :: nat) = NUL"
  by (simp add: char_of_def)

lemma length_zeros [simp]: "length (zeros n) = n"
  by (simp add: zeros_def)

lemma nth_zeros [simp]: "i < n \<Longrightarrow> zeros n ! i = NUL"
  by (simp add: zeros_def)

lemma terminated_zeros [simp]: "terminated (zeros n) \<longleftrightarrow> 0 < n"
  by (auto simp: terminated_def zeros_def)

lemma cstr_zeros [simp]: "cstr (zeros n) = []"
  by (cases n) (simp_all add: cstr_def zeros_def)

lemma rd_Some [c_buf]: "0 \<le> i \<Longrightarrow> i < int (length buf) \<Longrightarrow> rd buf i = Some (buf ! nat i)"
  by (simp add: rd_def)

lemma rd_None_iff [c_buf]: "rd buf i = None \<longleftrightarrow> i < 0 \<or> int (length buf) \<le> i"
  by (auto simp: rd_def)

lemma rd_nat [simp]: "rd buf (int i) = (if i < length buf then Some (buf ! i) else None)"
  by (simp add: rd_def)

lemma wr_nat [simp]: "wr buf (int i) c = (if i < length buf then Some (buf[i := c]) else None)"
  by (simp add: wr_def)

lemma cstr_no_nul [simp]: "NUL \<notin> set (cstr buf)"
  by (auto simp: cstr_def dest: set_takeWhileD)

lemma cstr_append_nul [simp]: "NUL \<notin> set s \<Longrightarrow> cstr (s @ NUL # rest) = s"
  by (induction s) (auto simp: cstr_def)

lemma cstr_append: "NUL \<notin> set s \<Longrightarrow> cstr (s @ t) = s @ cstr t"
  by (induction s) (auto simp: cstr_def)

lemma terminated_append_nul [simp]: "terminated (s @ NUL # rest)"
  by (simp add: terminated_def)

lemma cstr_no_terminator: "\<not> terminated buf \<Longrightarrow> cstr buf = buf"
  by (induction buf) (auto simp: cstr_def terminated_def)

lemma length_cstr_less: "terminated buf \<Longrightarrow> length (cstr buf) < length buf"
  by (induction buf) (auto simp: cstr_def terminated_def)

lemma length_cstr_le: "length (cstr buf) \<le> length buf"
  by (simp add: cstr_def length_takeWhile_le)

lemma nth_cstr: "i < length (cstr buf) \<Longrightarrow> cstr buf ! i = buf ! i"
  by (simp add: cstr_def takeWhile_nth)

lemma nth_length_cstr: "terminated buf \<Longrightarrow> buf ! length (cstr buf) = NUL"
  by (induction buf) (auto simp: cstr_def terminated_def)

lemma cstr_drop:
  assumes "p \<le> length (cstr buf)"
  shows "cstr (drop p buf) = drop p (cstr buf)"
  using assms
proof (induction buf arbitrary: p)
  case Nil
  then show ?case by (simp add: cstr_def)
next
  case (Cons c buf)
  then show ?case by (cases p) (auto simp: cstr_def split: if_splits)
qed

lemma cstr_eq_take: "cstr buf = take (length (cstr buf)) buf"
  unfolding cstr_def by (rule takeWhile_eq_take)

lemma take_drop_cstr:
  "take (min n (length (cstr buf) - p)) (drop p buf) = take n (drop p (cstr buf))"
  by (subst (2) cstr_eq_take) (simp add: drop_take)

lemma terminated_drop:
  assumes "terminated buf" and "p \<le> length (cstr buf)"
  shows "terminated (drop p buf)"
  using assms
proof (induction buf arbitrary: p)
  case Nil
  then show ?case by (simp add: terminated_def)
next
  case (Cons c buf)
  then show ?case by (cases p) (auto simp: cstr_def terminated_def split: if_splits)
qed

lemma take_drop_rest:
  "drop k xs = take n (drop k xs) @ drop (k + length (take n (drop k xs))) xs"
proof -
  have "drop (length (take n (drop k xs))) (drop k xs) = drop n (drop k xs)"
    by (simp add: min_def)
  then show ?thesis by (metis append_take_drop_id drop_drop add.commute)
qed

lemma blit_length: "blit buf i s = Some buf' \<Longrightarrow> length buf' = length buf"
  by (auto simp: blit_def split: if_splits)

lemma blit_0: "length s \<le> length buf \<Longrightarrow> blit buf 0 s = Some (s @ drop (length s) buf)"
  by (simp add: blit_def)

lemma c_sprintf_Some:
  assumes "length s < length buf"
  shows "c_sprintf buf s = Some (s @ NUL # drop (Suc (length s)) buf)"
  using assms by (simp add: c_sprintf_def blit_0)

lemma c_sprintf_None_iff: "c_sprintf buf s = None \<longleftrightarrow> length buf \<le> length s"
  by (auto simp: c_sprintf_def blit_def)

subsection \<open>Decimal output (the \<open>%d\<close> and \<open>%ld\<close> conversions)\<close>

definition digit :: "nat \<Rightarrow> char" where
  "digit d = char_of (48 + d)"

fun dec_nat :: "nat \<Rightarrow> string" where
  "dec_nat n = (if n < 10 then [digit n] else dec_nat (n div 10) @ [digit (n mod 10)])"

declare dec_nat.simps [simp del]

definition dec_int :: "int \<Rightarrow> string" where
  "dec_int i = (if i < 0 then CHR ''-'' # dec_nat (nat (- i)) else dec_nat (nat i))"

text \<open>The \<open>%+ld\<close> conversion always writes a sign.\<close>

definition dec_int_plus :: "int \<Rightarrow> string" where
  "dec_int_plus i = (if i < 0 then dec_int i else CHR ''+'' # dec_int i)"

lemma of_char_digit: "d < 10 \<Longrightarrow> of_char (digit d) = 48 + d"
  by (simp add: digit_def)

lemma digit_neq_nul: "d < 10 \<Longrightarrow> digit d \<noteq> NUL"
proof
  assume d: "d < 10" and "digit d = NUL"
  then have "(of_char (digit d) :: nat) = of_char NUL" by simp
  with d show False by (simp add: of_char_digit)
qed

lemma dec_nat_digits: "c \<in> set (dec_nat n) \<Longrightarrow> \<exists>d<10. c = digit d"
proof (induction n rule: dec_nat.induct)
  case (1 n)
  show ?case using 1
    by (subst (asm) dec_nat.simps) (auto split: if_splits intro: exI [of _ "n mod 10"])
qed

lemma dec_nat_no_nul [simp]: "NUL \<notin> set (dec_nat n)"
  using dec_nat_digits digit_neq_nul by metis

lemma dec_int_no_nul [simp]: "NUL \<notin> set (dec_int i)"
  by (simp add: dec_int_def)

lemma dec_int_plus_no_nul [simp]: "NUL \<notin> set (dec_int_plus i)"
  by (simp add: dec_int_plus_def)

lemma length_dec_nat: "n < 10 ^ k \<Longrightarrow> 0 < k \<Longrightarrow> length (dec_nat n) \<le> k"
proof (induction n arbitrary: k rule: dec_nat.induct)
  case (1 n)
  show ?case
  proof (cases "n < 10")
    case True
    then show ?thesis using "1.prems" by (subst dec_nat.simps) simp
  next
    case False
    with "1.prems" obtain j where k: "k = Suc j" and j: "0 < j"
      by (cases k; cases "k - 1") auto
    from "1.prems" have "n div 10 < 10 ^ j" by (simp add: k less_mult_imp_div_less mult.commute)
    with False j have "length (dec_nat (n div 10)) \<le> j" by (intro "1.IH") auto
    then show ?thesis using False k by (subst dec_nat.simps) simp
  qed
qed

lemma length_dec_int: "\<bar>i\<bar> < 10 ^ k \<Longrightarrow> 0 < k \<Longrightarrow> length (dec_int i) \<le> Suc k"
  using length_dec_nat [of "nat \<bar>i\<bar>" k]
  by (auto simp: dec_int_def nat_less_iff abs_if le_Suc_eq split: if_splits)

lemma length_dec_int_plus: "\<bar>i\<bar> < 10 ^ k \<Longrightarrow> 0 < k \<Longrightarrow> length (dec_int_plus i) \<le> Suc k"
  using length_dec_nat [of "nat \<bar>i\<bar>" k]
  by (auto simp: dec_int_plus_def dec_int_def nat_less_iff abs_if le_Suc_eq split: if_splits)

subsection \<open>Atomic compare and exchange\<close>

text \<open>
  \<open>atomic_cmpxchg(&v, old, new)\<close> in one step: the new value of \<open>v\<close> and the value returned.
\<close>

definition atomic_cmpxchg :: "'a \<Rightarrow> 'a \<Rightarrow> 'a \<Rightarrow> 'a \<times> 'a" where
  "atomic_cmpxchg v old new = (if v = old then (new, v) else (v, v))"

lemma atomic_cmpxchg_eq [simp]: "atomic_cmpxchg v v new = (new, v)"
  by (simp add: atomic_cmpxchg_def)

lemma atomic_cmpxchg_neq [simp]: "v \<noteq> old \<Longrightarrow> atomic_cmpxchg v old new = (v, v)"
  by (simp add: atomic_cmpxchg_def)

subsection \<open>User-space memory\<close>

type_synonym umem = "nat \<rightharpoonup> char"

text \<open>\<open>put_user(c, p)\<close>: the new memory and the return value.\<close>

definition put_user :: "char \<Rightarrow> nat \<Rightarrow> umem \<Rightarrow> umem \<times> int" where
  "put_user c p m = (if m p = None then (m, - EFAULT) else (m(p \<mapsto> c), 0))"

text \<open>\<open>get_user(x, p)\<close>: the value stored in \<open>x\<close> (zero on a fault) and the return value.\<close>

definition get_user :: "nat \<Rightarrow> umem \<Rightarrow> char \<times> int" where
  "get_user p m = (case m p of None \<Rightarrow> (NUL, - EFAULT) | Some c \<Rightarrow> (c, 0))"

text \<open>Store a list of characters at consecutive addresses, one \<open>put_user\<close> each.\<close>

fun put_str :: "umem \<Rightarrow> nat \<Rightarrow> string \<Rightarrow> umem" where
  "put_str m p [] = m"
| "put_str m p (c # cs) = put_str (fst (put_user c p m)) (Suc p) cs"

text \<open>The address range \<open>[p, p + n)\<close> is mapped, and what it holds.\<close>

definition mapped :: "umem \<Rightarrow> nat \<Rightarrow> nat \<Rightarrow> bool" where
  "mapped m p n \<longleftrightarrow> (\<forall>i<n. m (p + i) \<noteq> None)"

definition ustr :: "umem \<Rightarrow> nat \<Rightarrow> nat \<Rightarrow> string" where
  "ustr m p n = map (\<lambda>i. fst (get_user (p + i) m)) [0..<n]"

lemma length_ustr [simp]: "length (ustr m p n) = n"
  by (simp add: ustr_def)

lemma dom_put_user [simp]: "dom (fst (put_user c p m)) = dom m"
  by (auto simp: put_user_def)

lemma put_user_eq_None [simp]: "fst (put_user c p m) q = None \<longleftrightarrow> m q = None"
  by (auto simp: put_user_def)

lemma put_str_eq_None [simp]: "put_str m p s q = None \<longleftrightarrow> m q = None"
  by (induction s arbitrary: m p) auto

lemma mapped_put_user [simp]: "mapped (fst (put_user c q m)) p n \<longleftrightarrow> mapped m p n"
  by (simp add: mapped_def)

lemma mapped_put_str [simp]: "mapped (put_str m q s) p n \<longleftrightarrow> mapped m p n"
  by (simp add: mapped_def)

lemma mapped_Suc: "mapped m p (Suc n) \<longleftrightarrow> m p \<noteq> None \<and> mapped m (Suc p) n"
proof -
  have "(\<forall>i < Suc n. m (p + i) \<noteq> None) \<longleftrightarrow> m p \<noteq> None \<and> (\<forall>i < n. m (Suc p + i) \<noteq> None)"
    by (subst All_less_Suc2) simp
  then show ?thesis by (simp add: mapped_def)
qed

lemma mapped_mono: "mapped m p n \<Longrightarrow> k \<le> n \<Longrightarrow> mapped m p k"
  by (simp add: mapped_def)

lemma put_str_other: "q < p \<or> p + length s \<le> q \<Longrightarrow> put_str m p s q = m q"
  by (induction s arbitrary: m p) (auto simp: put_user_def)

lemma put_str_nth:
  "mapped m p (length s) \<Longrightarrow> i < length s \<Longrightarrow> put_str m p s (p + i) = Some (s ! i)"
proof (induction s arbitrary: m p i)
  case Nil
  then show ?case by simp
next
  case (Cons c s)
  show ?case
  proof (cases i)
    case 0
    then show ?thesis using Cons.prems by (auto simp: put_str_other put_user_def mapped_Suc)
  next
    case (Suc j)
    then show ?thesis
      using Cons.prems Cons.IH [of "fst (put_user c p m)" "Suc p" j] by (simp add: mapped_Suc)
  qed
qed

lemma ustr_put_str [umem_simps]:
  assumes "mapped m p (length s)"
  shows "ustr (put_str m p s) p (length s) = s"
proof (rule nth_equalityI)
  fix i assume "i < length (ustr (put_str m p s) p (length s))"
  then show "ustr (put_str m p s) p (length s) ! i = s ! i"
    using put_str_nth [OF assms] by (simp add: ustr_def get_user_def)
qed simp

lemma put_str_append: "put_str m p (s @ t) = put_str (put_str m p s) (p + length s) t"
  by (induction s arbitrary: m p) auto

lemma ustr_cong: "(\<And>i. i < n \<Longrightarrow> m (p + i) = m' (p + i)) \<Longrightarrow> ustr m p n = ustr m' p n"
  by (simp add: ustr_def get_user_def)

lemma ustr_Suc: "ustr m p (Suc n) = fst (get_user p m) # ustr m (Suc p) n"
  by (simp add: ustr_def upt_conv_Cons map_Suc_upt [symmetric] del: upt_Suc)

subsection \<open>Copying whole buffers\<close>

text \<open>
  \<open>copy_to_user(p, s, n)\<close>: the new memory and the number of bytes that could not be copied; it stops at
  the first address that is not mapped.
\<close>

fun copy_to_user :: "nat \<Rightarrow> string \<Rightarrow> umem \<Rightarrow> umem \<times> nat" where
  "copy_to_user p [] m = (m, 0)"
| "copy_to_user p (c # cs) m =
     (if m p = None then (m, length (c # cs)) else copy_to_user (Suc p) cs (m(p \<mapsto> c)))"

text \<open>
  \<open>copy_from_user(dst, p, n)\<close>: the \<open>n\<close> bytes stored in the destination, which are zero from the first
  address on that is not mapped, and the number of bytes that could not be copied.
\<close>

definition copy_from_user :: "nat \<Rightarrow> nat \<Rightarrow> umem \<Rightarrow> string \<times> nat" where
  "copy_from_user p n m =
     (let k = length (takeWhile (\<lambda>i. m (p + i) \<noteq> None) [0..<n])
      in (take k (ustr m p n) @ zeros (n - k), n - k))"

lemma copy_to_user_mapped [umem_simps]:
  "mapped m p (length s) \<Longrightarrow> copy_to_user p s m = (put_str m p s, 0)"
proof (induction s arbitrary: p m)
  case Nil
  then show ?case by simp
next
  case (Cons c s)
  then have p: "m p \<noteq> None" "mapped m (Suc p) (length s)" by (simp_all add: mapped_Suc)
  then have "fst (put_user c p m) = m(p \<mapsto> c)" by (auto simp: put_user_def)
  moreover from this p(2) have "mapped (m(p \<mapsto> c)) (Suc p) (length s)"
    by (metis mapped_put_user)
  ultimately show ?case using p(1) Cons.IH by (simp add: put_str.simps(2))
qed

lemma copy_to_user_fault:
  "\<not> mapped m p (length s) \<Longrightarrow> 0 < snd (copy_to_user p s m)"
proof (induction s arbitrary: p m)
  case Nil
  then show ?case by (simp add: mapped_def)
next
  case (Cons c s)
  show ?case
  proof (cases "m p = None")
    case False
    then have "\<not> mapped m (Suc p) (length s)" using Cons.prems by (simp add: mapped_Suc)
    moreover have "mapped (m(p \<mapsto> c)) (Suc p) (length s) \<longleftrightarrow> mapped m (Suc p) (length s)"
      by (simp add: mapped_def)
    ultimately show ?thesis using False Cons.IH by simp
  qed simp
qed

lemma copy_from_user_mapped [umem_simps]:
  assumes "mapped m p n"
  shows "copy_from_user p n m = (ustr m p n, 0)"
proof -
  have "takeWhile (\<lambda>i. m (p + i) \<noteq> None) [0..<n] = [0..<n]"
    using assms by (simp add: mapped_def takeWhile_eq_all_conv)
  then have "length (takeWhile (\<lambda>i. m (p + i) \<noteq> None) [0..<n]) = n" by (metis length_upt diff_zero)
  then show ?thesis by (simp only: copy_from_user_def Let_def) (simp add: zeros_def)
qed

lemma length_copy_from_user [simp]: "length (fst (copy_from_user p n m)) = n"
  using length_takeWhile_le [of "\<lambda>i. m (p + i) \<noteq> None" "[0..<n]"]
  by (simp add: copy_from_user_def Let_def)

end
