(* ===== verification/Lifecycle.thy ===== *)
theory Lifecycle
  imports Prelude
begin

text \<open>
  The contract between a module's init and exit functions and the module loader.

  Every module's init function acquires kernel objects one after another; when a step fails it
  undoes, through a chain of labels, the steps that succeeded, and returns the error. Its exit
  function undoes all of them. An init function is modelled as its return value and the list of
  acquisitions and releases it performed, for given answers of the kernel services it calls
  (a record of answers per module). \<open>kops_run\<close> executes such a list on the set of objects held:
  it is \<open>None\<close> when an object is acquired twice or released without being held.

  The locale \<open>module_lifecycle\<close> states what init and exit owe the loader, and derives that no
  sequence of insmod and rmmod leaks an object or frees one twice.
\<close>

subsection \<open>Kernel objects, acquisitions and releases\<close>

datatype resource =
    Chrdev string            \<comment> \<open>a character device number, or region of them\<close>
  | Cdev string              \<comment> \<open>a cdev added to the system\<close>
  | Class string             \<comment> \<open>a device class\<close>
  | Device string            \<comment> \<open>a device node\<close>
  | Gpio nat                 \<comment> \<open>a requested GPIO line\<close>
  | Irq int string           \<comment> \<open>a requested interrupt line and its cookie\<close>
  | Proc_Entry string        \<comment> \<open>a /proc entry\<close>
  | Blkdev string            \<comment> \<open>a block device major number\<close>
  | Heap string              \<comment> \<open>a kmalloc or vmalloc allocation\<close>
  | Tag_Set string           \<comment> \<open>a blk-mq tag set\<close>
  | Queue string             \<comment> \<open>a request queue owned by the module\<close>
  | Disk string              \<comment> \<open>a gendisk allocation\<close>
  | Live_Disk string         \<comment> \<open>a gendisk made visible by add_disk\<close>
  | Netdev string            \<comment> \<open>a net_device allocation\<close>
  | Live_Netdev string       \<comment> \<open>a registered net_device\<close>
  | Debugfs string           \<comment> \<open>a file or directory of debugfs\<close>
  | Kobject string           \<comment> \<open>a kernel object and its directory in sysfs\<close>
  | Slab string              \<comment> \<open>a slab cache\<close>
  | Slab_Object string       \<comment> \<open>an object allocated from a slab cache\<close>
  | Workqueue string         \<comment> \<open>a work queue\<close>
  | Kprobe string            \<comment> \<open>a registered kprobe, by its symbol\<close>
  | Pdev string              \<comment> \<open>a platform_device allocation\<close>
  | Live_Pdev string         \<comment> \<open>a platform_device added to the system\<close>
  | Pdrv string              \<comment> \<open>a registered platform driver\<close>

datatype kop =
    Acquire resource
  | Release resource
  | Drop resource            \<comment> \<open>a release that looks its object up and ignores a missing one\<close>

text \<open>Pointers that may encode an error (linux/err.h).\<close>

datatype 'a err_ptr = Ptr 'a | ERR_PTR int

text \<open>Error pointers hold negative error codes.\<close>

definition err_ptr_ok :: "'a err_ptr \<Rightarrow> bool" where
  "err_ptr_ok p = (case p of ERR_PTR e \<Rightarrow> e < 0 | Ptr _ \<Rightarrow> True)"

fun kop_step :: "kop \<Rightarrow> resource set \<Rightarrow> resource set option" where
  "kop_step (Acquire r) H = (if r \<in> H then None else Some (insert r H))"
| "kop_step (Release r) H = (if r \<in> H then Some (H - {r}) else None)"
| "kop_step (Drop r) H = Some (H - {r})"

fun kops_run :: "kop list \<Rightarrow> resource set \<Rightarrow> resource set option" where
  "kops_run [] H = Some H"
| "kops_run (k # ks) H = (case kop_step k H of None \<Rightarrow> None | Some H' \<Rightarrow> kops_run ks H')"

lemma kops_run_append:
  "kops_run (ks @ ls) H = (case kops_run ks H of None \<Rightarrow> None | Some H' \<Rightarrow> kops_run ls H')"
  by (induction ks arbitrary: H) (auto split: option.splits)

subsection \<open>The module loader\<close>

datatype 'e mod_event = Insmod 'e | Rmmod

text \<open>
  The loader's state is the environment the module was loaded in, if it is loaded, and the objects
  the module holds. A nonzero return of init means that the module is not loaded.
\<close>

fun mod_step :: "('e \<Rightarrow> int \<times> kop list) \<Rightarrow> ('e \<Rightarrow> kop list) \<Rightarrow>
    'e option \<times> resource set \<Rightarrow> 'e mod_event \<Rightarrow> ('e option \<times> resource set) option" where
  "mod_step init exit (None, H) (Insmod e) =
     (case init e of (ret, ks) \<Rightarrow>
       map_option (\<lambda>H'. (if ret = 0 then Some e else None, H')) (kops_run ks H))"
| "mod_step init exit (Some e0, H) (Insmod e) = Some (Some e0, H)"
| "mod_step init exit (Some e0, H) Rmmod = map_option (\<lambda>H'. (None, H')) (kops_run (exit e0) H)"
| "mod_step init exit (None, H) Rmmod = Some (None, H)"

fun mod_run :: "('e \<Rightarrow> int \<times> kop list) \<Rightarrow> ('e \<Rightarrow> kop list) \<Rightarrow>
    'e option \<times> resource set \<Rightarrow> 'e mod_event list \<Rightarrow> ('e option \<times> resource set) option" where
  "mod_run init exit st [] = Some st"
| "mod_run init exit st (ev # evs) =
     (case mod_step init exit st ev of None \<Rightarrow> None | Some st' \<Rightarrow> mod_run init exit st' evs)"

text \<open>All environments of a run satisfy a condition.\<close>

definition envs_ok :: "('e \<Rightarrow> bool) \<Rightarrow> 'e mod_event list \<Rightarrow> bool" where
  "envs_ok P evs = list_all (\<lambda>ev. case ev of Insmod e \<Rightarrow> P e | Rmmod \<Rightarrow> True) evs"

text \<open>The objects a loader state should hold.\<close>

definition accounted :: "('e \<Rightarrow> resource set) \<Rightarrow> 'e option \<times> resource set \<Rightarrow> bool" where
  "accounted owned st = (snd st = (case fst st of None \<Rightarrow> {} | Some e \<Rightarrow> owned e))"

text \<open>
  Starting unloaded and with nothing held, every run of the loader goes through, and after each event the
  module holds exactly what it should: nothing leaks, and nothing is released twice.
\<close>

definition leak_free ::
    "('e \<Rightarrow> int \<times> kop list) \<Rightarrow> ('e \<Rightarrow> kop list) \<Rightarrow> ('e \<Rightarrow> resource set) \<Rightarrow> ('e \<Rightarrow> bool) \<Rightarrow> bool" where
  "leak_free init exit owned valid \<longleftrightarrow> (\<forall>evs. envs_ok valid evs \<longrightarrow>
     (\<exists>st. mod_run init exit (None, {}) evs = Some st \<and> accounted owned st))"

subsection \<open>What init and exit owe the loader\<close>

locale module_lifecycle =
  fixes init :: "'e \<Rightarrow> int \<times> kop list"
    and exit :: "'e \<Rightarrow> kop list"
    and owned :: "'e \<Rightarrow> resource set"
    and valid :: "'e \<Rightarrow> bool"
  assumes init_ok: "valid e \<Longrightarrow> fst (init e) = 0 \<Longrightarrow> kops_run (snd (init e)) {} = Some (owned e)"
    and init_fail: "valid e \<Longrightarrow> fst (init e) \<noteq> 0 \<Longrightarrow> kops_run (snd (init e)) {} = Some {}"
    and exit_ok: "valid e \<Longrightarrow> fst (init e) = 0 \<Longrightarrow> kops_run (exit e) (owned e) = Some {}"
begin

lemma mod_step_accounted:
  assumes "accounted owned st" and "\<And>e. fst st = Some e \<Longrightarrow> valid e \<and> fst (init e) = 0"
    and "envs_ok valid [ev]"
  shows "\<exists>st'. mod_step init exit st ev = Some st' \<and> accounted owned st' \<and>
    (\<forall>e. fst st' = Some e \<longrightarrow> valid e \<and> fst (init e) = 0)"
proof (cases ev)
  case (Insmod e)
  with assms init_ok [of e] init_fail [of e] show ?thesis
    by (cases st; cases "fst st"; cases "fst (init e) = 0")
      (auto simp: accounted_def envs_ok_def split: prod.splits)
next
  case Rmmod
  with assms exit_ok show ?thesis
    by (cases st; cases "fst st") (auto simp: accounted_def)
qed

lemma mod_run_accounted:
  assumes "accounted owned st" and "\<And>e. fst st = Some e \<Longrightarrow> valid e \<and> fst (init e) = 0"
    and "envs_ok valid evs"
  shows "\<exists>st'. mod_run init exit st evs = Some st' \<and> accounted owned st'"
  using assms
proof (induction evs arbitrary: st)
  case Nil
  then show ?case by simp
next
  case (Cons ev evs)
  then have "envs_ok valid [ev]" and evs: "envs_ok valid evs" by (simp_all add: envs_ok_def)
  then obtain st' where "mod_step init exit st ev = Some st'" "accounted owned st'"
    "\<forall>e. fst st' = Some e \<longrightarrow> valid e \<and> fst (init e) = 0"
    using mod_step_accounted [of st ev] Cons.prems by blast
  with evs Cons.IH [of st'] show ?case by simp
qed

lemma no_leak:
  "envs_ok valid evs \<Longrightarrow> \<exists>st. mod_run init exit (None, {}) evs = Some st \<and> accounted owned st"
  by (rule mod_run_accounted) (simp_all add: accounted_def)

lemma leak_free: "leak_free init exit owned valid"
  unfolding leak_free_def using no_leak by blast

end

end
