(* ===== verification/Char_Read.thy ===== *)
theory Char_Read
  imports Prelude
begin

text \<open>
  Reading a device file. The modules chardev.c, chardev2.c and static_key.c hand out a message with
  one loop of \<open>put_user\<close> calls (\<open>copy_out_loop\<close>); a program such as examples/other/cat_nonblock.c
  reads until it is given nothing. The locale \<open>seq_reader\<close> is what such a program relies on;
  \<open>copy_reader\<close> and \<open>msg_reader\<close>, which give it by way of the system call, are what a read handler
  with a file offset promises.
\<close>

subsection \<open>The loop that hands out a message\<close>

text \<open>
  \<open>while (length && *msg_ptr) { put_user(*(msg_ptr++), buffer++); length--; bytes_read++; }\<close>.
  The return value of \<open>put_user\<close> is ignored, as in the code.
\<close>

fun copy_out_loop ::
    "char list \<Rightarrow> nat \<Rightarrow> umem \<Rightarrow> nat \<Rightarrow> nat \<Rightarrow> nat \<Rightarrow> (umem \<times> nat) option" where
  "copy_out_loop msg p m buffer 0 bytes_read = Some (m, bytes_read)"
| "copy_out_loop msg p m buffer (Suc len) bytes_read =
     (case rd msg (int p) of
        None \<Rightarrow> None
      | Some c \<Rightarrow>
          if c = NUL then Some (m, bytes_read)
          else copy_out_loop msg (Suc p) (fst (put_user c buffer m)) (Suc buffer) len
                 (Suc bytes_read))"

text \<open>It stores the next \<open>len\<close> characters of the message, fewer at the message's end.\<close>

lemma copy_out_loop_eq:
  assumes "terminated msg" and "p \<le> length (cstr msg)"
  shows "copy_out_loop msg p m buffer len br =
    Some (put_str m buffer (take len (drop p (cstr msg))),
          br + length (take len (drop p (cstr msg))))"
  using assms
proof (induction len arbitrary: p m buffer br)
  case 0
  then show ?case by simp
next
  case (Suc len)
  have plen: "p < length msg" using Suc.prems length_cstr_less [of msg] by simp
  show ?case
  proof (cases "p = length (cstr msg)")
    case True
    with plen Suc.prems show ?thesis by (simp add: nth_length_cstr)
  next
    case False
    with Suc.prems have p: "p < length (cstr msg)" by simp
    then have "cstr msg ! p \<noteq> NUL" by (metis cstr_no_nul nth_mem)
    moreover have "drop p (cstr msg) = cstr msg ! p # drop (Suc p) (cstr msg)"
      using p by (simp add: Cons_nth_drop_Suc)
    ultimately show ?thesis
      using p plen Suc.IH [of "Suc p"] Suc.prems by (simp add: nth_cstr)
  qed
qed

text \<open>
  The body of \<open>device_read\<close>, the same in the three modules, over the message buffer: a read at the
  message's end resets the offset and returns 0. The result is the memory, the offset and the count.
\<close>

definition device_read_body ::
    "char list \<Rightarrow> umem \<Rightarrow> nat \<Rightarrow> nat \<Rightarrow> int \<Rightarrow> (umem \<times> int \<times> int) option" where
  "device_read_body msg m buffer len off =
     (case rd msg off of
        None \<Rightarrow> None
      | Some c \<Rightarrow>
          if c = NUL then Some (m, 0, 0)
          else (case copy_out_loop msg (nat off) m buffer len 0 of
                  None \<Rightarrow> None
                | Some (m', bytes_read) \<Rightarrow> Some (m', off + int bytes_read, int bytes_read)))"

lemma device_read_body_more:
  assumes "terminated msg" and "0 \<le> off" and "nat off < length (cstr msg)"
  shows "device_read_body msg m buffer n off =
    (let d = take n (drop (nat off) (cstr msg))
     in Some (put_str m buffer d, off + int (length d), int (length d)))"
proof -
  have "rd msg off = Some (cstr msg ! nat off)"
    using assms length_cstr_le [of msg] by (simp add: rd_def nth_cstr)
  moreover have "cstr msg ! nat off \<noteq> NUL"
    using assms by (metis cstr_no_nul nth_mem)
  ultimately show ?thesis
    using assms copy_out_loop_eq [of msg "nat off" m buffer n 0] by (simp add: device_read_body_def)
qed

lemma device_read_body_end:
  "terminated msg \<Longrightarrow> off = int (length (cstr msg)) \<Longrightarrow>
    device_read_body msg m buffer n off = Some (m, 0, 0)"
  by (simp add: device_read_body_def length_cstr_less nth_length_cstr)

text \<open>Outside the buffer the first access already leaves the object.\<close>

lemma device_read_body_outside:
  "off < 0 \<or> int (length msg) \<le> off \<Longrightarrow> device_read_body msg m buffer n off = None"
  by (auto simp: device_read_body_def rd_def)

subsection \<open>The loop that takes a message in\<close>

text \<open>
  \<open>for (i = 0; i < length && i < bound; i++) get_user(message[i], buffer + i);\<close> of chardev2.c and
  sleep.c, from position \<open>i\<close>. An address that faults stores a zero byte. The result is the message
  and the final \<open>i\<close>; \<open>None\<close> is a store outside the array.
\<close>

function copy_in_loop ::
    "nat \<Rightarrow> char list \<Rightarrow> umem \<Rightarrow> nat \<Rightarrow> nat \<Rightarrow> nat \<Rightarrow> (char list \<times> nat) option" where
  "copy_in_loop bound message m buffer len i =
     (if i < len \<and> i < bound then
        (case wr message (int i) (fst (get_user (buffer + i) m)) of
           None \<Rightarrow> None
         | Some message' \<Rightarrow> copy_in_loop bound message' m buffer len (Suc i))
      else Some (message, i))"
  by pat_completeness auto
termination
  by (relation "measure (\<lambda>(bound, message, m, buffer, len, i). bound - i)") auto

declare copy_in_loop.simps [simp del]

lemma ustr_snoc: "ustr m p (Suc n) = ustr m p n @ [fst (get_user (p + n) m)]"
  by (simp add: ustr_def)

lemma copy_in_loop_from:
  assumes "bound \<le> length message" and "i \<le> min len bound"
    and "take i message = ustr m buffer i"
  shows "copy_in_loop bound message m buffer len i =
    Some (ustr m buffer (min len bound) @ drop (min len bound) message, min len bound)"
  using assms
proof (induction bound message m buffer len i rule: copy_in_loop.induct)
  case (1 bound message m buffer len i)
  show ?case
  proof (cases "i < len \<and> i < bound")
    case True
    let ?c = "fst (get_user (buffer + i) m)"
    have "wr message (int i) ?c = Some (message[i := ?c])" using True 1 by simp
    moreover have "take (Suc i) (message[i := ?c]) = ustr m buffer (Suc i)"
      using True 1 by (simp add: take_Suc_conv_app_nth ustr_snoc)
    ultimately show ?thesis
      using True 1 by (simp add: copy_in_loop.simps [of bound message m buffer len i])
  next
    case False
    with 1 have "i = min len bound" by auto
    with False 1 show ?thesis
      by (metis append_take_drop_id copy_in_loop.simps)
  qed
qed

text \<open>The first bytes of the message are replaced, the rest is left as it was.\<close>

lemma copy_in_loop_eq:
  assumes "bound \<le> length message"
  shows "copy_in_loop bound message m buffer len 0 =
    Some (ustr m buffer (min len bound) @ drop (min len bound) message, min len bound)"
  using copy_in_loop_from [OF assms, of 0 len m buffer] by (simp add: ustr_def)

subsection \<open>The read system call\<close>

text \<open>
  A read handler takes the device's state, user memory, the user buffer, its length and the file
  offset, and returns the state, memory, offset and return value. The system call passes the open
  file's offset, and the caller finds the bytes in its buffer.
\<close>

type_synonym 's read_handler =
  "'s \<Rightarrow> umem \<Rightarrow> nat \<Rightarrow> nat \<Rightarrow> int \<Rightarrow> ('s \<times> umem \<times> int \<times> int) option"

type_synonym 's open_file = "'s \<times> umem \<times> int"

type_synonym 'f sys_read = "'f \<Rightarrow> nat \<Rightarrow> ('f \<times> (int + string)) option"

definition vfs_read :: "'s read_handler \<Rightarrow> nat \<Rightarrow> 's open_file sys_read" where
  "vfs_read h buffer f n =
     (case f of (s, m, off) \<Rightarrow>
       (case h s m buffer n off of
          None \<Rightarrow> None
        | Some (s', m', off', ret) \<Rightarrow>
            Some ((s', m', if ret < 0 then off else off'),
                  if ret < 0 then Inl (- ret) else Inr (ustr m' buffer (nat ret)))))"

text \<open>
  The contract of a sequential reader: \<open>rest f\<close> is what the file still has to give. A read of at
  least \<open>minlen\<close> bytes makes progress until nothing is left, and then returns nothing.
\<close>

locale seq_reader =
  fixes read :: "'f sys_read"
    and rest :: "'f \<Rightarrow> string"
    and ok :: "'f \<Rightarrow> bool"
    and minlen :: nat
    and maxlen :: nat
  assumes read_more: "ok f \<Longrightarrow> rest f \<noteq> [] \<Longrightarrow> minlen \<le> n \<Longrightarrow> n \<le> maxlen \<Longrightarrow>
      \<exists>f' d. read f n = Some (f', Inr d) \<and> d \<noteq> [] \<and> rest f = d @ rest f' \<and> ok f'"
    and read_end: "ok f \<Longrightarrow> rest f = [] \<Longrightarrow> minlen \<le> n \<Longrightarrow> n \<le> maxlen \<Longrightarrow>
      \<exists>f'. read f n = Some (f', Inr [])"

text \<open>
  The contract of a read handler over a message: a read at an offset inside the message delivers the
  next bytes and advances the offset by what it delivers; a read at its end delivers nothing.
\<close>

locale msg_reader =
  fixes h :: "'s read_handler"
    and content :: "'s \<Rightarrow> string"
    and Inv :: "'s \<Rightarrow> bool"
  assumes h_more: "Inv s \<Longrightarrow> 0 \<le> off \<Longrightarrow> nat off < length (content s) \<Longrightarrow>
      h s m buffer n off =
        (let d = take n (drop (nat off) (content s))
         in Some (s, put_str m buffer d, off + int (length d), int (length d)))"
    and h_end: "Inv s \<Longrightarrow> off = int (length (content s)) \<Longrightarrow>
      \<exists>s' m' off'. h s m buffer n off = Some (s', m', off', 0)"

text \<open>
  The weaker contract of a handler that copies with one \<open>copy_to_user\<close>: it delivers when the bytes it
  is about to store are mapped.
\<close>

locale copy_reader =
  fixes h :: "'s read_handler"
    and content :: "'s \<Rightarrow> string"
    and Inv :: "'s \<Rightarrow> bool"
  assumes copy_more: "Inv s \<Longrightarrow> 0 \<le> off \<Longrightarrow> nat off < length (content s) \<Longrightarrow>
      mapped m buffer (length (take n (drop (nat off) (content s)))) \<Longrightarrow>
      h s m buffer n off =
        (let d = take n (drop (nat off) (content s))
         in Some (s, put_str m buffer d, off + int (length d), int (length d)))"
    and copy_end: "Inv s \<Longrightarrow> off = int (length (content s)) \<Longrightarrow>
      \<exists>s' m' off'. h s m buffer n off = Some (s', m', off', 0)"

sublocale msg_reader \<subseteq> copy_reader
  by unfold_locales (simp add: h_more, rule h_end)

definition file_ok :: "('s \<Rightarrow> bool) \<Rightarrow> ('s \<Rightarrow> string) \<Rightarrow> nat \<Rightarrow> nat \<Rightarrow> 's open_file \<Rightarrow> bool" where
  "file_ok Inv content buffer maxlen f \<longleftrightarrow>
     (case f of (s, m, off) \<Rightarrow>
        Inv s \<and> mapped m buffer maxlen \<and> 0 \<le> off \<and> nat off \<le> length (content s))"

definition file_rest :: "('s \<Rightarrow> string) \<Rightarrow> 's open_file \<Rightarrow> string" where
  "file_rest content f = (case f of (s, m, off) \<Rightarrow> drop (nat off) (content s))"

sublocale copy_reader \<subseteq> seq: seq_reader "vfs_read h buffer" "file_rest content"
    "file_ok Inv content buffer maxlen" 1 maxlen for buffer maxlen
proof unfold_locales
  fix f :: "'s open_file" and n
  assume ok: "file_ok Inv content buffer maxlen f" and rest: "file_rest content f \<noteq> []"
    and n: "1 \<le> n" "n \<le> maxlen"
  obtain s m off where f: "f = (s, m, off)" by (cases f)
  define d where "d = take n (drop (nat off) (content s))"
  from ok rest have off: "0 \<le> off" "nat off < length (content s)" "Inv s"
    "mapped m buffer maxlen" by (auto simp: f file_ok_def file_rest_def)
  have "length d \<le> maxlen" using n by (simp add: d_def)
  then have map: "mapped m buffer (length d)" using off(4) mapped_mono by blast
  then have "ustr (put_str m buffer d) buffer (length d) = d" by (rule ustr_put_str)
  then have "vfs_read h buffer f n = Some ((s, put_str m buffer d, off + int (length d)), Inr d)"
    using copy_more [OF off(3,1,2) map [unfolded d_def]]
    by (simp add: f vfs_read_def Let_def d_def [symmetric] del: length_take)
  moreover have "d \<noteq> []" using off n by (simp add: d_def)
  moreover have "file_rest content f = d @ file_rest content (s, put_str m buffer d, off + int (length d))"
  proof -
    have "nat (off + int (length d)) = nat off + length d" using off by simp
    then show ?thesis unfolding f file_rest_def prod.case d_def by (metis take_drop_rest)
  qed
  moreover have "file_ok Inv content buffer maxlen (s, put_str m buffer d, off + int (length d))"
    using off by (auto simp: file_ok_def d_def)
  ultimately show "\<exists>f' d. vfs_read h buffer f n = Some (f', Inr d) \<and> d \<noteq> [] \<and>
      file_rest content f = d @ file_rest content f' \<and> file_ok Inv content buffer maxlen f'"
    by blast
next
  fix f :: "'s open_file" and n
  assume ok: "file_ok Inv content buffer maxlen f" and rest: "file_rest content f = []"
  obtain s m off where f: "f = (s, m, off)" by (cases f)
  from ok rest have "Inv s" "off = int (length (content s))"
    by (auto simp: f file_ok_def file_rest_def)
  then obtain s' m' off' where "h s m buffer n off = Some (s', m', off', 0)"
    using copy_end by blast
  then show "\<exists>f'. vfs_read h buffer f n = Some (f', Inr [])"
    by (simp add: f vfs_read_def ustr_def)
qed

end
