(* ===== verification/Cat.thy ===== *)
theory Cat
  imports Char_Read
begin

text \<open>
  examples/other/cat_nonblock.c: a program that reads a file until it is given nothing and prints what
  it got. It is modelled as its standard output and exit status; \<open>read\<close> is a read handler of this
  development behind the C library's convention that an error is -1 with \<open>errno\<close>. The context block
  proves once, from the contract \<open>seq_reader\<close>, that the program ends and prints the whole file.
\<close>

definition EXIT_SUCCESS :: int where "EXIT_SUCCESS = 0"
definition EXIT_FAILURE :: int where "EXIT_FAILURE = 1"

definition MAX_BYTES :: nat where "MAX_BYTES = 1024 * 4"

text \<open>\<open>puts\<close> adds a newline.\<close>

definition puts :: "string \<Rightarrow> string" where
  "puts s = s @ [LF]"

text \<open>The loop \<open>do { bytes = read(fd, buffer, MAX_BYTES); ... } while (bytes > 0)\<close>.\<close>

partial_function (option) cat_loop ::
    "'f sys_read \<Rightarrow> 'f \<Rightarrow> string \<Rightarrow> (string \<times> int) option" where
  "cat_loop rdf f out =
     (case rdf f MAX_BYTES of
        None \<Rightarrow> None
      | Some (f', r) \<Rightarrow>
          (case r of
             Inl errno \<Rightarrow>
               Some (out @ puts (if errno = EAGAIN
                                 then ''Normally I'd block, but you told me not to''
                                 else ''Another read error''), EXIT_FAILURE)
           | Inr data \<Rightarrow>
               (if data = [] then Some (out, EXIT_SUCCESS) else cat_loop rdf f' (out @ data))))"

text \<open>\<open>main\<close>, for the answer of \<open>open\<close> (the open file, or \<open>errno\<close>).\<close>

definition cat_main ::
    "nat \<Rightarrow> string \<Rightarrow> 'f sys_read \<Rightarrow> int + 'f \<Rightarrow> (string \<times> int) option" where
  "cat_main argc argv0 rdf opened =
     (if argc \<noteq> 2 then
        Some (''Usage: '' @ argv0 @ '' <filename>'' @ [LF]
              @ puts ''Reads the content of a file, but doesn't wait for input'', EXIT_FAILURE)
      else (case opened of
              Inl errno \<Rightarrow>
                Some (puts (if errno = EAGAIN then ''Open would block'' else ''Open failed''),
                      EXIT_FAILURE)
            | Inr f \<Rightarrow> cat_loop rdf f []))"

context seq_reader
begin

text \<open>The loop ends and prints exactly what the file had to give.\<close>

lemma cat_loop_prints:
  assumes "ok f" and "minlen \<le> MAX_BYTES" and "MAX_BYTES \<le> maxlen"
  shows "cat_loop read f out = Some (out @ rest f, EXIT_SUCCESS)"
  using assms(1)
proof (induction "length (rest f)" arbitrary: f out rule: less_induct)
  case less
  show ?case
  proof (cases "rest f = []")
    case True
    with read_end [OF less.prems True assms(2,3)] show ?thesis
      by (auto simp: cat_loop.simps)
  next
    case False
    from read_more [OF less.prems False assms(2,3)] obtain f' d
      where d: "read f MAX_BYTES = Some (f', Inr d)" "d \<noteq> []" "rest f = d @ rest f'" "ok f'"
      by blast
    then have "cat_loop read f' (out @ d) = Some ((out @ d) @ rest f', EXIT_SUCCESS)"
      by (intro less.hyps) auto
    with d show ?thesis by (subst cat_loop.simps) simp
  qed
qed

lemma cat_main_prints:
  "ok f \<Longrightarrow> minlen \<le> MAX_BYTES \<Longrightarrow> MAX_BYTES \<le> maxlen \<Longrightarrow>
    cat_main 2 argv0 read (Inr f) = Some (rest f, EXIT_SUCCESS)"
  by (simp add: cat_main_def cat_loop_prints)

end

end
