(* ===== verification/Excl_Open.thy ===== *)
theory Excl_Open
  imports Prelude
begin

text \<open>
  Devices that one process may have open at a time (chardev.c and static_key.c guard their open with
  \<open>atomic_cmpxchg(&already_open, ...)\<close>). The system is the device's state and the set of open file
  descriptors; its steps are opens, which may fail, closes of an open descriptor, and other
  operations. The locale \<open>excl_device\<close> is what the device owes, and gives mutual exclusion.
\<close>

datatype cdev_state = CDEV_NOT_USED | CDEV_EXCLUSIVE_OPEN

inductive excl_reach ::
    "('s \<Rightarrow> ('s \<times> int) option) \<Rightarrow> ('s \<Rightarrow> 's) \<Rightarrow> ('s \<Rightarrow> 's \<Rightarrow> bool) \<Rightarrow> 's \<Rightarrow> 's \<Rightarrow> nat set \<Rightarrow> bool"
  for dopen :: "'s \<Rightarrow> ('s \<times> int) option"
    and release :: "'s \<Rightarrow> 's"
    and other :: "'s \<Rightarrow> 's \<Rightarrow> bool"
    and s0 :: 's
where
  start: "excl_reach dopen release other s0 s0 {}"
| open_ok: "excl_reach dopen release other s0 s H \<Longrightarrow> dopen s = Some (s', 0) \<Longrightarrow> fd \<notin> H \<Longrightarrow>
    excl_reach dopen release other s0 s' (insert fd H)"
| open_fail: "excl_reach dopen release other s0 s H \<Longrightarrow> dopen s = Some (s', e) \<Longrightarrow> e \<noteq> 0 \<Longrightarrow>
    excl_reach dopen release other s0 s' H"
| close: "excl_reach dopen release other s0 s H \<Longrightarrow> fd \<in> H \<Longrightarrow>
    excl_reach dopen release other s0 (release s) (H - {fd})"
| other: "excl_reach dopen release other s0 s H \<Longrightarrow> other s s' \<Longrightarrow>
    excl_reach dopen release other s0 s' H"

locale excl_device =
  fixes dopen :: "'s \<Rightarrow> ('s \<times> int) option"
    and release :: "'s \<Rightarrow> 's"
    and other :: "'s \<Rightarrow> 's \<Rightarrow> bool"
    and s0 :: 's
    and Inv :: "'s \<Rightarrow> bool"
    and busy :: "'s \<Rightarrow> bool"
  assumes init_ok: "Inv s0 \<and> \<not> busy s0"
    and open_free: "Inv s \<Longrightarrow> \<not> busy s \<Longrightarrow> \<exists>s'. dopen s = Some (s', 0) \<and> Inv s' \<and> busy s'"
    and open_busy: "Inv s \<Longrightarrow> busy s \<Longrightarrow> dopen s = Some (s, - EBUSY)"
    and release_ok: "Inv s \<Longrightarrow> Inv (release s) \<and> \<not> busy (release s)"
    and other_ok: "Inv s \<Longrightarrow> other s s' \<Longrightarrow> Inv s' \<and> (busy s' \<longleftrightarrow> busy s)"
begin

text \<open>The descriptors and the flag agree, and there is at most one descriptor.\<close>

lemma excl_inv:
  assumes "excl_reach dopen release other s0 s H"
  shows "Inv s \<and> (busy s \<longleftrightarrow> H \<noteq> {}) \<and> (\<forall>p\<in>H. \<forall>q\<in>H. p = q)"
  using assms
proof (induction rule: excl_reach.induct)
  case start
  then show ?case using init_ok by simp
next
  case (open_ok s H s' fd)
  then have "\<not> busy s" using open_busy [of s] by auto
  with open_ok show ?case using open_free [of s] by auto
next
  case (open_fail s H s' e)
  then have "busy s" using open_free [of s] by auto
  with open_fail have "s' = s" using open_busy [of s] by auto
  with open_fail show ?case by simp
next
  case (close s H fd)
  then have "H - {fd} = {}" by auto
  with close release_ok show ?case by simp
next
  case (other s H s')
  then show ?case using other_ok [of s s'] by auto
qed

lemma at_most_one:
  assumes "excl_reach dopen release other s0 s H"
  shows "H = {} \<or> (\<exists>fd. H = {fd})"
proof (cases "H = {}")
  case False
  then obtain fd where "fd \<in> H" by auto
  with excl_inv [OF assms] have "H = {fd}" by auto
  then show ?thesis by simp
qed simp

text \<open>An open succeeds exactly when nobody holds the device, and never fails otherwise than busy.\<close>

lemma open_outcome:
  assumes "excl_reach dopen release other s0 s H"
  shows "(H = {} \<longrightarrow> (\<exists>s'. dopen s = Some (s', 0))) \<and> (H \<noteq> {} \<longrightarrow> dopen s = Some (s, - EBUSY))"
  using excl_inv [OF assms] open_free open_busy by blast

end

end
