(* ===== verification/Vfs.thy ===== *)
theory Vfs
  imports Char_Read
begin

text \<open>
  The tables of function pointers (\<open>struct file_operations\<close>, \<open>struct proc_ops\<close>) through which a module
  joins the file system, and what processes do with its file: any interleaving of opens, reads, writes,
  seeks and closes on any number of open files, and the attempt to unload the module meanwhile. The locale
  \<open>file_device\<close> is what the handlers of a module promise for one call; from it follows, once, that
  no session makes the module access memory outside its own arrays or store outside the caller's buffers.
\<close>

subsection \<open>The tables\<close>

type_synonym 's write_handler = "'s \<Rightarrow> umem \<Rightarrow> nat \<Rightarrow> nat \<Rightarrow> int \<Rightarrow> ('s \<times> int \<times> int) option"

text \<open>
  What keeps a module in place while its file is open: the reference that \<open>.owner = THIS_MODULE\<close> makes
  each open file hold, nothing, or the entry of /proc, whose removal closes the open files and
  makes them fail from then on.
\<close>

datatype file_owner = THIS_MODULE | NO_OWNER | PROC_ENTRY

text \<open>
  The handlers a module may supply. The open handler also takes what its answer depends on besides the
  module's state, as the samples of a sensor.
\<close>

record ('e, 's) file_operations =
  fop_owner :: file_owner
  fop_llseek :: "(int \<Rightarrow> int \<Rightarrow> int \<times> int) option"
  fop_read :: "'s read_handler option"
  fop_write :: "'s write_handler option"
  fop_open :: "('e \<Rightarrow> 's \<Rightarrow> ('s \<times> int) option) option"
  fop_release :: "('s \<Rightarrow> 's \<times> int) option"

text \<open>
  The two seek functions of the kernel that the tables name, for a seek to a position from the start:
  the new offset and the result.
\<close>

definition default_llseek :: "int \<Rightarrow> int \<Rightarrow> int \<times> int" where
  "default_llseek off to = (if to < 0 then (off, - EINVAL) else (to, to))"

definition noop_llseek :: "int \<Rightarrow> int \<Rightarrow> int \<times> int" where
  "noop_llseek off to = (off, off)"

text \<open>What the kernel does where a module has no handler.\<close>

definition no_read :: "'s read_handler" where
  "no_read s m buf n off = Some (s, m, off, - EINVAL)"

definition no_write :: "'s write_handler" where
  "no_write s m buf n off = Some (s, off, - EINVAL)"

definition call_read :: "('e, 's) file_operations \<Rightarrow> 's read_handler" where
  "call_read fops = (case fop_read fops of None \<Rightarrow> no_read | Some h \<Rightarrow> h)"

definition call_write :: "('e, 's) file_operations \<Rightarrow> 's write_handler" where
  "call_write fops = (case fop_write fops of None \<Rightarrow> no_write | Some h \<Rightarrow> h)"

definition call_open :: "('e, 's) file_operations \<Rightarrow> 'e \<Rightarrow> 's \<Rightarrow> ('s \<times> int) option" where
  "call_open fops e s = (case fop_open fops of None \<Rightarrow> Some (s, 0) | Some h \<Rightarrow> h e s)"

definition call_release :: "('e, 's) file_operations \<Rightarrow> 's \<Rightarrow> 's" where
  "call_release fops s = (case fop_release fops of None \<Rightarrow> s | Some h \<Rightarrow> fst (h s))"

definition call_llseek :: "('e, 's) file_operations \<Rightarrow> int \<Rightarrow> int \<Rightarrow> int \<times> int" where
  "call_llseek fops off to = (case fop_llseek fops of None \<Rightarrow> (off, - ESPIPE) | Some h \<Rightarrow> h off to)"

lemmas fop_calls = call_read_def call_write_def call_open_def call_release_def call_llseek_def

subsection \<open>Sessions\<close>

text \<open>
  The module's state, user memory, the open files (a descriptor is an index; \<open>None\<close> is closed, otherwise
  the file's offset) and whether the module is loaded.
\<close>

record 's session =
  ses_dev :: 's
  ses_mem :: umem
  ses_files :: "int option list"
  ses_loaded :: bool

definition session_start :: "'s \<Rightarrow> umem \<Rightarrow> 's session" where
  "session_start s m = \<lparr>ses_dev = s, ses_mem = m, ses_files = [], ses_loaded = True\<rparr>"

text \<open>A call names the descriptor, the address and the length of the buffer, and the position.\<close>

datatype 'e file_call =
    Open 'e
  | Read nat nat nat
  | Write nat nat nat
  | Pread nat nat nat int
  | Pwrite nat nat nat int
  | Seek nat int
  | Close nat
  | Unload

fun open_count :: "int option list \<Rightarrow> nat" where
  "open_count [] = 0"
| "open_count (f # fs) = (if f = None then 0 else 1) + open_count fs"

text \<open>
  A call on a descriptor: \<open>EBADF\<close> if it is not open. A file that outlives its module either has been
  cut off from it (the outcome \<open>gone\<close>) or leads into freed memory (\<open>None\<close>).
\<close>

definition on_file ::
    "('e, 's) file_operations \<Rightarrow> 's session \<Rightarrow> nat \<Rightarrow> 's session \<times> int \<Rightarrow>
      (int \<Rightarrow> ('s session \<times> int) option) \<Rightarrow> ('s session \<times> int) option"
where
  "on_file fops st fd gone k =
     (if fd < length (ses_files st)
      then (case ses_files st ! fd of
              None \<Rightarrow> Some (st, - EBADF)
            | Some off \<Rightarrow>
                if ses_loaded st then k off
                else if fop_owner fops = PROC_ENTRY then Some gone else None)
      else Some (st, - EBADF))"

definition set_file :: "'s session \<Rightarrow> nat \<Rightarrow> int option \<Rightarrow> 's session" where
  "set_file st fd f = st\<lparr>ses_files := (ses_files st)[fd := f]\<rparr>"

text \<open>The offset of the file is set to the handler's unless the handler returns an error.\<close>

definition set_pos :: "'s session \<Rightarrow> nat \<Rightarrow> int \<Rightarrow> int \<Rightarrow> 's session" where
  "set_pos st fd off ret = (if ret < 0 then st else set_file st fd (Some off))"

definition read_at ::
    "('e, 's) file_operations \<Rightarrow> 's session \<Rightarrow> nat \<Rightarrow> nat \<Rightarrow> int \<Rightarrow> ('s session \<times> int \<times> int) option"
where
  "read_at fops st buf n off =
     map_option (\<lambda>(s, m, off, ret). (st\<lparr>ses_dev := s, ses_mem := m\<rparr>, off, ret))
       (call_read fops (ses_dev st) (ses_mem st) buf n off)"

definition write_at ::
    "('e, 's) file_operations \<Rightarrow> 's session \<Rightarrow> nat \<Rightarrow> nat \<Rightarrow> int \<Rightarrow> ('s session \<times> int \<times> int) option"
where
  "write_at fops st buf n off =
     map_option (\<lambda>(s, off, ret). (st\<lparr>ses_dev := s\<rparr>, off, ret))
       (call_write fops (ses_dev st) (ses_mem st) buf n off)"

text \<open>
  \<open>pread\<close> and \<open>pwrite\<close> give the handler a position of their own, and leave the file's where it is. The
  module cannot be unloaded while a reference to it is held (\<open>EAGAIN\<close>); the removal of a /proc
  entry calls the release handler for every open file.
\<close>

fun vfs_call :: "('e, 's) file_operations \<Rightarrow> 'e file_call \<Rightarrow> 's session \<Rightarrow> ('s session \<times> int) option" where
  "vfs_call fops (Open e) st =
     (if \<not> ses_loaded st then Some (st, - ENOENT)
      else (case call_open fops e (ses_dev st) of
              None \<Rightarrow> None
            | Some (s, ret) \<Rightarrow>
                if ret = 0
                then Some (st\<lparr>ses_dev := s, ses_files := ses_files st @ [Some 0]\<rparr>, int (length (ses_files st)))
                else Some (st\<lparr>ses_dev := s\<rparr>, ret)))"
| "vfs_call fops (Read fd buf n) st =
     on_file fops st fd (st, - EIO)
       (\<lambda>off. map_option (\<lambda>(st, off, ret). (set_pos st fd off ret, ret)) (read_at fops st buf n off))"
| "vfs_call fops (Write fd buf n) st =
     on_file fops st fd (st, - EIO)
       (\<lambda>off. map_option (\<lambda>(st, off, ret). (set_pos st fd off ret, ret)) (write_at fops st buf n off))"
| "vfs_call fops (Pread fd buf n pos) st =
     (if pos < 0 then Some (st, - EINVAL)
      else on_file fops st fd (st, - EIO)
             (\<lambda>_. map_option (\<lambda>(st, off, ret). (st, ret)) (read_at fops st buf n pos)))"
| "vfs_call fops (Pwrite fd buf n pos) st =
     (if pos < 0 then Some (st, - EINVAL)
      else on_file fops st fd (st, - EIO)
             (\<lambda>_. map_option (\<lambda>(st, off, ret). (st, ret)) (write_at fops st buf n pos)))"
| "vfs_call fops (Seek fd to) st =
     on_file fops st fd (st, - EIO)
       (\<lambda>off. Some (set_file st fd (Some (fst (call_llseek fops off to))), snd (call_llseek fops off to)))"
| "vfs_call fops (Close fd) st =
     on_file fops st fd (set_file st fd None, 0)
       (\<lambda>_. Some ((set_file st fd None)\<lparr>ses_dev := call_release fops (ses_dev st)\<rparr>, 0))"
| "vfs_call fops Unload st =
     (if \<not> ses_loaded st then Some (st, - ENOENT)
      else (case fop_owner fops of
              THIS_MODULE \<Rightarrow>
                if open_count (ses_files st) \<noteq> 0 then Some (st, - EAGAIN)
                else Some (st\<lparr>ses_loaded := False\<rparr>, 0)
            | NO_OWNER \<Rightarrow> Some (st\<lparr>ses_loaded := False\<rparr>, 0)
            | PROC_ENTRY \<Rightarrow>
                Some (st\<lparr>ses_dev := (call_release fops ^^ open_count (ses_files st)) (ses_dev st),
                  ses_loaded := False\<rparr>, 0)))"

fun vfs_run :: "('e, 's) file_operations \<Rightarrow> 'e file_call list \<Rightarrow> 's session \<Rightarrow> ('s session \<times> int list) option" where
  "vfs_run fops [] st = Some (st, [])"
| "vfs_run fops (c # cs) st =
     (case vfs_call fops c st of
        None \<Rightarrow> None
      | Some (st, ret) \<Rightarrow> map_option (\<lambda>(st, rets). (st, ret # rets)) (vfs_run fops cs st))"

subsection \<open>Safety\<close>

text \<open>The memory changed at most in \<open>[buf, buf + n)\<close>, and what is mapped stayed mapped.\<close>

definition confined :: "umem \<Rightarrow> umem \<Rightarrow> nat \<Rightarrow> nat \<Rightarrow> bool" where
  "confined m m' buf n \<longleftrightarrow> dom m' = dom m \<and> (\<forall>a. a < buf \<or> buf + n \<le> a \<longrightarrow> m' a = m a)"

text \<open>The addresses that a call may store to, and the values it may return.\<close>

fun call_stores :: "'e file_call \<Rightarrow> nat set" where
  "call_stores (Read fd buf n) = {buf..<buf + n}"
| "call_stores (Pread fd buf n pos) = {buf..<buf + n}"
| "call_stores c = {}"

fun call_returns :: "'e file_call \<Rightarrow> int \<Rightarrow> bool" where
  "call_returns (Read fd buf n) ret \<longleftrightarrow> ret \<le> int n"
| "call_returns (Pread fd buf n pos) ret \<longleftrightarrow> ret \<le> int n"
| "call_returns (Write fd buf n) ret \<longleftrightarrow> ret \<le> int n"
| "call_returns (Pwrite fd buf n pos) ret \<longleftrightarrow> ret \<le> int n"
| "call_returns (Close fd) ret \<longleftrightarrow> ret \<le> 0"
| "call_returns Unload ret \<longleftrightarrow> ret \<le> 0"
| "call_returns c ret \<longleftrightarrow> True"

text \<open>
  The calls a device is safe under: those with a position of their own if it is for every position, and
  unloading if open files are kept from using the unloaded module.
\<close>

fun call_allowed :: "bool \<Rightarrow> file_owner \<Rightarrow> 'e file_call \<Rightarrow> bool" where
  "call_allowed any_pos owner (Pread fd buf n pos) \<longleftrightarrow> any_pos"
| "call_allowed any_pos owner (Pwrite fd buf n pos) \<longleftrightarrow> any_pos"
| "call_allowed any_pos owner Unload \<longleftrightarrow> owner \<noteq> NO_OWNER"
| "call_allowed any_pos owner c \<longleftrightarrow> True"

text \<open>
  Whatever calls of these are made after loading the module: every one returns, with a value in
  its bounds, and user memory changes only inside the buffers given to reads.
\<close>

definition file_safe :: "bool \<Rightarrow> ('e, 's) file_operations \<Rightarrow> 's \<Rightarrow> bool" where
  "file_safe any_pos fops s0 \<longleftrightarrow>
     (\<forall>m cs. list_all (call_allowed any_pos (fop_owner fops)) cs \<longrightarrow> (\<exists>st rets.
        vfs_run fops cs (session_start s0 m) = Some (st, rets) \<and> dom (ses_mem st) = dom m \<and>
        (\<forall>a. a \<notin> \<Union> (call_stores ` set cs) \<longrightarrow> ses_mem st a = m a) \<and> list_all2 call_returns cs rets))"

subsection \<open>The contract\<close>

text \<open>What the read and write handlers promise for one call at an offset that is good for the state.\<close>

locale io_device =
  fixes r :: "'s read_handler" and w :: "'s write_handler"
    and Inv :: "'s \<Rightarrow> bool" and offs :: "int \<Rightarrow> 's \<Rightarrow> bool"
  assumes read_call: "Inv s \<Longrightarrow> offs off s \<Longrightarrow> \<exists>s' m' off' ret. r s m buf n off = Some (s', m', off', ret) \<and>
      Inv s' \<and> offs off' s' \<and> confined m m' buf n \<and> ret \<le> int n"
    and write_call: "Inv s \<Longrightarrow> offs off s \<Longrightarrow> \<exists>s' off' ret. w s m buf n off = Some (s', off', ret) \<and>
      Inv s' \<and> offs off' s' \<and> ret \<le> int n"
    and offs_0: "Inv s \<Longrightarrow> offs 0 s"

text \<open>
  What the whole table promises. \<open>opens n s\<close> says that the state agrees with \<open>n\<close> open files; no call on
  one of them spoils the offset of another.
\<close>

locale file_device = io_device "call_read fops" "call_write fops" Inv offs
    for fops :: "('e, 's) file_operations" and Inv :: "'s \<Rightarrow> bool" and offs :: "int \<Rightarrow> 's \<Rightarrow> bool" +
  fixes opens :: "nat \<Rightarrow> 's \<Rightarrow> bool" and any_pos :: bool and s0 :: 's
  assumes start_call: "Inv s0 \<and> opens 0 s0"
    and open_call: "Inv s \<Longrightarrow> opens k s \<Longrightarrow> \<exists>s' ret. call_open fops e s = Some (s', ret) \<and> Inv s' \<and>
      opens (if ret = 0 then Suc k else k) s' \<and> (0 < k \<longrightarrow> (\<forall>p. offs p s \<longrightarrow> offs p s'))"
    and release_call: "Inv s \<Longrightarrow> opens (Suc k) s \<Longrightarrow> Inv (call_release fops s) \<and> opens k (call_release fops s) \<and>
      (\<forall>p. offs p s \<longrightarrow> offs p (call_release fops s))"
    and seek_call: "offs off s \<Longrightarrow> offs (fst (call_llseek fops off to)) s"
    and read_others: "Inv s \<Longrightarrow> offs off s \<Longrightarrow> call_read fops s m buf n off = Some (s', m', off', ret) \<Longrightarrow>
      (opens k s \<longrightarrow> opens k s') \<and> (offs p s \<longrightarrow> offs p s')"
    and write_others: "Inv s \<Longrightarrow> offs off s \<Longrightarrow> call_write fops s m buf n off = Some (s', off', ret) \<Longrightarrow>
      (opens k s \<longrightarrow> opens k s') \<and> (offs p s \<longrightarrow> offs p s')"
    and position: "any_pos \<Longrightarrow> Inv s \<Longrightarrow> 0 \<le> pos \<Longrightarrow> offs pos s"

subsection \<open>What the copying functions touch\<close>

lemma confined_refl [simp]: "confined m m buf n"
  by (simp add: confined_def)

lemma confined_mono: "confined m m' buf k \<Longrightarrow> k \<le> n \<Longrightarrow> confined m m' buf n"
  by (auto simp: confined_def)

lemma confined_step:
  "confined (fst (put_user c buf m)) m' (Suc buf) n \<Longrightarrow> confined m m' buf (Suc n)"
  by (auto simp: confined_def put_user_def split: if_splits)

text \<open>The loop stops at a NUL, wherever in the message it starts.\<close>

lemma copy_out_loop_confined:
  assumes "p \<le> k" and "k < length msg" and "msg ! k = NUL"
  shows "\<exists>m' i. copy_out_loop msg p m buf len br = Some (m', br + i) \<and> i \<le> len \<and> p + i \<le> k \<and>
    confined m m' buf len"
  using assms
proof (induction len arbitrary: p m buf br)
  case 0
  then show ?case by simp
next
  case (Suc len)
  show ?case
  proof (cases "msg ! p = NUL")
    case True
    with Suc.prems show ?thesis by (simp add: rd_def)
  next
    case False
    with Suc.prems have "Suc p \<le> k" by (metis Suc_leI le_neq_implies_less)
    from Suc.IH [OF this Suc.prems(2,3), of "fst (put_user (msg ! p) buf m)" "Suc buf" "Suc br"]
    obtain m' i where "copy_out_loop msg (Suc p) (fst (put_user (msg ! p) buf m)) (Suc buf) len (Suc br) =
        Some (m', Suc br + i)" "i \<le> len" "Suc p + i \<le> k"
      "confined (fst (put_user (msg ! p) buf m)) m' (Suc buf) len" by blast
    with False Suc.prems show ?thesis
      by (auto simp: rd_def intro!: exI [of _ "Suc i"] confined_step)
  qed
qed

lemma device_read_body_safe:
  assumes "0 \<le> off" and "nat off \<le> k" and "k < length msg" and "msg ! k = NUL"
  shows "\<exists>m' off' ret. device_read_body msg m buf n off = Some (m', off', ret) \<and> 0 \<le> off' \<and>
    nat off' \<le> k \<and> confined m m' buf n \<and> ret \<le> int n"
proof -
  from copy_out_loop_confined [OF assms(2-4), of m buf n 0] obtain m' i where
    "copy_out_loop msg (nat off) m buf n 0 = Some (m', i)" "i \<le> n" "nat off + i \<le> k"
    "confined m m' buf n" by auto
  with assms show ?thesis by (simp add: device_read_body_def rd_def nat_add_distrib)
qed

lemma copy_to_user_confined: "confined m (fst (copy_to_user buf s m)) buf (length s)"
proof (induction buf s m rule: copy_to_user.induct)
  case (2 p c cs m)
  show ?case
  proof (cases "m p = None")
    case False
    then have "fst (put_user c p m) = m(p \<mapsto> c)" by (auto simp: put_user_def)
    with 2 [OF False] have "confined (fst (put_user c p m)) (fst (copy_to_user (Suc p) cs (m(p \<mapsto> c)))) (Suc p)
        (length cs)" by (simp only:)
    with False show ?thesis by (simp add: confined_step)
  qed simp
qed simp

lemma copy_to_user_take:
  "copy_to_user buf (take k xs) m = (m', ret) \<Longrightarrow> k \<le> n \<Longrightarrow> confined m m' buf n"
  using copy_to_user_confined [of m buf "take k xs"] by (auto elim!: confined_mono)

lemma blit_ok: "length bs \<le> length buf \<Longrightarrow> \<exists>buf'. blit buf 0 bs = Some buf' \<and> length buf' = length buf"
  by (auto simp: blit_def)

lemma wr_ok: "0 \<le> i \<Longrightarrow> i < int (length buf) \<Longrightarrow> wr buf i c = Some (buf[nat i := c])"
  by (simp add: wr_def)

subsection \<open>The contract makes every session safe\<close>

lemma open_count_append [simp]: "open_count (fs @ gs) = open_count fs + open_count gs"
  by (induction fs) auto

lemma open_count_update:
  "i < length fs \<Longrightarrow> open_count (fs[i := f]) + (if fs ! i = None then 0 else 1) =
    open_count fs + (if f = None then 0 else 1)"
proof (induction fs arbitrary: i)
  case (Cons g gs)
  then show ?case using Cons.IH [of "i - 1"] by (cases i) simp_all
qed simp

lemma open_count_0: "open_count fs = 0 \<Longrightarrow> i < length fs \<Longrightarrow> fs ! i = None"
  using open_count_update [of i fs None] by (auto split: if_splits)

lemma open_count_keep:
  "i < length fs \<Longrightarrow> fs ! i \<noteq> None \<Longrightarrow> open_count (fs[i := Some off]) = open_count fs"
  using open_count_update [of i fs "Some off"] by (simp del: not_None_eq)

lemma open_count_close:
  "i < length fs \<Longrightarrow> fs ! i \<noteq> None \<Longrightarrow> open_count fs = Suc (open_count (fs[i := None]))"
  using open_count_update [of i fs None] by (simp del: not_None_eq)

lemma set_file_sel [simp]:
  "ses_dev (set_file st fd f) = ses_dev st" "ses_mem (set_file st fd f) = ses_mem st"
  "ses_files (set_file st fd f) = (ses_files st)[fd := f]" "ses_loaded (set_file st fd f) = ses_loaded st"
  by (simp_all add: set_file_def)

lemma set_pos_sel [simp]:
  "ses_dev (set_pos st fd off ret) = ses_dev st" "ses_mem (set_pos st fd off ret) = ses_mem st"
  "ses_loaded (set_pos st fd off ret) = ses_loaded st"
  "ses_files (set_pos st fd off ret) = (if ret < 0 then ses_files st else (ses_files st)[fd := Some off])"
  by (simp_all add: set_pos_def)

context file_device begin

definition ses_ok :: "'s session \<Rightarrow> bool" where
  "ses_ok st \<longleftrightarrow>
     (if ses_loaded st
      then Inv (ses_dev st) \<and> opens (open_count (ses_files st)) (ses_dev st) \<and>
        (\<forall>off. Some off \<in> set (ses_files st) \<longrightarrow> offs off (ses_dev st))
      else fop_owner fops = PROC_ENTRY \<or> open_count (ses_files st) = 0)"

definition call_ok :: "'e file_call \<Rightarrow> 's session \<Rightarrow> ('s session \<times> int) option \<Rightarrow> bool" where
  "call_ok c st res \<longleftrightarrow> (\<exists>st' ret. res = Some (st', ret) \<and> ses_ok st' \<and> dom (ses_mem st') = dom (ses_mem st) \<and>
     (\<forall>a. a \<notin> call_stores c \<longrightarrow> ses_mem st' a = ses_mem st a) \<and> call_returns c ret)"

lemma call_ok_same: "ses_ok st \<Longrightarrow> call_returns c ret \<Longrightarrow> call_ok c st (Some (st, ret))"
  by (simp add: call_ok_def)

text \<open>A call on a descriptor need only be considered for an open file of the loaded module.\<close>

lemma on_file_ok:
  assumes "ses_ok st" and "call_returns c (- EBADF)"
    and "fop_owner fops = PROC_ENTRY \<Longrightarrow> \<not> ses_loaded st \<Longrightarrow> call_ok c st (Some gone)"
    and "\<And>off. ses_loaded st \<Longrightarrow> fd < length (ses_files st) \<Longrightarrow> ses_files st ! fd = Some off \<Longrightarrow>
      Inv (ses_dev st) \<Longrightarrow> offs off (ses_dev st) \<Longrightarrow> call_ok c st (k off)"
  shows "call_ok c st (on_file fops st fd gone k)"
proof (cases "fd < length (ses_files st) \<and> ses_files st ! fd \<noteq> None")
  case False
  with assms(1,2) show ?thesis by (auto simp: on_file_def call_ok_same)
next
  case True
  then obtain off where off: "fd < length (ses_files st)" "ses_files st ! fd = Some off" by auto
  then have mem: "Some off \<in> set (ses_files st)" by (metis nth_mem)
  show ?thesis
  proof (cases "ses_loaded st")
    case True
    with assms(1) mem have "Inv (ses_dev st)" "offs off (ses_dev st)" by (auto simp: ses_ok_def)
    with assms(4) [OF True off] off True show ?thesis by (simp add: on_file_def)
  next
    case False
    have "open_count (ses_files st) \<noteq> 0"
      using open_count_0 [of "ses_files st" fd] off by auto
    with assms(1) False have "fop_owner fops = PROC_ENTRY" by (simp add: ses_ok_def)
    with assms(3) [OF this False] off False show ?thesis by (simp add: on_file_def)
  qed
qed

text \<open>The state after a handler has run, with the file's offset set or left.\<close>

lemma ses_ok_handler:
  assumes "ses_ok st" and "ses_loaded st" and "Inv s'"
    and "\<And>k. opens k (ses_dev st) \<Longrightarrow> opens k s'" and "\<And>p. offs p (ses_dev st) \<Longrightarrow> offs p s'"
    and "fd < length (ses_files st)" and "ses_files st ! fd \<noteq> None" and "offs off s'"
    and "st' = st\<lparr>ses_dev := s', ses_mem := m'\<rparr>"
  shows "ses_ok st'" and "ses_ok (set_file st' fd (Some off))" and "ses_ok (set_pos st' fd off ret)"
proof -
  show st': "ses_ok st'" using assms by (auto simp: ses_ok_def)
  have "\<forall>p. Some p \<in> set ((ses_files st)[fd := Some off]) \<longrightarrow> offs p s'"
    using assms(1,2,5,8) set_update_subset_insert [of "ses_files st" fd "Some off"]
    by (auto simp: ses_ok_def)
  then show "ses_ok (set_file st' fd (Some off))"
    using assms(1-4,6,7,9) by (simp add: ses_ok_def open_count_keep)
  then show "ses_ok (set_pos st' fd off ret)"
    using st' by (simp add: set_pos_def)
qed

lemma read_at_ok:
  assumes "ses_ok st" and "ses_loaded st" and "Inv (ses_dev st)" and "offs off (ses_dev st)"
    and "fd < length (ses_files st)" and "ses_files st ! fd \<noteq> None"
  shows "\<exists>st' off' ret. read_at fops st buf n off = Some (st', off', ret) \<and> ses_ok st' \<and>
    ses_ok (set_pos st' fd off' ret) \<and> confined (ses_mem st) (ses_mem st') buf n \<and> ret \<le> int n"
proof -
  from read_call [OF assms(3,4), of "ses_mem st" buf n] obtain s' m' off' ret where
    r: "call_read fops (ses_dev st) (ses_mem st) buf n off = Some (s', m', off', ret)" "Inv s'" "offs off' s'"
      "confined (ses_mem st) m' buf n" "ret \<le> int n" by blast
  have keep: "opens k (ses_dev st) \<Longrightarrow> opens k s'" "offs p (ses_dev st) \<Longrightarrow> offs p s'" for k p
    using read_others [OF assms(3,4) r(1)] by auto
  note ok = ses_ok_handler [OF assms(1,2) r(2) keep assms(5,6) r(3) refl, of m']
  show ?thesis using r(1,4,5) ok(1,3) by (simp add: read_at_def)
qed

lemma write_at_ok:
  assumes "ses_ok st" and "ses_loaded st" and "Inv (ses_dev st)" and "offs off (ses_dev st)"
    and "fd < length (ses_files st)" and "ses_files st ! fd \<noteq> None"
  shows "\<exists>st' off' ret. write_at fops st buf n off = Some (st', off', ret) \<and> ses_ok st' \<and>
    ses_ok (set_pos st' fd off' ret) \<and> ses_mem st' = ses_mem st \<and> ret \<le> int n"
proof -
  from write_call [OF assms(3,4), of "ses_mem st" buf n] obtain s' off' ret where
    w: "call_write fops (ses_dev st) (ses_mem st) buf n off = Some (s', off', ret)" "Inv s'" "offs off' s'"
      "ret \<le> int n" by blast
  have keep: "opens k (ses_dev st) \<Longrightarrow> opens k s'" "offs p (ses_dev st) \<Longrightarrow> offs p s'" for k p
    using write_others [OF assms(3,4) w(1)] by auto
  have "st\<lparr>ses_dev := s'\<rparr> = st\<lparr>ses_dev := s', ses_mem := ses_mem st\<rparr>" by simp
  note ok = ses_ok_handler [OF assms(1,2) w(2) keep assms(5,6) w(3) this]
  show ?thesis using w(1,4) ok(1,3) by (simp add: write_at_def)
qed

lemma open_ok: "ses_ok st \<Longrightarrow> call_ok (Open e) st (vfs_call fops (Open e) st)"
proof (cases "ses_loaded st")
  case True
  assume st: "ses_ok st"
  let ?k = "open_count (ses_files st)"
  from st True have s: "Inv (ses_dev st)" "opens ?k (ses_dev st)"
    "\<And>off. Some off \<in> set (ses_files st) \<Longrightarrow> offs off (ses_dev st)" by (auto simp: ses_ok_def)
  from open_call [OF s(1,2), of e] obtain s' ret where
    o: "call_open fops e (ses_dev st) = Some (s', ret)" "Inv s'" "opens (if ret = 0 then Suc ?k else ?k) s'"
      "0 < ?k \<longrightarrow> (\<forall>p. offs p (ses_dev st) \<longrightarrow> offs p s')"
    by (elim exE conjE) (rule that)
  have "offs off s'" if "Some off \<in> set (ses_files st)" for off
  proof -
    from that obtain i where "i < length (ses_files st)" "ses_files st ! i = Some off"
      by (auto simp: in_set_conv_nth)
    then have "0 < ?k" using open_count_0 [of "ses_files st" i] by (cases ?k) auto
    then show ?thesis using o(4) s(3) that by blast
  qed
  with o(1-3) True offs_0 [OF o(2)] show ?thesis by (auto simp: call_ok_def ses_ok_def)
qed (simp add: call_ok_same)

lemma close_ok: "ses_ok st \<Longrightarrow> call_ok (Close fd) st (vfs_call fops (Close fd) st)"
  unfolding vfs_call.simps
proof (rule on_file_ok)
  fix off
  assume st: "ses_ok st" "ses_loaded st" and fd: "fd < length (ses_files st)" "ses_files st ! fd = Some off"
  let ?fs = "(ses_files st)[fd := None]"
  have "open_count (ses_files st) = Suc (open_count ?fs)" using open_count_close [OF fd(1)] fd(2) by simp
  then have "Inv (call_release fops (ses_dev st)) \<and> opens (open_count ?fs) (call_release fops (ses_dev st)) \<and>
      (\<forall>p. offs p (ses_dev st) \<longrightarrow> offs p (call_release fops (ses_dev st)))"
    using st by (intro release_call) (simp_all add: ses_ok_def)
  moreover have "Some p \<in> set (ses_files st)" if "Some p \<in> set ?fs" for p
    using that set_update_subset_insert [of "ses_files st" fd None] by auto
  ultimately show "call_ok (Close fd) st
      (Some (set_file st fd None\<lparr>ses_dev := call_release fops (ses_dev st)\<rparr>, 0))"
    using st by (auto simp: call_ok_def ses_ok_def)
qed (auto simp: call_ok_def ses_ok_def)

lemma rmmod_ok:
  "ses_ok st \<Longrightarrow> fop_owner fops \<noteq> NO_OWNER \<Longrightarrow> call_ok Unload st (vfs_call fops Unload st)"
  by (cases "ses_loaded st"; cases "fop_owner fops") (auto simp: call_ok_def ses_ok_def)

lemma seek_ok: "ses_ok st \<Longrightarrow> call_ok (Seek fd to) st (vfs_call fops (Seek fd to) st)"
  unfolding vfs_call.simps
proof (rule on_file_ok)
  fix off
  assume st: "ses_ok st" "ses_loaded st" "Inv (ses_dev st)" "offs off (ses_dev st)"
    and fd: "fd < length (ses_files st)" "ses_files st ! fd = Some off"
  let ?off = "fst (call_llseek fops off to)"
  have "ses_ok (set_file st fd (Some ?off))"
    using ses_ok_handler(2) [OF st(1-3) _ _ fd(1) _ seek_call [OF st(4)], of st "ses_mem st"] fd(2) by simp
  then show "call_ok (Seek fd to) st (Some (set_file st fd (Some ?off), snd (call_llseek fops off to)))"
    by (simp add: call_ok_def)
qed (simp_all add: call_ok_same)

lemma read_ok: "ses_ok st \<Longrightarrow> call_ok (Read fd buf n) st (vfs_call fops (Read fd buf n) st)"
  unfolding vfs_call.simps
proof (rule on_file_ok)
  fix off
  assume st: "ses_ok st" "ses_loaded st" "Inv (ses_dev st)" "offs off (ses_dev st)"
    and fd: "fd < length (ses_files st)" "ses_files st ! fd = Some off"
  from read_at_ok [OF st fd(1), of buf n] fd(2) show "call_ok (Read fd buf n) st
      (map_option (\<lambda>(st, off, ret). (set_pos st fd off ret, ret)) (read_at fops st buf n off))"
    by (auto simp: call_ok_def confined_def)
qed (simp_all add: call_ok_same)

lemma write_ok: "ses_ok st \<Longrightarrow> call_ok (Write fd buf n) st (vfs_call fops (Write fd buf n) st)"
  unfolding vfs_call.simps
proof (rule on_file_ok)
  fix off
  assume st: "ses_ok st" "ses_loaded st" "Inv (ses_dev st)" "offs off (ses_dev st)"
    and fd: "fd < length (ses_files st)" "ses_files st ! fd = Some off"
  from write_at_ok [OF st fd(1), of buf n] fd(2) show "call_ok (Write fd buf n) st
      (map_option (\<lambda>(st, off, ret). (set_pos st fd off ret, ret)) (write_at fops st buf n off))"
    by (auto simp: call_ok_def)
qed (simp_all add: call_ok_same)

lemma pread_ok:
  assumes "ses_ok st" and any_pos
  shows "call_ok (Pread fd buf n pos) st (vfs_call fops (Pread fd buf n pos) st)"
proof (cases "pos < 0")
  case False
  have "call_ok (Pread fd buf n pos) st (on_file fops st fd (st, - EIO)
      (\<lambda>_. map_option (\<lambda>(st, off, ret). (st, ret)) (read_at fops st buf n pos)))"
  proof (rule on_file_ok)
    fix off
    assume st: "ses_loaded st" "Inv (ses_dev st)" and fd: "fd < length (ses_files st)" "ses_files st ! fd = Some off"
    have "offs pos (ses_dev st)" using position [OF assms(2) st(2)] False by simp
    from read_at_ok [OF assms(1) st this fd(1), of buf n] fd(2) show "call_ok (Pread fd buf n pos) st
        (map_option (\<lambda>(st, off, ret). (st, ret)) (read_at fops st buf n pos))"
      by (auto simp: call_ok_def confined_def)
  qed (simp_all add: call_ok_same assms(1))
  with False show ?thesis by simp
qed (simp add: call_ok_same assms(1))

lemma pwrite_ok:
  assumes "ses_ok st" and any_pos
  shows "call_ok (Pwrite fd buf n pos) st (vfs_call fops (Pwrite fd buf n pos) st)"
proof (cases "pos < 0")
  case False
  have "call_ok (Pwrite fd buf n pos) st (on_file fops st fd (st, - EIO)
      (\<lambda>_. map_option (\<lambda>(st, off, ret). (st, ret)) (write_at fops st buf n pos)))"
  proof (rule on_file_ok)
    fix off
    assume st: "ses_loaded st" "Inv (ses_dev st)" and fd: "fd < length (ses_files st)" "ses_files st ! fd = Some off"
    have "offs pos (ses_dev st)" using position [OF assms(2) st(2)] False by simp
    from write_at_ok [OF assms(1) st this fd(1), of buf n] fd(2) show "call_ok (Pwrite fd buf n pos) st
        (map_option (\<lambda>(st, off, ret). (st, ret)) (write_at fops st buf n pos))"
      by (auto simp: call_ok_def)
  qed (simp_all add: call_ok_same assms(1))
  with False show ?thesis by simp
qed (simp add: call_ok_same assms(1))

lemmas every_call_ok = open_ok read_ok write_ok pread_ok pwrite_ok seek_ok close_ok rmmod_ok

lemma vfs_call_ok:
  "ses_ok st \<Longrightarrow> call_allowed any_pos (fop_owner fops) c \<Longrightarrow> call_ok c st (vfs_call fops c st)"
  by (cases c) (simp_all add: every_call_ok del: vfs_call.simps)

lemma run_ok:
  assumes "ses_ok st" and "list_all (call_allowed any_pos (fop_owner fops)) cs"
  shows "\<exists>st' rets. vfs_run fops cs st = Some (st', rets) \<and> dom (ses_mem st') = dom (ses_mem st) \<and>
    (\<forall>a. a \<notin> \<Union> (call_stores ` set cs) \<longrightarrow> ses_mem st' a = ses_mem st a) \<and> list_all2 call_returns cs rets"
  using assms
proof (induction cs arbitrary: st)
  case (Cons c cs)
  from Cons.prems vfs_call_ok obtain st1 ret where
    one: "vfs_call fops c st = Some (st1, ret)" "ses_ok st1" "dom (ses_mem st1) = dom (ses_mem st)"
      "\<forall>a. a \<notin> call_stores c \<longrightarrow> ses_mem st1 a = ses_mem st a" "call_returns c ret"
    unfolding call_ok_def list.pred_inject by meson
  from Cons.IH [OF one(2)] Cons.prems(2) obtain st2 rets where
    rest: "vfs_run fops cs st1 = Some (st2, rets)" "dom (ses_mem st2) = dom (ses_mem st1)"
      "\<forall>a. a \<notin> \<Union> (call_stores ` set cs) \<longrightarrow> ses_mem st2 a = ses_mem st1 a" "list_all2 call_returns cs rets"
    by auto
  have "vfs_run fops (c # cs) st = Some (st2, ret # rets)" using one(1) rest(1) by simp
  moreover have "\<forall>a. a \<notin> \<Union> (call_stores ` set (c # cs)) \<longrightarrow> ses_mem st2 a = ses_mem st a"
    using one(4) rest(3) by simp
  ultimately show ?case using one(3,5) rest(2,4) by auto
qed simp

lemma file_safe: "file_safe any_pos fops s0"
  unfolding file_safe_def
proof (intro allI impI)
  fix m and cs :: "'e file_call list"
  assume "list_all (call_allowed any_pos (fop_owner fops)) cs"
  moreover have "ses_ok (session_start s0 m)" using start_call by (simp add: ses_ok_def session_start_def)
  ultimately show "\<exists>st rets. vfs_run fops cs (session_start s0 m) = Some (st, rets) \<and>
      dom (ses_mem st) = dom m \<and> (\<forall>a. a \<notin> \<Union> (call_stores ` set cs) \<longrightarrow> ses_mem st a = m a) \<and>
      list_all2 call_returns cs rets"
    using run_ok [of "session_start s0 m" cs] by (simp add: session_start_def)
qed

end

end
