(* ===== verification/Chardev.thy ===== *)
theory Chardev
  imports Lifecycle Cat Excl_Open Vfs
begin

text \<open>
  examples/chardev.c: a read-only character device that says how many times it has been opened. One
  process may have it open at a time; each open prepares the message that reads hand out.
\<close>

definition chardev_BUF_LEN :: nat where "chardev_BUF_LEN = 80"

text \<open>
  The module's variables: \<open>already_open\<close>, \<open>msg\<close> and the \<open>counter\<close> that is static in
  \<open>device_open\<close> (a 32-bit int).
\<close>

record chardev =
  cd_already_open :: cdev_state
  cd_msg :: "char list"
  cd_counter :: "32 word"

definition chardev_start :: chardev where
  "chardev_start =
     \<lparr>cd_already_open = CDEV_NOT_USED, cd_msg = zeros (chardev_BUF_LEN + 1), cd_counter = 0\<rparr>"

subsection \<open>Methods\<close>

definition chardev_text :: "32 word \<Rightarrow> string" where
  "chardev_text n = ''I already told you '' @ dec_int (sint n) @ '' times Hello world!'' @ [LF]"

text \<open>\<open>device_open\<close>: \<open>None\<close> if the \<open>sprintf\<close> would overflow \<open>msg\<close>.\<close>

definition chardev_device_open :: "chardev \<Rightarrow> (chardev \<times> int) option" where
  "chardev_device_open s =
     (let (v, old) = atomic_cmpxchg (cd_already_open s) CDEV_NOT_USED CDEV_EXCLUSIVE_OPEN;
          s = s\<lparr>cd_already_open := v\<rparr>
      in if old \<noteq> CDEV_NOT_USED then Some (s, - EBUSY)
         else (case c_sprintf (cd_msg s) (chardev_text (cd_counter s)) of
                 None \<Rightarrow> None
               | Some b \<Rightarrow> Some (s\<lparr>cd_msg := b, cd_counter := cd_counter s + 1\<rparr>, 0)))"

definition chardev_device_release :: "chardev \<Rightarrow> chardev" where
  "chardev_device_release s = s\<lparr>cd_already_open := CDEV_NOT_USED\<rparr>"

definition chardev_device_read :: "chardev read_handler" where
  "chardev_device_read s m buffer len off =
     map_option (\<lambda>(m', off', ret). (s, m', off', ret)) (device_read_body (cd_msg s) m buffer len off)"

definition chardev_device_write :: "chardev \<Rightarrow> chardev \<times> int" where
  "chardev_device_write s = (s, - EINVAL)"

subsection \<open>Loading and unloading\<close>

text \<open>
  The answers of the kernel: the return value of \<open>register_chrdev\<close>, the pointer returned by
  \<open>class_create\<close>, and whether \<open>device_create\<close> (whose result is ignored) made the node.
\<close>

record chardev_env =
  reg_major :: int
  class_ptr :: "unit err_ptr"
  device_made :: bool

definition chardev_init :: "chardev_env \<Rightarrow> int \<times> kop list" where
  "chardev_init e =
     (let major = reg_major e
      in if major < 0 then (major, [])
         else (case class_ptr e of
                 ERR_PTR err \<Rightarrow>
                   (err, [Acquire (Chrdev ''chardev''), Release (Chrdev ''chardev'')])
               | Ptr _ \<Rightarrow>
                   (0, [Acquire (Chrdev ''chardev''), Acquire (Class ''chardev'')]
                       @ (if device_made e then [Acquire (Device ''chardev'')] else []))))"

definition chardev_exit :: "chardev_env \<Rightarrow> kop list" where
  "chardev_exit e =
     [Drop (Device ''chardev''), Release (Class ''chardev''), Release (Chrdev ''chardev'')]"

definition chardev_owned :: "chardev_env \<Rightarrow> resource set" where
  "chardev_owned e =
     {Chrdev ''chardev'', Class ''chardev''}
     \<union> (if device_made e then {Device ''chardev''} else {})"

definition chardev_env_ok :: "chardev_env \<Rightarrow> bool" where
  "chardev_env_ok e = err_ptr_ok (class_ptr e)"

interpretation chardev_mod: module_lifecycle chardev_init chardev_exit chardev_owned chardev_env_ok
  by unfold_locales
    (auto simp: chardev_init_def chardev_exit_def chardev_owned_def chardev_env_ok_def err_ptr_ok_def
      Let_def split: if_splits err_ptr.splits)

subsection \<open>The message buffer\<close>

definition chardev_inv :: "chardev \<Rightarrow> bool" where
  "chardev_inv s \<longleftrightarrow> length (cd_msg s) = chardev_BUF_LEN + 1 \<and> terminated (cd_msg s)"

definition chardev_content :: "chardev \<Rightarrow> string" where
  "chardev_content s = cstr (cd_msg s)"

lemma sint32_bound: "\<bar>sint (n :: 32 word)\<bar> < 10 ^ 10"
  using sint_range_size [of n] by (auto simp: word_size abs_if)

lemma length_chardev_text: "length (chardev_text n) \<le> chardev_BUF_LEN"
  using length_dec_int [OF sint32_bound [of n]] by (simp add: chardev_text_def chardev_BUF_LEN_def)

lemma chardev_text_no_nul [simp]: "NUL \<notin> set (chardev_text n)"
  by (simp add: chardev_text_def)

lemma chardev_open_free:
  assumes "chardev_inv s" and "cd_already_open s = CDEV_NOT_USED"
  shows "\<exists>s'. chardev_device_open s = Some (s', 0) \<and> chardev_inv s' \<and>
    cd_already_open s' = CDEV_EXCLUSIVE_OPEN \<and> cd_counter s' = cd_counter s + 1 \<and>
    chardev_content s' = chardev_text (cd_counter s)"
proof -
  have "length (chardev_text (cd_counter s)) < length (cd_msg s)"
    using assms length_chardev_text [of "cd_counter s"] by (simp add: chardev_inv_def)
  note sprintf = c_sprintf_Some [OF this]
  show ?thesis
    using assms length_chardev_text [of "cd_counter s"]
    by (simp add: chardev_device_open_def sprintf Let_def chardev_inv_def chardev_content_def)
qed

lemma chardev_open_busy:
  "cd_already_open s \<noteq> CDEV_NOT_USED \<Longrightarrow> chardev_device_open s = Some (s, - EBUSY)"
  by (simp add: chardev_device_open_def)

interpretation chardev_excl: excl_device chardev_device_open chardev_device_release "\<lambda>_ _. False"
    chardev_start chardev_inv "\<lambda>s. cd_already_open s \<noteq> CDEV_NOT_USED"
proof unfold_locales
  show "chardev_inv chardev_start \<and> \<not> cd_already_open chardev_start \<noteq> CDEV_NOT_USED"
    by (simp add: chardev_inv_def chardev_start_def)
next
  fix s
  assume "chardev_inv s" and "\<not> cd_already_open s \<noteq> CDEV_NOT_USED"
  then show "\<exists>s'. chardev_device_open s = Some (s', 0) \<and> chardev_inv s' \<and>
      cd_already_open s' \<noteq> CDEV_NOT_USED"
    using chardev_open_free [of s] by auto
qed (simp_all add: chardev_open_busy chardev_inv_def chardev_device_release_def)

interpretation chardev_reader: msg_reader chardev_device_read chardev_content chardev_inv
  by unfold_locales
    (simp_all add: chardev_device_read_def chardev_content_def chardev_inv_def Let_def
      device_read_body_more device_read_body_end)

subsection \<open>The file\<close>

text \<open>\<open>chardev_fops\<close>: no owner, so nothing keeps the module loaded while its file is open.\<close>

definition chardev_fops :: "(unit, chardev) file_operations" where
  "chardev_fops =
     \<lparr>fop_owner = NO_OWNER, fop_llseek = None, fop_read = Some chardev_device_read,
      fop_write = Some (\<lambda>s m buf n off. case chardev_device_write s of (s, ret) \<Rightarrow> Some (s, off, ret)),
      fop_open = Some (\<lambda>_. chardev_device_open), fop_release = Some (\<lambda>s. (chardev_device_release s, 0))\<rparr>"

lemma chardev_calls [simp]:
  "call_read chardev_fops = chardev_device_read"
  "call_write chardev_fops = (\<lambda>s m buf n off. case chardev_device_write s of (s, ret) \<Rightarrow> Some (s, off, ret))"
  by (simp_all add: chardev_fops_def fop_calls)

interpretation chardev_io: io_device chardev_device_read
    "\<lambda>s m buf n off. case chardev_device_write s of (s, ret) \<Rightarrow> Some (s, off, ret)"
    chardev_inv "\<lambda>off s. 0 \<le> off \<and> nat off \<le> length (cstr (cd_msg s))"
proof unfold_locales
  fix s m buf n and off :: int
  assume s: "chardev_inv s" and off: "0 \<le> off \<and> nat off \<le> length (cstr (cd_msg s))"
  then have "terminated (cd_msg s)" by (simp add: chardev_inv_def)
  note nul = length_cstr_less [OF this] nth_length_cstr [OF this]
  from off nul device_read_body_safe [of off "length (cstr (cd_msg s))" "cd_msg s" m buf n] s
  show "\<exists>s' m' off' ret. chardev_device_read s m buf n off = Some (s', m', off', ret) \<and> chardev_inv s' \<and>
      (0 \<le> off' \<and> nat off' \<le> length (cstr (cd_msg s'))) \<and> confined m m' buf n \<and> ret \<le> int n"
    by (auto simp: chardev_device_read_def)
qed (auto simp: chardev_device_write_def)

interpretation chardev_file: file_device chardev_fops
    chardev_inv "\<lambda>off s. 0 \<le> off \<and> nat off \<le> length (cstr (cd_msg s))"
    "\<lambda>k s. k = (if cd_already_open s = CDEV_NOT_USED then 0 else 1)" False chardev_start
proof (rule file_device.intro, simp only: chardev_calls, rule chardev_io.io_device_axioms, unfold_locales)
  fix s :: chardev and k and e :: unit
  assume s: "chardev_inv s" and k: "k = (if cd_already_open s = CDEV_NOT_USED then 0 else (1 :: nat))"
  from s show "\<exists>s' ret. call_open chardev_fops e s = Some (s', ret) \<and> chardev_inv s' \<and>
      (if ret = 0 then Suc k else k) = (if cd_already_open s' = CDEV_NOT_USED then 0 else 1) \<and>
      (0 < k \<longrightarrow> (\<forall>p. 0 \<le> p \<and> nat p \<le> length (cstr (cd_msg s)) \<longrightarrow> 0 \<le> p \<and> nat p \<le> length (cstr (cd_msg s'))))"
  proof (cases "cd_already_open s = CDEV_NOT_USED")
    case True
    with s obtain s' where s': "chardev_device_open s = Some (s', 0)" "chardev_inv s'"
      "cd_already_open s' = CDEV_EXCLUSIVE_OPEN" using chardev_open_free by blast
    with k True show ?thesis
      by (intro exI [of _ s'] exI [of _ 0]) (simp add: chardev_fops_def fop_calls)
  qed (auto simp: chardev_fops_def fop_calls chardev_open_busy k)
qed (auto simp: chardev_fops_def fop_calls chardev_inv_def chardev_start_def chardev_device_release_def
  chardev_device_read_def chardev_device_write_def split: if_splits)

subsection \<open>Histories of the device\<close>

text \<open>
  What processes did with the file so far: opens with what they returned, reads and writes of an open
  descriptor with what they returned, and closes. \<open>chardev_ran es s H\<close>: the history \<open>es\<close> leads from
  the state at loading to \<open>s\<close>, with the descriptors \<open>H\<close> open.
\<close>

datatype chardev_event = Opened int | Did_Read int | Did_Write int | Closed

inductive chardev_ran :: "chardev_event list \<Rightarrow> chardev \<Rightarrow> nat set \<Rightarrow> bool" where
  loaded: "chardev_ran [] chardev_start {}"
| opened: "chardev_ran es s H \<Longrightarrow> chardev_device_open s = Some (s', ret) \<Longrightarrow> fd \<notin> H \<Longrightarrow>
    chardev_ran (es @ [Opened ret]) s' (if ret = 0 then insert fd H else H)"
| did_read: "chardev_ran es s H \<Longrightarrow> fd \<in> H \<Longrightarrow>
    chardev_device_read s m buf n off = Some (s', m', off', ret) \<Longrightarrow>
    chardev_ran (es @ [Did_Read ret]) s' H"
| did_write: "chardev_ran es s H \<Longrightarrow> fd \<in> H \<Longrightarrow> chardev_device_write s = (s', ret) \<Longrightarrow>
    chardev_ran (es @ [Did_Write ret]) s' H"
| closed: "chardev_ran es s H \<Longrightarrow> fd \<in> H \<Longrightarrow>
    chardev_ran (es @ [Closed]) (chardev_device_release s) (H - {fd})"

text \<open>How many opens of a history succeeded.\<close>

definition opens :: "chardev_event list \<Rightarrow> nat" where
  "opens es = count_list es (Opened 0)"

lemma opens_simps [simp]:
  "opens [] = 0"
  "opens (es @ [Opened ret]) = (if ret = 0 then Suc (opens es) else opens es)"
  "opens (es @ [Did_Read ret]) = opens es" "opens (es @ [Did_Write ret]) = opens es"
  "opens (es @ [Closed]) = opens es"
  by (simp_all add: opens_def)

lemma chardev_read_state: "chardev_device_read s m buf n off = Some (s', r) \<Longrightarrow> s' = s"
  by (auto simp: chardev_device_read_def)

lemma chardev_ran_reach:
  assumes "chardev_ran es s H"
  shows "excl_reach chardev_device_open chardev_device_release (\<lambda>_ _. False) chardev_start s H"
  using assms
proof (induction rule: chardev_ran.induct)
  case (opened es s H s' ret fd)
  then show ?case
    using excl_reach.open_ok [OF opened.IH] excl_reach.open_fail [OF opened.IH] by auto
next
  case (did_read es s H fd m buf n off s' m' off' ret)
  then show ?case using chardev_read_state by blast
qed (auto simp: chardev_device_write_def intro: excl_reach.intros)

text \<open>The counter holds the number of successful opens, as a 32-bit integer.\<close>

lemma chardev_counts:
  assumes "chardev_ran es s H"
  shows "cd_counter s = of_nat (opens es)"
  using assms
proof (induction rule: chardev_ran.induct)
  case (did_read es s H fd m buf n off s' m' off' ret)
  then show ?case using chardev_read_state by (metis opens_simps(3))
qed (auto simp: chardev_start_def chardev_device_open_def chardev_device_write_def
    chardev_device_release_def Let_def split: if_splits option.splits prod.splits)

lemma sint_of_small_nat: "n < 2 ^ 31 \<Longrightarrow> sint (of_nat n :: 32 word) = int n"
  by (simp add: signed_of_nat signed_take_bit_int_eq_self)

subsection \<open>Properties\<close>

text \<open>
  C32: at any time at most one file descriptor of the device is open, the flag says whether one is, and
  an open succeeds exactly when none is; otherwise it returns \<open>EBUSY\<close> and changes nothing. This holds
  after any sequence of opens and closes.
\<close>

theorem chardev_exclusive:
  assumes "excl_reach chardev_device_open chardev_device_release (\<lambda>_ _. False) chardev_start s H"
  shows "(H = {} \<or> (\<exists>fd. H = {fd})) \<and> (cd_already_open s = CDEV_EXCLUSIVE_OPEN \<longleftrightarrow> H \<noteq> {}) \<and>
    (if H = {} then \<exists>s'. chardev_device_open s = Some (s', 0)
     else chardev_device_open s = Some (s, - EBUSY))"
proof -
  have "cd_already_open s = CDEV_EXCLUSIVE_OPEN \<longleftrightarrow> H \<noteq> {}"
    using chardev_excl.excl_inv [OF assms] by (cases "cd_already_open s") auto
  then show ?thesis
    using chardev_excl.at_most_one [OF assms] chardev_excl.open_outcome [OF assms] by auto
qed

lemma chardev_reach_open:
  "\<exists>s. excl_reach chardev_device_open chardev_device_release (\<lambda>_ _. False) chardev_start s {3}"
proof -
  have "chardev_inv chardev_start" "cd_already_open chardev_start = CDEV_NOT_USED"
    by (simp_all add: chardev_inv_def chardev_start_def)
  then obtain s' where "chardev_device_open chardev_start = Some (s', 0)"
    using chardev_open_free by blast
  then show ?thesis
    using excl_reach.open_ok [OF excl_reach.start, of chardev_device_open chardev_start s' 3]
    by auto
qed

theorem chardev_exclusive_witness:
  "\<exists>s. cd_already_open s = CDEV_EXCLUSIVE_OPEN \<and> chardev_device_open s = Some (s, - EBUSY)"
proof -
  from chardev_reach_open obtain s where
    "excl_reach chardev_device_open chardev_device_release (\<lambda>_ _. False) chardev_start s {3}" ..
  from chardev_exclusive [OF this] show ?thesis by (intro exI [of _ s]) simp
qed

text \<open>
  No sequence of loading and unloading the module, whatever the kernel's answers, leaks a device
  number, class or node, or releases one twice; after each event the module holds exactly what it
  should.
\<close>

theorem chardev_no_leak:
  assumes "envs_ok chardev_env_ok evs"
  shows "\<exists>st. mod_run chardev_init chardev_exit (None, {}) evs = Some st \<and> accounted chardev_owned st"
  using assms by (rule chardev_mod.no_leak)

theorem chardev_no_leak_witness:
  "\<exists>st. mod_run chardev_init chardev_exit (None, {})
      [Insmod \<lparr>reg_major = 240, class_ptr = ERR_PTR (- 12), device_made = False\<rparr>,
       Insmod \<lparr>reg_major = 240, class_ptr = Ptr (), device_made = True\<rparr>, Rmmod] = Some st \<and>
    accounted chardev_owned st"
  by (rule chardev_no_leak) (simp add: envs_ok_def chardev_env_ok_def err_ptr_ok_def)

end
