(* ===== verification/Chardev2.thy ===== *)
theory Chardev2
  imports Lifecycle Cat Excl_Open Vfs
begin

text \<open>
  examples/chardev2.c and the command numbers of examples/chardev.h: a character device whose message
  is read and written through read, write and three ioctl commands. Only the ioctl takes the
  \<open>already_open\<close> flag, for the length of the call.
\<close>

definition chardev2_BUF_LEN :: nat where "chardev2_BUF_LEN = 80"

record chardev2 =
  c2_already_open :: cdev_state
  c2_message :: "char list"

definition chardev2_start :: chardev2 where
  "chardev2_start =
     \<lparr>c2_already_open = CDEV_NOT_USED, c2_message = zeros (chardev2_BUF_LEN + 1)\<rparr>"

text \<open>The command numbers of chardev.h, and any other number a process may pass.\<close>

datatype chardev_cmd = IOCTL_SET_MSG | IOCTL_GET_MSG | IOCTL_GET_NTH_BYTE | OTHER_CMD nat

subsection \<open>Methods\<close>

text \<open>\<open>device_open\<close> and \<open>device_release\<close> only log.\<close>

definition chardev2_device_open :: "chardev2 \<Rightarrow> chardev2 \<times> int" where
  "chardev2_device_open s = (s, 0)"

definition chardev2_device_release :: "chardev2 \<Rightarrow> chardev2 \<times> int" where
  "chardev2_device_release s = (s, 0)"

definition chardev2_device_read :: "chardev2 read_handler" where
  "chardev2_device_read s m buffer len off =
     map_option (\<lambda>(m', off', ret). (s, m', off', ret))
       (device_read_body (c2_message s) m buffer len off)"

definition chardev2_device_write :: "chardev2 \<Rightarrow> umem \<Rightarrow> nat \<Rightarrow> nat \<Rightarrow> (chardev2 \<times> int) option" where
  "chardev2_device_write s m buffer len =
     (case copy_in_loop chardev2_BUF_LEN (c2_message s) m buffer len 0 of
        None \<Rightarrow> None
      | Some (message', i) \<Rightarrow> Some (s\<lparr>c2_message := message'\<rparr>, int i))"

text \<open>
  The length scan of \<open>IOCTL_SET_MSG\<close>:
  \<open>get_user(ch, tmp); for (i = 0; ch && i < BUF_LEN; i++, tmp++) get_user(ch, tmp);\<close>
  from the state of \<open>tmp\<close>, \<open>ch\<close> and \<open>i\<close>.
\<close>

function set_msg_scan :: "umem \<Rightarrow> nat \<Rightarrow> char \<Rightarrow> nat \<Rightarrow> nat" where
  "set_msg_scan m tmp ch i =
     (if ch \<noteq> NUL \<and> i < chardev2_BUF_LEN
      then set_msg_scan m (Suc tmp) (fst (get_user tmp m)) (Suc i)
      else i)"
  by pat_completeness auto
termination
  by (relation "measure (\<lambda>(m, tmp, ch, i). chardev2_BUF_LEN - i)") auto

declare set_msg_scan.simps [simp del]

text \<open>The value of a (signed) \<open>char\<close> converted to \<open>long\<close>.\<close>

definition char_long :: "char \<Rightarrow> int" where
  "char_long c = (let n = int (of_char c) in if n < 128 then n else n - 256)"

text \<open>
  \<open>device_ioctl\<close>: the state, user memory and return value; \<open>None\<close> when \<open>message[ioctl_param]\<close> is
  outside the array. Unknown commands fall through the switch and return 0.
\<close>

definition chardev2_device_ioctl ::
    "chardev2 \<Rightarrow> umem \<Rightarrow> chardev_cmd \<Rightarrow> nat \<Rightarrow> (chardev2 \<times> umem \<times> int) option" where
  "chardev2_device_ioctl s m cmd param =
     (let (v, old) = atomic_cmpxchg (c2_already_open s) CDEV_NOT_USED CDEV_EXCLUSIVE_OPEN;
          s = s\<lparr>c2_already_open := v\<rparr>
      in if old \<noteq> CDEV_NOT_USED then Some (s, m, - EBUSY)
         else map_option (\<lambda>(s', m', ret). (s'\<lparr>c2_already_open := CDEV_NOT_USED\<rparr>, m', ret))
           (case cmd of
              IOCTL_SET_MSG \<Rightarrow>
                (let i = set_msg_scan m param (fst (get_user param m)) 0
                 in map_option (\<lambda>(s', _). (s', m, 0)) (chardev2_device_write s m param i))
            | IOCTL_GET_MSG \<Rightarrow>
                (case chardev2_device_read s m param 99 0 of
                   None \<Rightarrow> None
                 | Some (s', m', _, i) \<Rightarrow> Some (s', fst (put_user NUL (param + nat i) m'), 0))
            | IOCTL_GET_NTH_BYTE \<Rightarrow>
                map_option (\<lambda>c. (s, m, char_long c)) (rd (c2_message s) (int param))
            | OTHER_CMD _ \<Rightarrow> Some (s, m, 0)))"

subsection \<open>Loading and unloading\<close>

record chardev2_env =
  c2_reg_ret :: int
  c2_class_ptr :: "unit err_ptr"
  c2_device_made :: bool

definition chardev2_init :: "chardev2_env \<Rightarrow> int \<times> kop list" where
  "chardev2_init e =
     (let ret_val = c2_reg_ret e
      in if ret_val < 0 then (ret_val, [])
         else (case c2_class_ptr e of
                 ERR_PTR err \<Rightarrow>
                   (err, [Acquire (Chrdev ''char_dev''), Release (Chrdev ''char_dev'')])
               | Ptr _ \<Rightarrow>
                   (0, [Acquire (Chrdev ''char_dev''), Acquire (Class ''char_dev'')]
                       @ (if c2_device_made e then [Acquire (Device ''char_dev'')] else []))))"

definition chardev2_exit :: "chardev2_env \<Rightarrow> kop list" where
  "chardev2_exit e =
     [Drop (Device ''char_dev''), Release (Class ''char_dev''), Release (Chrdev ''char_dev'')]"

definition chardev2_owned :: "chardev2_env \<Rightarrow> resource set" where
  "chardev2_owned e =
     {Chrdev ''char_dev'', Class ''char_dev''}
     \<union> (if c2_device_made e then {Device ''char_dev''} else {})"

interpretation chardev2_mod: module_lifecycle chardev2_init chardev2_exit chardev2_owned
    "\<lambda>e. err_ptr_ok (c2_class_ptr e)"
  by unfold_locales
    (auto simp: chardev2_init_def chardev2_exit_def chardev2_owned_def err_ptr_ok_def Let_def
      split: if_splits err_ptr.splits)

subsection \<open>The message buffer\<close>

text \<open>
  The array has 81 bytes of which write and ioctl only ever store the first 80, so the last one stays
  a NUL.
\<close>

definition chardev2_inv :: "chardev2 \<Rightarrow> bool" where
  "chardev2_inv s \<longleftrightarrow> length (c2_message s) = chardev2_BUF_LEN + 1 \<and>
     c2_message s ! chardev2_BUF_LEN = NUL"

definition chardev2_content :: "chardev2 \<Rightarrow> string" where
  "chardev2_content s = cstr (c2_message s)"

lemma chardev2_start_inv [simp]: "chardev2_inv chardev2_start"
  by (simp add: chardev2_inv_def chardev2_start_def zeros_def del: replicate_Suc)

lemma chardev2_terminated: "chardev2_inv s \<Longrightarrow> terminated (c2_message s)"
  by (metis chardev2_inv_def less_add_one nth_mem terminated_def)

interpretation chardev2_reader: msg_reader chardev2_device_read chardev2_content chardev2_inv
  by unfold_locales
    (simp_all add: chardev2_device_read_def chardev2_content_def chardev2_terminated Let_def
      device_read_body_more device_read_body_end)

lemma chardev2_write_eq:
  assumes "chardev2_inv s"
  shows "chardev2_device_write s m buffer len =
    (let n = min len chardev2_BUF_LEN
     in Some (s\<lparr>c2_message := ustr m buffer n @ drop n (c2_message s)\<rparr>, int n))"
proof -
  have "chardev2_BUF_LEN \<le> length (c2_message s)" using assms by (simp add: chardev2_inv_def)
  from copy_in_loop_eq [OF this] show ?thesis
    by (simp add: chardev2_device_write_def Let_def)
qed

lemma chardev2_write_inv:
  assumes "chardev2_inv s" and "chardev2_device_write s m buffer len = Some (s', ret)"
  shows "chardev2_inv s' \<and> c2_already_open s' = c2_already_open s"
proof -
  from assms have "s' = s\<lparr>c2_message := ustr m buffer (min len chardev2_BUF_LEN)
      @ drop (min len chardev2_BUF_LEN) (c2_message s)\<rparr>"
    by (auto simp: chardev2_write_eq Let_def)
  then show ?thesis using assms(1)
    by (simp add: chardev2_inv_def nth_append)
qed

text \<open>What a write leaves in the message: the new bytes over the head of the old ones.\<close>

lemma chardev2_write_content:
  assumes "chardev2_inv s" and "len \<le> chardev2_BUF_LEN" and "NUL \<notin> set (ustr m buffer len)"
    and "len \<le> length (chardev2_content s)"
    and "chardev2_device_write s m buffer len = Some (s', ret)"
  shows "chardev2_content s' = ustr m buffer len @ drop len (chardev2_content s)"
proof -
  have "c2_message s' = ustr m buffer len @ drop len (c2_message s)"
    using assms by (auto simp: chardev2_write_eq Let_def min_def)
  moreover have "cstr (drop len (c2_message s)) = drop len (chardev2_content s)"
    using assms by (simp add: chardev2_content_def cstr_drop)
  ultimately show ?thesis
    using assms(3) by (simp add: chardev2_content_def cstr_append)
qed

subsection \<open>The ioctl\<close>

text \<open>A C string \<open>s\<close> in user memory at \<open>p\<close>.\<close>

definition ustring :: "umem \<Rightarrow> nat \<Rightarrow> string \<Rightarrow> bool" where
  "ustring m p s \<longleftrightarrow> NUL \<notin> set s \<and> ustr m p (Suc (length s)) = s @ [NUL]"

lemma ustring_get_user:
  assumes "ustring m p s"
  shows "i < length s \<Longrightarrow> fst (get_user (p + i) m) = s ! i"
    and "fst (get_user (p + length s) m) = NUL"
proof -
  have nth: "i \<le> length s \<Longrightarrow> fst (get_user (p + i) m) = (s @ [NUL]) ! i" for i
  proof -
    assume "i \<le> length s"
    then have "ustr m p (Suc (length s)) ! i = fst (get_user (p + i) m)"
      by (simp add: ustr_def del: upt_Suc)
    then show "fst (get_user (p + i) m) = (s @ [NUL]) ! i"
      using assms by (simp add: ustring_def)
  qed
  from nth [of i] show "i < length s \<Longrightarrow> fst (get_user (p + i) m) = s ! i"
    by (simp add: nth_append)
  from nth [of "length s"] show "fst (get_user (p + length s) m) = NUL" by simp
qed

lemma set_msg_scan_from:
  assumes "ustring m p s" and "0 < i" and "i \<le> min (Suc (length s)) chardev2_BUF_LEN"
  shows "set_msg_scan m (p + i) ((s @ [NUL]) ! (i - 1)) i = min (Suc (length s)) chardev2_BUF_LEN"
  using assms
proof (induction "chardev2_BUF_LEN - i" arbitrary: i)
  case 0
  then show ?case by (simp add: set_msg_scan.simps)
next
  case (Suc k)
  show ?case
  proof (cases "i = Suc (length s)")
    case True
    with Suc show ?thesis by (simp add: set_msg_scan.simps)
  next
    case False
    with Suc have i: "i \<le> length s" "i < chardev2_BUF_LEN" by auto
    then have "s ! (i - 1) \<noteq> NUL"
      using Suc.prems by (metis One_nat_def Suc_le_eq Suc_pred nth_mem ustring_def)
    moreover have "fst (get_user (p + i) m) = (s @ [NUL]) ! i"
      using Suc.prems i ustring_get_user [OF Suc.prems(1)] by (cases "i < length s") (auto simp: nth_append)
    ultimately show ?thesis
      using Suc.prems Suc.hyps(1) [of "Suc i"] Suc.hyps(2) i
      by (subst set_msg_scan.simps) (simp add: nth_append)
  qed
qed

text \<open>
  The scan's result counts the terminating NUL, up to 80, except that the empty string counts 0.
\<close>

lemma set_msg_scan_eq:
  assumes "ustring m p s"
  shows "set_msg_scan m p (fst (get_user p m)) 0 =
    (if s = [] then 0 else min (Suc (length s)) chardev2_BUF_LEN)"
proof (cases s)
  case Nil
  with assms ustring_get_user(2) [OF assms] show ?thesis by (simp add: set_msg_scan.simps)
next
  case (Cons c cs)
  with assms ustring_get_user(1) [OF assms, of 0] have "fst (get_user p m) = c" "c \<noteq> NUL"
    by (auto simp: ustring_def)
  with Cons assms set_msg_scan_from [of m p s 1] show ?thesis
    by (subst set_msg_scan.simps) (simp add: chardev2_BUF_LEN_def)
qed

lemma ustring_ustr:
  assumes "ustring m p s"
  shows "ustr m p (min (Suc (length s)) n) = take n (s @ [NUL])"
proof -
  have "take n (ustr m p (Suc (length s))) = ustr m p (min (Suc (length s)) n)"
    by (cases "n \<le> Suc (length s)") (simp_all add: ustr_def take_map min_def del: upt_Suc)
  then show ?thesis using assms by (simp add: ustring_def)
qed

text \<open>Setting a message stores it, cut off after 80 characters; setting the empty one does nothing.\<close>

lemma set_msg_content:
  assumes Inv: "chardev2_inv s" and "ustring m p str" and "c2_already_open s = CDEV_NOT_USED"
  shows "\<exists>s'. chardev2_device_ioctl s m IOCTL_SET_MSG p = Some (s', m, 0) \<and> chardev2_inv s' \<and>
    c2_already_open s' = CDEV_NOT_USED \<and>
    chardev2_content s' = (if str = [] then chardev2_content s else take chardev2_BUF_LEN str)"
proof -
  define n where "n = (if str = [] then 0 else min (Suc (length str)) chardev2_BUF_LEN)"
  define s1 where "s1 = s\<lparr>c2_already_open := CDEV_EXCLUSIVE_OPEN\<rparr>"
  define s2 where "s2 = s1\<lparr>c2_message := ustr m p n @ drop n (c2_message s)\<rparr>"
  have n: "n \<le> chardev2_BUF_LEN" by (simp add: n_def)
  have Inv1: "chardev2_inv s1" using Inv by (simp add: s1_def chardev2_inv_def)
  have stored: "chardev2_device_write s1 m p n = Some (s2, int n)"
    using n by (subst chardev2_write_eq [OF Inv1]) (simp add: Let_def s1_def s2_def min_absorb1)
  have Inv2: "chardev2_inv s2" using chardev2_write_inv [OF Inv1 stored] by simp
  have "chardev2_content s2 = (if str = [] then chardev2_content s else take chardev2_BUF_LEN str)"
  proof (cases "str = []")
    case True
    then show ?thesis by (simp add: s2_def s1_def n_def chardev2_content_def ustr_def)
  next
    case False
    then have u: "ustr m p n = take chardev2_BUF_LEN (str @ [NUL])"
      using ustring_ustr [OF assms(2)] by (simp add: n_def)
    have nul: "NUL \<notin> set str" using assms(2) by (simp add: ustring_def)
    show ?thesis
    proof (cases "length str < chardev2_BUF_LEN")
      case True
      then show ?thesis using False u nul by (simp add: s2_def chardev2_content_def)
    next
      case long: False
      have "drop chardev2_BUF_LEN (c2_message s) = [NUL]"
        using Inv by (subst Cons_nth_drop_Suc [symmetric]) (auto simp: chardev2_inv_def)
      then show ?thesis using long False u nul
        by (simp add: s2_def chardev2_content_def n_def) (meson cstr_append_nul in_set_takeD)
    qed
  qed
  moreover have "chardev2_device_ioctl s m IOCTL_SET_MSG p =
      Some (s2\<lparr>c2_already_open := CDEV_NOT_USED\<rparr>, m, 0)"
    using assms(3) stored
    by (simp add: chardev2_device_ioctl_def set_msg_scan_eq [OF assms(2)] n_def [symmetric]
        s1_def [symmetric] Let_def)
  ultimately show ?thesis
    using Inv2 by (auto simp: chardev2_inv_def chardev2_content_def)
qed

text \<open>Reading the message back puts it, with its NUL, at the address given.\<close>

lemma get_msg_result:
  assumes Inv: "chardev2_inv s" and "c2_already_open s = CDEV_NOT_USED"
    and "mapped m q (Suc (length (chardev2_content s)))"
  shows "\<exists>m'. chardev2_device_ioctl s m IOCTL_GET_MSG q = Some (s, m', 0) \<and>
    ustring m' q (chardev2_content s) \<and> dom m' = dom m"
proof -
  define c where "c = chardev2_content s"
  define m' where "m' = put_str m q (c @ [NUL])"
  have c: "length c \<le> 80" "NUL \<notin> set c"
    using Inv length_cstr_less [OF chardev2_terminated [OF Inv]]
    by (simp_all add: c_def chardev2_content_def chardev2_inv_def chardev2_BUF_LEN_def)
  have "device_read_body (c2_message s) m q 99 0 = Some (put_str m q c, int (length c), int (length c))"
  proof (cases "c = []")
    case True
    then show ?thesis
      using device_read_body_end [OF chardev2_terminated [OF Inv], of 0]
      by (simp add: c_def chardev2_content_def)
  next
    case False
    then show ?thesis
      using c device_read_body_more [OF chardev2_terminated [OF Inv], of 0 m q 99]
      by (simp add: c_def [symmetric] chardev2_content_def [symmetric])
  qed
  moreover have "fst (put_user NUL (q + length c) (put_str m q c)) = m'"
    by (simp add: m'_def put_str_append)
  ultimately have "chardev2_device_ioctl s m IOCTL_GET_MSG q = Some (s, m', 0)"
    using assms(2) by (simp add: chardev2_device_ioctl_def chardev2_device_read_def Let_def)
  moreover have "ustring m' q c"
    using c assms(3) ustr_put_str [of m q "c @ [NUL]"] by (simp add: ustring_def m'_def c_def)
  moreover have "dom m' = dom m" by (auto simp: m'_def dom_def)
  ultimately show ?thesis by (auto simp: c_def)
qed

subsection \<open>The file\<close>

text \<open>\<open>fops\<close>, without its ioctl handler, which is not called through the file's offset.\<close>

definition chardev2_fops :: "(unit, chardev2) file_operations" where
  "chardev2_fops =
     \<lparr>fop_owner = NO_OWNER, fop_llseek = None, fop_read = Some chardev2_device_read,
      fop_write = Some (\<lambda>s m buf n off. map_option (\<lambda>(s, ret). (s, off, ret)) (chardev2_device_write s m buf n)),
      fop_open = Some (\<lambda>_ s. Some (chardev2_device_open s)), fop_release = Some chardev2_device_release\<rparr>"

lemma chardev2_calls [simp]:
  "call_read chardev2_fops = chardev2_device_read"
  "call_write chardev2_fops =
     (\<lambda>s m buf n off. map_option (\<lambda>(s, ret). (s, off, ret)) (chardev2_device_write s m buf n))"
  by (simp_all add: chardev2_fops_def fop_calls)

interpretation chardev2_io: io_device chardev2_device_read
    "\<lambda>s m buf n off. map_option (\<lambda>(s, ret). (s, off, ret)) (chardev2_device_write s m buf n)"
    chardev2_inv "\<lambda>off s. 0 \<le> off \<and> nat off \<le> chardev2_BUF_LEN"
proof unfold_locales
  fix s m buf n and off :: int
  assume s: "chardev2_inv s" and off: "0 \<le> off \<and> nat off \<le> chardev2_BUF_LEN"
  with device_read_body_safe [of off chardev2_BUF_LEN "c2_message s" m buf n]
  show "\<exists>s' m' off' ret. chardev2_device_read s m buf n off = Some (s', m', off', ret) \<and>
      chardev2_inv s' \<and> (0 \<le> off' \<and> nat off' \<le> chardev2_BUF_LEN) \<and> confined m m' buf n \<and> ret \<le> int n"
    by (auto simp: chardev2_device_read_def chardev2_inv_def)
  obtain s' where w: "chardev2_device_write s m buf n = Some (s', int (min n chardev2_BUF_LEN))"
    using chardev2_write_eq [OF s, of m buf n] unfolding Let_def by blast
  from w chardev2_write_inv [OF s w] off show "\<exists>s' off' ret. map_option (\<lambda>(s, ret). (s, off, ret)) (chardev2_device_write s m buf n) =
      Some (s', off', ret) \<and> chardev2_inv s' \<and> (0 \<le> off' \<and> nat off' \<le> chardev2_BUF_LEN) \<and> ret \<le> int n"
    by simp
qed auto

interpretation chardev2_file: file_device chardev2_fops
    chardev2_inv "\<lambda>off s. 0 \<le> off \<and> nat off \<le> chardev2_BUF_LEN" "\<lambda>k s. True" False chardev2_start
  by (rule file_device.intro, simp only: chardev2_calls, rule chardev2_io.io_device_axioms, unfold_locales)
    (auto simp: chardev2_fops_def fop_calls chardev2_inv_def chardev2_start_def chardev2_device_open_def
      chardev2_device_release_def)

subsection \<open>Properties\<close>

text \<open>
  C16: while no other process is in an ioctl, \<open>IOCTL_SET_MSG\<close> succeeds for every string, and the
  \<open>IOCTL_GET_MSG\<close> that follows succeeds and stores a string terminated by a NUL. If the message set was
  not empty this is the message, cut off after 80 characters, whatever the device held before. Setting
  the empty message changes nothing: what comes back is the text that was there.
\<close>

theorem chardev2_set_get_roundtrip:
  assumes "chardev2_inv s" and "c2_already_open s = CDEV_NOT_USED"
    and "ustring m p str" and "mapped m q 81"
  shows "\<exists>s1 m1. chardev2_device_ioctl s m IOCTL_SET_MSG p = Some (s1, m, 0) \<and>
    chardev2_device_ioctl s1 m IOCTL_GET_MSG q = Some (s1, m1, 0) \<and>
    ustring m1 q (if str = [] then chardev2_content s else take 80 str)"
proof -
  from set_msg_content [OF assms(1,3,2)] obtain s1
    where s1: "chardev2_device_ioctl s m IOCTL_SET_MSG p = Some (s1, m, 0)" "chardev2_inv s1"
      "c2_already_open s1 = CDEV_NOT_USED"
      "chardev2_content s1 = (if str = [] then chardev2_content s else take 80 str)"
    by (auto simp: chardev2_BUF_LEN_def)
  have "length (chardev2_content s1) \<le> 80"
    using s1(2) length_cstr_less [OF chardev2_terminated [OF s1(2)]]
    by (simp add: chardev2_content_def chardev2_inv_def chardev2_BUF_LEN_def)
  then have "mapped m q (Suc (length (chardev2_content s1)))"
    by (intro mapped_mono [OF assms(4)]) simp
  from get_msg_result [OF s1(2,3) this] s1 show ?thesis by auto
qed

text \<open>User memory with 200 mapped bytes and a string at address 0, for witnesses.\<close>

definition demo_umem :: "string \<Rightarrow> umem" where
  "demo_umem str = put_str (\<lambda>a. if a < 200 then Some NUL else None) 0 (str @ [NUL])"

lemma demo_umem_mapped: "p + n \<le> 200 \<Longrightarrow> mapped (demo_umem str) p n"
  by (simp add: demo_umem_def) (simp add: mapped_def)

lemma demo_umem_ustring: "NUL \<notin> set str \<Longrightarrow> length str < 200 \<Longrightarrow> ustring (demo_umem str) 0 str"
  using ustr_put_str [of "\<lambda>a. if a < 200 then Some NUL else None" 0 "str @ [NUL]"]
  by (simp add: ustring_def demo_umem_def mapped_def)

theorem chardev2_set_get_roundtrip_witness:
  "\<exists>s1 m1. chardev2_device_ioctl chardev2_start (demo_umem ''hello'') IOCTL_SET_MSG 0 =
      Some (s1, demo_umem ''hello'', 0) \<and>
    chardev2_device_ioctl s1 (demo_umem ''hello'') IOCTL_GET_MSG 100 = Some (s1, m1, 0) \<and>
    ustring m1 100 (take 80 ''hello'')"
  using chardev2_set_get_roundtrip [of chardev2_start "demo_umem ''hello''" 0 "''hello''" 100]
  by (simp add: chardev2_start_def [THEN arg_cong [of _ _ c2_already_open]] demo_umem_mapped demo_umem_ustring)

text \<open>
  Setting the empty message succeeds and leaves the previous message in place: the length scan
  counts the terminating NUL for every string but the empty one.
\<close>

theorem chardev2_set_empty_ignored:
  assumes "chardev2_inv s" and "c2_already_open s = CDEV_NOT_USED" and "ustring m p []"
  shows "\<exists>s1. chardev2_device_ioctl s m IOCTL_SET_MSG p = Some (s1, m, 0) \<and>
    chardev2_content s1 = chardev2_content s"
  using set_msg_content [OF assms(1,3,2)] by auto

theorem chardev2_set_empty_ignored_witness:
  "\<exists>s1. chardev2_device_ioctl \<lparr>c2_already_open = CDEV_NOT_USED, c2_message = ''old'' @ zeros 78\<rparr>
      (demo_umem []) IOCTL_SET_MSG 0 = Some (s1, demo_umem [], 0) \<and>
    chardev2_content s1 = chardev2_content
      \<lparr>c2_already_open = CDEV_NOT_USED, c2_message = ''old'' @ zeros 78\<rparr>"
  by (rule chardev2_set_empty_ignored)
    (simp_all add: chardev2_inv_def chardev2_BUF_LEN_def zeros_def demo_umem_ustring
      nth_append del: replicate_Suc)

text \<open>
  A write of at most 80 bytes without NULs stores them over the head of the message and keeps the
  tail of a longer old message; the number of bytes is returned and the buffer stays terminated.
\<close>

theorem chardev2_write_overlays:
  assumes "chardev2_inv s" and "len \<le> chardev2_BUF_LEN" and "NUL \<notin> set (ustr m buffer len)"
    and "len \<le> length (chardev2_content s)"
  shows "\<exists>s'. chardev2_device_write s m buffer len = Some (s', int len) \<and> chardev2_inv s' \<and>
    chardev2_content s' = ustr m buffer len @ drop len (chardev2_content s)"
proof -
  have "chardev2_device_write s m buffer len =
      Some (s\<lparr>c2_message := ustr m buffer len @ drop len (c2_message s)\<rparr>, int len)" (is "_ = Some (?s', _)")
    using assms(2) by (simp add: chardev2_write_eq [OF assms(1)] Let_def min_absorb1)
  with chardev2_write_inv [OF assms(1) this] chardev2_write_content [OF assms this] show ?thesis
    by blast
qed

theorem chardev2_write_overlays_witness:
  "\<exists>s'. chardev2_device_write \<lparr>c2_already_open = CDEV_NOT_USED, c2_message = ''oldtext'' @ zeros 74\<rparr>
      (demo_umem ''new'') 0 3 = Some (s', int 3) \<and> chardev2_inv s' \<and>
    chardev2_content s' = ''newtext''"
proof -
  let ?s = "\<lparr>c2_already_open = CDEV_NOT_USED, c2_message = ''oldtext'' @ zeros 74\<rparr>"
  have u: "ustr (demo_umem ''new'') 0 3 = ''new''"
    using ustring_ustr [OF demo_umem_ustring [of "''new''"], of 3] by (simp add: numeral_eq_Suc)
  have Inv: "chardev2_inv ?s"
    by (simp add: chardev2_inv_def chardev2_BUF_LEN_def zeros_def nth_append del: replicate_Suc)
  have content: "chardev2_content ?s = ''oldtext''"
    using cstr_append [of "''oldtext''" "zeros 74"] by (simp add: chardev2_content_def)
  show ?thesis
    using chardev2_write_overlays [OF Inv, of 3 "demo_umem ''new''" 0] unfolding u content
    by (simp add: chardev2_BUF_LEN_def)
qed

text \<open>
  \<open>IOCTL_GET_NTH_BYTE\<close> has no bounds check: for an index beyond the 81 bytes of the message it
  reads outside the array, and for every other index it returns that byte.
\<close>

theorem chardev2_nth_byte_unchecked:
  assumes "chardev2_inv s" and "c2_already_open s = CDEV_NOT_USED"
  shows "chardev2_device_ioctl s m IOCTL_GET_NTH_BYTE i =
    (if i \<le> chardev2_BUF_LEN then Some (s, m, char_long (c2_message s ! i)) else None)"
  using assms by (simp add: chardev2_device_ioctl_def chardev2_inv_def Let_def)

theorem chardev2_nth_byte_unchecked_witness:
  "chardev2_device_ioctl chardev2_start Map.empty IOCTL_GET_NTH_BYTE 100 = None"
  by (subst chardev2_nth_byte_unchecked) (simp_all add: chardev2_BUF_LEN_def chardev2_start_def
      chardev2_inv_def zeros_def del: replicate_Suc)

end
