(* ===== verification/Userspace.thy ===== *)
theory Userspace
  imports Chardev2
begin

text \<open>
  examples/other/userspace_ioctl.c, a program that drives the ioctl commands of chardev2.c. It is
  modelled as its standard output and exit status; the system calls are the device handlers of this
  development, behind the C library's convention that an error is -1 with \<open>errno\<close>.
\<close>

subsection \<open>The program\<close>

text \<open>The C library turns a return value between -4095 and -1 into -1.\<close>

definition libc_ret :: "int \<Rightarrow> int" where
  "libc_ret r = (if - 4095 \<le> r \<and> r < 0 then - 1 else r)"

type_synonym world = "chardev2 \<times> umem"

definition ioctl_set_msg :: "world \<Rightarrow> nat \<Rightarrow> (world \<times> string \<times> int) option" where
  "ioctl_set_msg w message =
     (case chardev2_device_ioctl (fst w) (snd w) IOCTL_SET_MSG message of
        None \<Rightarrow> None
      | Some (s', m', r) \<Rightarrow>
          (let ret_val = libc_ret r
           in Some ((s', m'),
                    if ret_val < 0 then ''ioctl_set_msg failed:'' @ dec_int ret_val @ [LF] else [],
                    ret_val)))"

text \<open>
  \<open>ioctl_get_msg\<close>, with its local array \<open>char message[100] = { 0 }\<close> at address \<open>q\<close>. The \<open>printf\<close>
  of the array as a string is undefined unless a NUL is found in it.
\<close>

definition ioctl_get_msg :: "world \<Rightarrow> nat \<Rightarrow> (world \<times> string \<times> int) option" where
  "ioctl_get_msg w q =
     (case chardev2_device_ioctl (fst w) (put_str (snd w) q (zeros 100)) IOCTL_GET_MSG q of
        None \<Rightarrow> None
      | Some (s', m', r) \<Rightarrow>
          (let ret_val = libc_ret r
           in if terminated (ustr m' q 100)
              then Some ((s', m'),
                         (if ret_val < 0 then ''ioctl_get_msg failed:'' @ dec_int ret_val @ [LF]
                          else []) @ ''get_msg message:'' @ cstr (ustr m' q 100),
                         ret_val)
              else None))"

text \<open>\<open>putchar(c)\<close>.\<close>

definition putchar :: "int \<Rightarrow> char" where
  "putchar c = char_of (nat (c mod 256))"

partial_function (option) nth_byte_loop ::
    "world \<Rightarrow> nat \<Rightarrow> string \<Rightarrow> (world \<times> string \<times> int) option" where
  "nth_byte_loop w i out =
     (case chardev2_device_ioctl (fst w) (snd w) IOCTL_GET_NTH_BYTE i of
        None \<Rightarrow> None
      | Some (s', m', r) \<Rightarrow>
          (if libc_ret r < 0
           then Some ((s', m'), out @ [LF] @ ''ioctl_get_nth_byte failed at the ''
                                @ dec_int (int i + 1) @ [CHR 0x27] @ ''th byte:'' @ [LF], libc_ret r)
           else if libc_ret r \<noteq> 0
           then nth_byte_loop (s', m') (Suc i) (out @ [putchar (libc_ret r)])
           else Some ((s', m'), out @ [putchar (libc_ret r)], 0)))"

definition ioctl_get_nth_byte :: "world \<Rightarrow> (world \<times> string \<times> int) option" where
  "ioctl_get_nth_byte w = nth_byte_loop w 0 ''get_nth_byte message:''"

definition main_msg :: string where
  "main_msg = ''Message passed by ioctl'' @ [LF]"

text \<open>
  \<open>main\<close>, for the return value of \<open>open\<close>, the address \<open>p\<close> of the string literal \<open>main_msg\<close> and the
  address \<open>q\<close> of the array in \<open>ioctl_get_msg\<close>.
\<close>

definition ioctl_main :: "world \<Rightarrow> int \<Rightarrow> nat \<Rightarrow> nat \<Rightarrow> (world \<times> string \<times> int) option" where
  "ioctl_main w file_desc p q =
     (if file_desc < 0 then
        Some (w, ''Can't open device file: /dev/char_dev, error:'' @ dec_int file_desc @ [LF],
              EXIT_FAILURE)
      else (case ioctl_set_msg w p of
              None \<Rightarrow> None
            | Some (w, out1, ret1) \<Rightarrow>
                if ret1 \<noteq> 0 then Some (w, out1, EXIT_FAILURE)
                else (case ioctl_get_nth_byte w of
                        None \<Rightarrow> None
                      | Some (w, out2, ret2) \<Rightarrow>
                          if ret2 \<noteq> 0 then Some (w, out1 @ out2, EXIT_FAILURE)
                          else (case ioctl_get_msg w q of
                                  None \<Rightarrow> None
                                | Some (w, out3, ret3) \<Rightarrow>
                                    Some (w, out1 @ out2 @ out3,
                                          if ret3 \<noteq> 0 then EXIT_FAILURE else EXIT_SUCCESS)))))"

text \<open>A byte of an ASCII message comes back as itself.\<close>

definition ascii :: "string \<Rightarrow> bool" where
  "ascii s \<longleftrightarrow> (\<forall>c\<in>set s. (of_char c :: nat) < 128)"

lemma char_long_ascii:
  assumes "(of_char c :: nat) < 128"
  shows "char_long c = int (of_char c)" and "putchar (int (of_char c)) = c"
    and "libc_ret (int (of_char c)) = int (of_char c)" and "(of_char c :: nat) = 0 \<longleftrightarrow> c = NUL"
proof -
  have "int (of_char c) < 128" using assms by linarith
  then show "char_long c = int (of_char c)"
    unfolding char_long_def Let_def by (rule if_P)
  show "putchar (int (of_char c)) = c"
    using assms by (simp add: putchar_def)
  show "libc_ret (int (of_char c)) = int (of_char c)" by (simp add: libc_ret_def)
  show "(of_char c :: nat) = 0 \<longleftrightarrow> c = NUL"
  proof
    assume "(of_char c :: nat) = 0"
    then show "c = NUL" by (metis char_of_0 char_of_char)
  qed simp
qed

lemma nth_byte_ioctl:
  assumes "chardev2_inv s" and "c2_already_open s = CDEV_NOT_USED" and "i \<le> chardev2_BUF_LEN"
  shows "chardev2_device_ioctl s m IOCTL_GET_NTH_BYTE i =
    Some (s, m, char_long (c2_message s ! i))"
  using assms by (simp add: chardev2_device_ioctl_def chardev2_inv_def Let_def)

lemma nth_byte_loop_from:
  assumes "chardev2_inv s" and "c2_already_open s = CDEV_NOT_USED"
    and "ascii (chardev2_content s)" and "i \<le> length (chardev2_content s)"
  shows "nth_byte_loop (s, m) i out =
    Some ((s, m), out @ drop i (chardev2_content s) @ [NUL], 0)"
  using assms(4)
proof (induction "length (chardev2_content s) - i" arbitrary: i out)
  case 0
  have len: "length (chardev2_content s) \<le> chardev2_BUF_LEN"
    using length_cstr_less [OF chardev2_terminated [OF assms(1)]] assms(1)
    by (simp add: chardev2_content_def chardev2_inv_def)
  from 0 have i: "i = length (chardev2_content s)" by simp
  then have "c2_message s ! i = NUL"
    using nth_length_cstr [OF chardev2_terminated [OF assms(1)]] by (simp add: chardev2_content_def)
  then show ?case
    using nth_byte_ioctl [OF assms(1,2), of i m] len i
    by (subst nth_byte_loop.simps) (simp add: char_long_def libc_ret_def putchar_def)
next
  case (Suc k)
  let ?c = "chardev2_content s ! i"
  from Suc have i: "i < length (chardev2_content s)" by simp
  then have "i < length (c2_message s)"
    using length_cstr_le [of "c2_message s"] by (simp add: chardev2_content_def)
  then have "i \<le> chardev2_BUF_LEN" using assms(1) by (simp add: chardev2_inv_def)
  moreover have "c2_message s ! i = ?c" using i by (simp add: chardev2_content_def nth_cstr)
  moreover have c: "(of_char ?c :: nat) < 128" "?c \<noteq> NUL"
    using i assms(3) by (auto simp: ascii_def) (metis chardev2_content_def cstr_no_nul nth_mem)
  moreover have "nth_byte_loop (s, m) (Suc i) (out @ [?c]) =
      Some ((s, m), (out @ [?c]) @ drop (Suc i) (chardev2_content s) @ [NUL], 0)"
    using Suc i by (intro Suc.hyps) auto
  ultimately show ?case
    using nth_byte_ioctl [OF assms(1,2), of i m] i
    by (subst nth_byte_loop.simps) (simp add: char_long_ascii Cons_nth_drop_Suc [symmetric])
qed

text \<open>The run when the device is free, and its two failures.\<close>

lemma userspace_ioctl_free:
  assumes "chardev2_inv s" and "c2_already_open s = CDEV_NOT_USED"
    and "ustring m p main_msg" and "mapped m q 100" and "0 \<le> fd"
  shows "\<exists>s' m'. ioctl_main (s, m) fd p q = Some ((s', m'),
      ''get_nth_byte message:'' @ main_msg @ [NUL] @ ''get_msg message:'' @ main_msg, EXIT_SUCCESS) \<and>
    chardev2_content s' = main_msg \<and> c2_already_open s' = CDEV_NOT_USED"
proof -
  have msg: "length main_msg = 24" "main_msg \<noteq> []" "ascii main_msg"
    by (simp_all add: main_msg_def ascii_def)
  from set_msg_content [OF assms(1,3,2)] msg obtain s1
    where s1: "chardev2_device_ioctl s m IOCTL_SET_MSG p = Some (s1, m, 0)" "chardev2_inv s1"
      "c2_already_open s1 = CDEV_NOT_USED" "chardev2_content s1 = main_msg"
    by (auto simp: chardev2_BUF_LEN_def)
  then have set: "ioctl_set_msg (s, m) p = Some ((s1, m), [], 0)"
    by (simp add: ioctl_set_msg_def libc_ret_def Let_def)
  have nth: "ioctl_get_nth_byte (s1, m) =
      Some ((s1, m), ''get_nth_byte message:'' @ main_msg @ [NUL], 0)"
    using nth_byte_loop_from [OF s1(2,3), of 0 m "''get_nth_byte message:''"] s1(4) msg
    by (simp add: ioctl_get_nth_byte_def)
  let ?m = "put_str m q (zeros 100)"
  have "mapped ?m q (Suc (length (chardev2_content s1)))"
    using msg s1(4) mapped_mono [OF assms(4)] by simp
  from get_msg_result [OF s1(2,3) this] s1(4) obtain m2
    where m2: "chardev2_device_ioctl s1 ?m IOCTL_GET_MSG q = Some (s1, m2, 0)" "ustring m2 q main_msg"
    by auto
  have split: "ustr m2 q 100 = ustr m2 q 25 @ map (\<lambda>i. fst (get_user (q + i) m2)) [25..<100]"
    using upt_add_eq_append [of 0 25 75] by (simp add: ustr_def)
  have "ustr m2 q 25 = main_msg @ [NUL]" using m2(2) msg(1) by (simp add: ustring_def)
  moreover have "NUL \<notin> set main_msg" using m2(2) by (simp add: ustring_def)
  ultimately have str: "terminated (ustr m2 q 100)" "cstr (ustr m2 q 100) = main_msg"
    unfolding split by simp_all
  have get: "ioctl_get_msg (s1, m) q = Some ((s1, m2), ''get_msg message:'' @ main_msg, 0)"
    using m2(1) str by (simp add: ioctl_get_msg_def libc_ret_def Let_def)
  show ?thesis
    using assms(5) set nth get s1(3,4) by (simp add: ioctl_main_def)
qed

lemma userspace_ioctl_fails:
  "fd < 0 \<Longrightarrow> ioctl_main (s, m) fd p q =
    Some ((s, m), ''Can't open device file: /dev/char_dev, error:'' @ dec_int fd @ [LF], EXIT_FAILURE)"
  "0 \<le> fd \<Longrightarrow> c2_already_open s \<noteq> CDEV_NOT_USED \<Longrightarrow> ioctl_main (s, m) fd p q =
    Some ((s, m), ''ioctl_set_msg failed:'' @ dec_int (- 1) @ [LF], EXIT_FAILURE)"
  by (simp_all add: ioctl_main_def ioctl_set_msg_def chardev2_device_ioctl_def libc_ret_def Let_def)

subsection \<open>Properties\<close>

text \<open>
  C34: the run of userspace_ioctl.c against the device of chardev2.c, while no other process uses or
  changes the device in between. If the file could not be opened, it says so and fails. If another
  process is inside an ioctl, its first ioctl returns \<open>EBUSY\<close>, it says that setting the message failed,
  and it fails, having changed nothing. Otherwise, whatever message the device held, it sets its own,
  reads it back byte by byte and as a whole, prints both, and exits successfully, and the device holds
  its message and is free.
\<close>

theorem userspace_ioctl_end_to_end:
  assumes "chardev2_inv s" and "ustring m p main_msg" and "mapped m q 100"
  shows "if fd < 0 then
      ioctl_main (s, m) fd p q = Some ((s, m),
        ''Can't open device file: /dev/char_dev, error:'' @ dec_int fd @ [LF], EXIT_FAILURE)
    else if c2_already_open s \<noteq> CDEV_NOT_USED then
      ioctl_main (s, m) fd p q = Some ((s, m), ''ioctl_set_msg failed:'' @ dec_int (- 1) @ [LF], EXIT_FAILURE)
    else \<exists>s' m'. ioctl_main (s, m) fd p q = Some ((s', m'),
        ''get_nth_byte message:'' @ main_msg @ [NUL] @ ''get_msg message:'' @ main_msg, EXIT_SUCCESS) \<and>
      chardev2_content s' = main_msg \<and> c2_already_open s' = CDEV_NOT_USED"
proof (cases "0 \<le> fd \<and> c2_already_open s = CDEV_NOT_USED")
  case True
  then show ?thesis using userspace_ioctl_free [OF assms(1) _ assms(2,3), of fd] by simp
next
  case False
  then show ?thesis using userspace_ioctl_fails [of fd s m p q] by auto
qed

theorem userspace_ioctl_end_to_end_witness:
  "\<exists>s' m'. ioctl_main (chardev2_start, demo_umem main_msg) 3 0 100 = Some ((s', m'),
      ''get_nth_byte message:'' @ main_msg @ [NUL] @ ''get_msg message:'' @ main_msg, EXIT_SUCCESS) \<and>
    chardev2_content s' = main_msg \<and> c2_already_open s' = CDEV_NOT_USED"
proof -
  have "ustring (demo_umem main_msg) 0 main_msg"
    by (rule demo_umem_ustring) (simp_all add: main_msg_def)
  from userspace_ioctl_end_to_end [OF chardev2_start_inv this, where q = 100 and fd = 3]
  show ?thesis
    by (simp add: demo_umem_mapped chardev2_start_def [THEN arg_cong [of _ _ c2_already_open]])
qed

end
