(* ===== verification/Transition.thy ===== *)
theory Transition
  imports Prelude
begin

text \<open>
  Concurrent modules as transition systems: the states that can be reached from a start state, and the
  interface through which a component proves that all of them satisfy its invariant and that none of
  them is stuck.
\<close>

inductive reachable :: "('s \<Rightarrow> 's \<Rightarrow> bool) \<Rightarrow> 's \<Rightarrow> 's \<Rightarrow> bool" for step start where
  start: "reachable step start start"
| step: "reachable step start s \<Longrightarrow> step s t \<Longrightarrow> reachable step start t"

lemma reachable_trans:
  "reachable step t u \<Longrightarrow> reachable step s t \<Longrightarrow> reachable step s u"
  by (induction rule: reachable.induct) (blast intro: reachable.step)+

lemma reachable_step_first:
  "step s t \<Longrightarrow> reachable step t u \<Longrightarrow> reachable step s u"
  by (blast intro: reachable_trans reachable.intros)

lemma reachable_mono:
  "reachable step s t \<Longrightarrow> (\<And>s t. step s t \<Longrightarrow> step' s t) \<Longrightarrow> reachable step' s t"
  by (induction rule: reachable.induct) (auto intro: reachable.intros)

text \<open>The states along a list are linked by steps.\<close>

fun step_path :: "('s \<Rightarrow> 's \<Rightarrow> bool) \<Rightarrow> 's \<Rightarrow> 's list \<Rightarrow> bool" where
  "step_path step s [] \<longleftrightarrow> True"
| "step_path step s (t # ts) \<longleftrightarrow> step s t \<and> step_path step t ts"

lemma reachable_path:
  "step_path step s ts \<Longrightarrow> reachable step s (last (s # ts))"
  by (induction ts arbitrary: s) (auto intro: reachable.start reachable_step_first)

lemma step_path_mono:
  "step_path step s ts \<Longrightarrow> (\<And>s t. step s t \<Longrightarrow> step' s t) \<Longrightarrow> step_path step' s ts"
  by (induction ts arbitrary: s) auto

locale invariant_system =
  fixes step :: "'s \<Rightarrow> 's \<Rightarrow> bool" and start :: 's and inv :: "'s \<Rightarrow> bool"
  assumes inv_start: "inv start"
    and inv_step: "step s t \<Longrightarrow> inv s \<Longrightarrow> inv t"
begin

lemma reachable_inv: "reachable step start s \<Longrightarrow> inv s"
  by (induction rule: reachable.induct) (auto intro: inv_start inv_step)

lemma reachable_from_inv: "reachable step s t \<Longrightarrow> inv s \<Longrightarrow> inv t"
  by (induction rule: reachable.induct) (auto intro: inv_step)

end

text \<open>
  A system whose runs come to an end: a measure that every step decreases, and in every state that
  satisfies the invariant either the work is done or there is a step. Then the work can always be
  completed, and it is completed whatever order the steps are taken in.
\<close>

locale terminating_system = invariant_system +
  fixes finished :: "'s \<Rightarrow> bool" and weight :: "'s \<Rightarrow> nat"
  assumes weight_step: "step s t \<Longrightarrow> inv s \<Longrightarrow> weight t < weight s"
    and progress: "inv s \<Longrightarrow> \<not> finished s \<Longrightarrow> \<exists>t. step s t"
begin

lemma completes: "inv s \<Longrightarrow> \<exists>t. reachable step s t \<and> finished t"
proof (induction "weight s" arbitrary: s rule: less_induct)
  case less
  show ?case
  proof (cases "finished s")
    case True
    then show ?thesis by (blast intro: reachable.start)
  next
    case False
    with progress less.prems obtain t where t: "step s t" by blast
    with less weight_step inv_step obtain u where "reachable step t u" "finished u" by blast
    with t show ?thesis by (blast intro: reachable_step_first)
  qed
qed

text \<open>No run has more steps than its start has weight.\<close>

lemma path_bound: "step_path step s ts \<Longrightarrow> inv s \<Longrightarrow> length ts \<le> weight s"
proof (induction ts arbitrary: s)
  case Nil
  then show ?case by simp
next
  case (Cons t ts)
  then have "length ts \<le> weight t" "weight t < weight s"
    using inv_step weight_step by auto
  then show ?case by simp
qed

lemma stuck_finished:
  "reachable step start s \<Longrightarrow> \<nexists>t. step s t \<Longrightarrow> finished s"
  using reachable_inv progress by blast

end

subsection \<open>Refinement\<close>

text \<open>The labels of a run, and the state it ends in.\<close>

inductive trace :: "('s \<Rightarrow> 'l \<Rightarrow> 's \<Rightarrow> bool) \<Rightarrow> 's \<Rightarrow> 'l list \<Rightarrow> 's \<Rightarrow> bool" for step start where
  nil: "trace step start [] start"
| snoc: "trace step start ls s \<Longrightarrow> step s l t \<Longrightarrow> trace step start (ls @ [l]) t"

text \<open>
  A concrete system that does, step by step, what an abstract one may do with the same labels: what it
  shows in any run is something the abstract system can show.
\<close>

locale simulation =
  fixes cstep :: "'c \<Rightarrow> 'l \<Rightarrow> 'c \<Rightarrow> bool" and astep :: "'a \<Rightarrow> 'l \<Rightarrow> 'a \<Rightarrow> bool" and rel :: "'c \<Rightarrow> 'a \<Rightarrow> bool"
  assumes sim: "rel c a \<Longrightarrow> cstep c l c' \<Longrightarrow> \<exists>a'. astep a l a' \<and> rel c' a'"
begin

lemma trace_sim:
  "trace cstep c ls c' \<Longrightarrow> rel c a \<Longrightarrow> \<exists>a'. trace astep a ls a' \<and> rel c' a'"
proof (induction rule: trace.induct)
  case nil
  then show ?case by (blast intro: trace.nil)
next
  case (snoc ls s l t)
  then obtain a1 where "trace astep a ls a1" "rel s a1" by blast
  with sim [OF _ snoc.hyps(2)] show ?case by (blast intro: trace.snoc)
qed

end

end
