(* ===== verification/Chardev2_Threads.thy ===== *)
theory Chardev2_Threads
  imports Chardev2 Transition
begin

text \<open>
  examples/chardev2.c with several processes in it at once. A process copies one byte at a time, and
  others run in between. Shown are that a process that is alone does what the functions of \<open>Chardev2\<close> do,
  that no interleaving leaves the message array, that ioctls take effect one at a time, and that a write
  is not kept apart from them.
\<close>

subsection \<open>The threads\<close>

text \<open>Who has called \<open>device_read\<close> or \<open>device_write\<close>.\<close>

datatype c2caller = From_Vfs | From_Ioctl

text \<open>
  Where a thread is: outside; in \<open>device_ioctl\<close> before the switch; in the loop of \<open>device_write\<close> (the
  buffer, its length, the count so far); before the test in \<open>device_read\<close> and in its loop (the buffer, its
  length, the offset, the count so far); before \<open>already_open\<close> is cleared; returning.
\<close>

datatype c2place =
    Outside
  | In_Ioctl chardev_cmd nat
  | In_Write c2caller nat nat nat
  | Read_Test c2caller nat nat int
  | In_Read c2caller nat nat int nat
  | Leaving int
  | Returning int

text \<open>A thread with the memory of its process and the offset of its open file.\<close>

record c2proc =
  pr_place :: c2place
  pr_mem :: umem
  pr_off :: int

datatype c2call = Call_Ioctl chardev_cmd nat | Call_Write nat nat | Call_Read nat nat

text \<open>The beginning of a call. The compare-and-exchange is atomic.\<close>

fun c2_enter :: "c2call \<Rightarrow> c2proc \<Rightarrow> chardev2 \<Rightarrow> c2proc \<times> chardev2" where
  "c2_enter (Call_Ioctl cmd param) pr s =
     (let (v, old) = atomic_cmpxchg (c2_already_open s) CDEV_NOT_USED CDEV_EXCLUSIVE_OPEN
      in (pr\<lparr>pr_place := if old \<noteq> CDEV_NOT_USED then Returning (- EBUSY) else In_Ioctl cmd param\<rparr>,
          s\<lparr>c2_already_open := v\<rparr>))"
| "c2_enter (Call_Write buffer len) pr s = (pr\<lparr>pr_place := In_Write From_Vfs buffer len 0\<rparr>, s)"
| "c2_enter (Call_Read buffer len) pr s = (pr\<lparr>pr_place := Read_Test From_Vfs buffer len (pr_off pr)\<rparr>, s)"

text \<open>
  What the callers do with the result of the two functions: the ioctl ignores that of \<open>device_write\<close>, and
  terminates what \<open>device_read\<close> has stored at \<open>buffer\<close>; its offset is a local variable.
\<close>

fun wrote :: "c2caller \<Rightarrow> nat \<Rightarrow> c2proc \<Rightarrow> c2proc" where
  "wrote From_Vfs i pr = pr\<lparr>pr_place := Returning (int i)\<rparr>"
| "wrote From_Ioctl i pr = pr\<lparr>pr_place := Leaving 0\<rparr>"

fun read_done :: "c2caller \<Rightarrow> nat \<Rightarrow> int \<Rightarrow> nat \<Rightarrow> c2proc \<Rightarrow> c2proc" where
  "read_done From_Vfs buffer off i pr = pr\<lparr>pr_off := off, pr_place := Returning (int i)\<rparr>"
| "read_done From_Ioctl buffer off i pr =
     pr\<lparr>pr_mem := fst (put_user NUL (buffer + i) (pr_mem pr)), pr_place := Leaving 0\<rparr>"

text \<open>
  The next step of a thread inside the module; \<open>None\<close> is an access outside the message. The byte that the
  loop of \<open>device_read\<close> tests is the one it copies.
\<close>

fun c2_next :: "c2place \<Rightarrow> c2proc \<Rightarrow> chardev2 \<Rightarrow> (c2proc \<times> chardev2) option" where
  "c2_next (In_Ioctl cmd param) pr s =
     (case cmd of
        IOCTL_SET_MSG \<Rightarrow>
          (let i = set_msg_scan (pr_mem pr) param (fst (get_user param (pr_mem pr))) 0
           in Some (pr\<lparr>pr_place := In_Write From_Ioctl param i 0\<rparr>, s))
      | IOCTL_GET_MSG \<Rightarrow> Some (pr\<lparr>pr_place := Read_Test From_Ioctl param 99 0\<rparr>, s)
      | IOCTL_GET_NTH_BYTE \<Rightarrow>
          map_option (\<lambda>c. (pr\<lparr>pr_place := Leaving (char_long c)\<rparr>, s)) (rd (c2_message s) (int param))
      | OTHER_CMD _ \<Rightarrow> Some (pr\<lparr>pr_place := Leaving 0\<rparr>, s))"
| "c2_next (In_Write caller buffer len i) pr s =
     (if i < len \<and> i < chardev2_BUF_LEN
      then map_option (\<lambda>message. (pr\<lparr>pr_place := In_Write caller buffer len (Suc i)\<rparr>, s\<lparr>c2_message := message\<rparr>))
             (wr (c2_message s) (int i) (fst (get_user (buffer + i) (pr_mem pr))))
      else Some (wrote caller i pr, s))"
| "c2_next (Read_Test caller buffer len off) pr s =
     map_option (\<lambda>c. (if c = NUL then read_done caller buffer 0 0 pr
                      else pr\<lparr>pr_place := In_Read caller buffer len off 0\<rparr>, s))
       (rd (c2_message s) off)"
| "c2_next (In_Read caller buffer len off i) pr s =
     (if i < len
      then map_option (\<lambda>c. (if c = NUL then read_done caller buffer (off + int i) i pr
                            else pr\<lparr>pr_mem := fst (put_user c (buffer + i) (pr_mem pr)),
                                    pr_place := In_Read caller buffer len off (Suc i)\<rparr>, s))
             (rd (c2_message s) (off + int i))
      else Some (read_done caller buffer (off + int i) i pr, s))"
| "c2_next (Leaving ret) pr s = Some (pr\<lparr>pr_place := Returning ret\<rparr>, s\<lparr>c2_already_open := CDEV_NOT_USED\<rparr>)"
| "c2_next place pr s = Some (pr, s)"

text \<open>One step of a thread that is alone.\<close>

fun inside :: "c2place \<Rightarrow> bool" where
  "inside Outside \<longleftrightarrow> False"
| "inside (Returning ret) \<longleftrightarrow> False"
| "inside place \<longleftrightarrow> True"

definition c2_own :: "c2proc \<times> chardev2 \<Rightarrow> c2proc \<times> chardev2 \<Rightarrow> bool" where
  "c2_own x y \<longleftrightarrow> inside (pr_place (fst x)) \<and> c2_next (pr_place (fst x)) (fst x) (snd x) = Some y"

subsection \<open>A thread alone\<close>

lemma write_alone:
  "copy_in_loop chardev2_BUF_LEN (c2_message s) (pr_mem pr) buffer len i = Some (message, k) \<Longrightarrow>
    pr_place pr = In_Write caller buffer len i \<Longrightarrow>
    reachable c2_own (pr, s) (wrote caller k pr, s\<lparr>c2_message := message\<rparr>)"
proof (induction "chardev2_BUF_LEN - i" arbitrary: i pr s rule: less_induct)
  case less
  show ?case
  proof (cases "i < len \<and> i < chardev2_BUF_LEN")
    case True
    let ?c = "fst (get_user (buffer + i) (pr_mem pr))"
    from True less.prems(1) obtain msg where msg: "wr (c2_message s) (int i) ?c = Some msg"
      "copy_in_loop chardev2_BUF_LEN msg (pr_mem pr) buffer len (Suc i) = Some (message, k)"
      by (subst (asm) copy_in_loop.simps) (auto split: option.splits)
    let ?pr = "pr\<lparr>pr_place := In_Write caller buffer len (Suc i)\<rparr>" and ?s = "s\<lparr>c2_message := msg\<rparr>"
    have "c2_own (pr, s) (?pr, ?s)" using less.prems(2) True msg(1) by (simp add: c2_own_def)
    moreover have "reachable c2_own (?pr, ?s) (wrote caller k ?pr, ?s\<lparr>c2_message := message\<rparr>)"
      using True msg(2) by (intro less.hyps [of "Suc i"]) auto
    moreover have "wrote caller k ?pr = wrote caller k pr" by (cases caller) simp_all
    ultimately show ?thesis by (auto intro: reachable_step_first)
  next
    case False
    with less.prems(2) have "c2_own (pr, s) (wrote caller i pr, s)" by (simp add: c2_own_def if_not_P [OF False])
    moreover have "k = i" "message = c2_message s" using False less.prems(1) by (auto simp: copy_in_loop.simps)
    ultimately show ?thesis by (auto intro: reachable.intros)
  qed
qed

lemma read_loop_alone:
  "copy_out_loop (c2_message s) (p + i) (pr_mem pr) (buffer + i) n i = Some (m, k) \<Longrightarrow>
    pr_place pr = In_Read caller buffer (i + n) (int p) i \<Longrightarrow>
    reachable c2_own (pr, s) (read_done caller buffer (int p + int k) k (pr\<lparr>pr_mem := m\<rparr>), s)"
proof (induction n arbitrary: i pr)
  case 0
  then have "c2_own (pr, s) (read_done caller buffer (int p + int i) i pr, s)" by (simp add: c2_own_def)
  moreover have "k = i" "m = pr_mem pr" using 0 by simp_all
  ultimately show ?case by (auto intro: reachable.intros)
next
  case (Suc n)
  from Suc.prems(1) obtain c where c: "rd (c2_message s) (int (p + i)) = Some c" by (auto split: option.splits)
  have pos: "int p + int i = int (p + i)" by simp
  show ?case
  proof (cases "c = NUL")
    case True
    with Suc.prems(2) c have "c2_own (pr, s) (read_done caller buffer (int p + int i) i pr, s)"
      unfolding c2_own_def by (simp del: rd_nat of_nat_add add: pos)
    moreover have "k = i" "m = pr_mem pr" using True c Suc.prems(1) by (simp_all del: rd_nat of_nat_add)
    ultimately show ?thesis by (auto intro: reachable.intros)
  next
    case False
    let ?m = "fst (put_user c (buffer + i) (pr_mem pr))"
    let ?pr = "pr\<lparr>pr_mem := ?m, pr_place := In_Read caller buffer (i + Suc n) (int p) (Suc i)\<rparr>"
    have "c2_own (pr, s) (?pr, s)"
      using Suc.prems(2) c False unfolding c2_own_def by (simp del: rd_nat of_nat_add add: pos)
    moreover have "reachable c2_own (?pr, s) (read_done caller buffer (int p + int k) k (?pr\<lparr>pr_mem := m\<rparr>), s)"
      using Suc.prems(1) c False by (intro Suc.IH) (simp_all del: rd_nat of_nat_add)
    moreover have "read_done caller buffer (int p + int k) k (?pr\<lparr>pr_mem := m\<rparr>) =
        read_done caller buffer (int p + int k) k (pr\<lparr>pr_mem := m\<rparr>)" by (cases caller) simp_all
    ultimately show ?thesis by (auto intro: reachable_step_first)
  qed
qed

lemma read_alone:
  assumes "device_read_body (c2_message s) (pr_mem pr) buffer len off = Some (m, off', ret)"
    and "pr_place pr = Read_Test caller buffer len off"
  shows "reachable c2_own (pr, s) (read_done caller buffer off' (nat ret) (pr\<lparr>pr_mem := m\<rparr>), s) \<and> 0 \<le> ret"
proof -
  from assms(1) obtain c where c: "rd (c2_message s) off = Some c"
    by (auto simp: device_read_body_def split: option.splits)
  show ?thesis
  proof (cases "c = NUL")
    case True
    with assms c have "m = pr_mem pr" "off' = 0" "ret = 0" by (simp_all add: device_read_body_def)
    moreover have "c2_own (pr, s) (read_done caller buffer 0 0 pr, s)"
      using assms(2) c True by (simp add: c2_own_def)
    ultimately show ?thesis by (auto intro: reachable.intros)
  next
    case False
    with assms c obtain k where k: "copy_out_loop (c2_message s) (nat off + 0) (pr_mem pr) (buffer + 0) len 0 = Some (m, k)"
      "off' = off + int k" "ret = int k" by (auto simp: device_read_body_def split: option.splits)
    have "0 \<le> off" using c by (auto simp: rd_def split: if_splits)
    let ?pr = "pr\<lparr>pr_place := In_Read caller buffer (0 + len) (int (nat off)) 0\<rparr>"
    have "c2_own (pr, s) (?pr, s)" using assms(2) c False \<open>0 \<le> off\<close> by (simp add: c2_own_def)
    moreover have "reachable c2_own (?pr, s) (read_done caller buffer (int (nat off) + int k) k (?pr\<lparr>pr_mem := m\<rparr>), s)"
      using k(1) by (intro read_loop_alone [where i = 0 and n = len]) simp_all
    moreover have "read_done caller buffer (int (nat off) + int k) k (?pr\<lparr>pr_mem := m\<rparr>) =
        read_done caller buffer off' k (pr\<lparr>pr_mem := m\<rparr>)" using k(2) \<open>0 \<le> off\<close> by (cases caller) simp_all
    ultimately show ?thesis using k(3) by (auto intro: reachable_step_first)
  qed
qed

text \<open>An ioctl that finds the device free and runs alone computes what \<open>chardev2_device_ioctl\<close> does.\<close>

lemma leave_alone:
  "pr_place pr = Leaving ret \<Longrightarrow> reachable c2_own x (pr, s) \<Longrightarrow>
    reachable c2_own x (pr\<lparr>pr_place := Returning ret\<rparr>, s\<lparr>c2_already_open := CDEV_NOT_USED\<rparr>)"
  by (erule reachable.step) (simp add: c2_own_def)

lemma ioctl_alone:
  assumes call: "chardev2_device_ioctl s (pr_mem pr) cmd param = Some (s', m, ret)"
    and free: "c2_already_open s = CDEV_NOT_USED"
  shows "reachable c2_own (c2_enter (Call_Ioctl cmd param) pr s) (pr\<lparr>pr_mem := m, pr_place := Returning ret\<rparr>, s')"
proof -
  let ?s = "s\<lparr>c2_already_open := CDEV_EXCLUSIVE_OPEN\<rparr>" and ?pr = "pr\<lparr>pr_place := In_Ioctl cmd param\<rparr>"
  have enter: "c2_enter (Call_Ioctl cmd param) pr s = (?pr, ?s)" using free by simp
  note start = reachable_step_first [where s = "(?pr, ?s)" and step = c2_own]
  show ?thesis unfolding enter
  proof (cases cmd)
    case IOCTL_SET_MSG
    let ?i = "set_msg_scan (pr_mem pr) param (fst (get_user param (pr_mem pr))) 0"
    let ?w = "pr\<lparr>pr_place := In_Write From_Ioctl param ?i 0\<rparr>"
    from call free IOCTL_SET_MSG obtain message k where
      w: "copy_in_loop chardev2_BUF_LEN (c2_message ?s) (pr_mem ?w) param ?i 0 = Some (message, k)"
      and res: "s' = ?s\<lparr>c2_message := message, c2_already_open := CDEV_NOT_USED\<rparr>" "m = pr_mem pr" "ret = 0"
      by (auto simp: chardev2_device_ioctl_def chardev2_device_write_def Let_def split: option.splits)
    have "c2_own (?pr, ?s) (?w, ?s)" using IOCTL_SET_MSG by (simp add: c2_own_def Let_def)
    from start [OF this write_alone [OF w]]
    have "reachable c2_own (?pr, ?s) (pr\<lparr>pr_place := Leaving 0\<rparr>, ?s\<lparr>c2_message := message\<rparr>)" by simp
    from leave_alone [OF _ this] show "reachable c2_own (?pr, ?s) (pr\<lparr>pr_mem := m, pr_place := Returning ret\<rparr>, s')"
      using res by simp
  next
    case IOCTL_GET_MSG
    let ?r = "pr\<lparr>pr_place := Read_Test From_Ioctl param 99 0\<rparr>"
    from call free IOCTL_GET_MSG obtain m1 off i where
      r: "device_read_body (c2_message ?s) (pr_mem ?r) param 99 0 = Some (m1, off, i)"
      and res: "s' = ?s\<lparr>c2_already_open := CDEV_NOT_USED\<rparr>" "m = fst (put_user NUL (param + nat i) m1)" "ret = 0"
      by (auto simp: chardev2_device_ioctl_def chardev2_device_read_def Let_def split: option.splits)
    have "c2_own (?pr, ?s) (?r, ?s)" using IOCTL_GET_MSG by (simp add: c2_own_def)
    from start [OF this read_alone [OF r, THEN conjunct1]]
    have "reachable c2_own (?pr, ?s) (pr\<lparr>pr_mem := m, pr_place := Leaving 0\<rparr>, ?s)" using res(2) by simp
    from leave_alone [OF _ this] show "reachable c2_own (?pr, ?s) (pr\<lparr>pr_mem := m, pr_place := Returning ret\<rparr>, s')"
      using res by simp
  next
    case IOCTL_GET_NTH_BYTE
    from call free IOCTL_GET_NTH_BYTE obtain c where c: "rd (c2_message ?s) (int param) = Some c"
      and res: "s' = ?s\<lparr>c2_already_open := CDEV_NOT_USED\<rparr>" "m = pr_mem pr" "ret = char_long c"
      by (auto simp: chardev2_device_ioctl_def Let_def simp del: rd_nat)
    have "c2_own (?pr, ?s) (pr\<lparr>pr_place := Leaving (char_long c)\<rparr>, ?s)"
      using IOCTL_GET_NTH_BYTE c by (simp add: c2_own_def del: rd_nat)
    from leave_alone [OF _ start [OF this reachable.start]]
    show "reachable c2_own (?pr, ?s) (pr\<lparr>pr_mem := m, pr_place := Returning ret\<rparr>, s')" using res by simp
  next
    case (OTHER_CMD n)
    from call free OTHER_CMD have res: "s' = ?s\<lparr>c2_already_open := CDEV_NOT_USED\<rparr>" "m = pr_mem pr" "ret = 0"
      by (auto simp: chardev2_device_ioctl_def Let_def)
    have "c2_own (?pr, ?s) (pr\<lparr>pr_place := Leaving 0\<rparr>, ?s)" using OTHER_CMD by (simp add: c2_own_def)
    from leave_alone [OF _ start [OF this reachable.start]]
    show "reachable c2_own (?pr, ?s) (pr\<lparr>pr_mem := m, pr_place := Returning ret\<rparr>, s')" using res by simp
  qed
qed

subsection \<open>Any number of threads\<close>

record c2sys =
  c2_dev :: chardev2
  c2_procs :: "nat \<Rightarrow> c2proc"

definition c2_sys_start :: "chardev2 \<Rightarrow> (nat \<Rightarrow> umem) \<Rightarrow> c2sys" where
  "c2_sys_start s mems = \<lparr>c2_dev = s, c2_procs = (\<lambda>p. \<lparr>pr_place = Outside, pr_mem = mems p, pr_off = 0\<rparr>)\<rparr>"

definition c2_put :: "c2sys \<Rightarrow> nat \<Rightarrow> c2proc \<Rightarrow> chardev2 \<Rightarrow> c2sys" where
  "c2_put S p pr s = S\<lparr>c2_dev := s, c2_procs := (c2_procs S)(p := pr)\<rparr>"

lemma c2_put_sel [simp]:
  "c2_dev (c2_put S p pr s) = s" "c2_procs (c2_put S p pr s) = (c2_procs S)(p := pr)"
  by (simp_all add: c2_put_def)

text \<open>What can be seen of a step from outside the module.\<close>

datatype c2label = Begins nat c2call | Returns nat int | Internal

text \<open>
  The index of \<open>IOCTL_GET_NTH_BYTE\<close> is not checked. The steps below let a process call with any; the
  condition that it names a byte of the array is a hypothesis of the theorems that need it.
\<close>

fun call_ok :: "c2call \<Rightarrow> bool" where
  "call_ok (Call_Ioctl IOCTL_GET_NTH_BYTE param) \<longleftrightarrow> param \<le> chardev2_BUF_LEN"
| "call_ok _ \<longleftrightarrow> True"

inductive c2_turn :: "c2sys \<Rightarrow> c2label \<Rightarrow> c2sys \<Rightarrow> bool" where
  enter: "pr_place (c2_procs S p) = Outside \<Longrightarrow>
    c2_enter call (c2_procs S p) (c2_dev S) = (pr, s) \<Longrightarrow> c2_turn S (Begins p call) (c2_put S p pr s)"
| own: "c2_own (c2_procs S p, c2_dev S) (pr, s) \<Longrightarrow> c2_turn S Internal (c2_put S p pr s)"
| return: "pr_place (c2_procs S p) = Returning ret \<Longrightarrow>
    c2_turn S (Returns p ret) (c2_put S p ((c2_procs S p)\<lparr>pr_place := Outside\<rparr>) (c2_dev S))"

text \<open>A thread between the compare-and-exchange and the clearing of \<open>already_open\<close>.\<close>

fun in_ioctl :: "c2place \<Rightarrow> bool" where
  "in_ioctl (In_Ioctl cmd param) \<longleftrightarrow> True"
| "in_ioctl (In_Write caller buffer len i) \<longleftrightarrow> caller = From_Ioctl"
| "in_ioctl (Read_Test caller buffer len off) \<longleftrightarrow> caller = From_Ioctl"
| "in_ioctl (In_Read caller buffer len off i) \<longleftrightarrow> caller = From_Ioctl"
| "in_ioctl (Leaving ret) \<longleftrightarrow> True"
| "in_ioctl _ \<longleftrightarrow> False"

definition pos_ok :: "int \<Rightarrow> bool" where
  "pos_ok off \<longleftrightarrow> 0 \<le> off \<and> off \<le> int chardev2_BUF_LEN"

lemma pos_ok_0 [simp]: "pos_ok 0"
  by (simp add: pos_ok_def)

fun c2_place_ok :: "c2place \<Rightarrow> bool" where
  "c2_place_ok (In_Ioctl cmd param) \<longleftrightarrow> call_ok (Call_Ioctl cmd param)"
| "c2_place_ok (Read_Test caller buffer len off) \<longleftrightarrow> pos_ok off"
| "c2_place_ok (In_Read caller buffer len off i) \<longleftrightarrow> 0 \<le> off \<and> pos_ok (off + int i)"
| "c2_place_ok _ \<longleftrightarrow> True"

definition proc_ok :: "c2proc \<Rightarrow> bool" where
  "proc_ok pr \<longleftrightarrow> c2_place_ok (pr_place pr) \<and> pos_ok (pr_off pr)"

definition c2_threads_inv :: "c2sys \<Rightarrow> bool" where
  "c2_threads_inv S \<longleftrightarrow> chardev2_inv (c2_dev S) \<and> (\<forall>p. proc_ok (c2_procs S p)) \<and>
     (\<forall>p q. in_ioctl (pr_place (c2_procs S p)) \<longrightarrow> in_ioctl (pr_place (c2_procs S q)) \<longrightarrow> p = q) \<and>
     (c2_already_open (c2_dev S) = CDEV_EXCLUSIVE_OPEN \<longleftrightarrow> (\<exists>p. in_ioctl (pr_place (c2_procs S p))))"

lemma inv_rd:
  assumes "chardev2_inv s" and "pos_ok off"
  shows "\<exists>c. rd (c2_message s) off = Some c \<and> (c \<noteq> NUL \<longrightarrow> pos_ok (off + 1))"
proof -
  have "off \<noteq> int chardev2_BUF_LEN" if "c2_message s ! nat off \<noteq> NUL"
    using that assms(1) by (auto simp: chardev2_inv_def)
  with assms show ?thesis by (auto simp: rd_def chardev2_inv_def pos_ok_def)
qed

lemma inv_wr:
  assumes "chardev2_inv s" and "i < chardev2_BUF_LEN" and "wr (c2_message s) (int i) c = Some message"
  shows "chardev2_inv (s\<lparr>c2_message := message\<rparr>)"
  using assms by (auto simp: chardev2_inv_def split: if_splits)

lemma wrote_sel [simp]:
  "in_ioctl (pr_place (wrote caller i pr)) \<longleftrightarrow> caller = From_Ioctl" "proc_ok (wrote caller i pr) \<longleftrightarrow> pos_ok (pr_off pr)"
  by (cases caller; simp add: proc_ok_def)+

lemma read_done_sel [simp]:
  "in_ioctl (pr_place (read_done caller buffer off i pr)) \<longleftrightarrow> caller = From_Ioctl"
  "pos_ok off \<Longrightarrow> pos_ok (pr_off pr) \<Longrightarrow> proc_ok (read_done caller buffer off i pr)"
  by (cases caller; simp add: proc_ok_def)+

text \<open>The state a step leaves, whatever other threads have done to the message.\<close>

definition next_ok :: "c2place \<Rightarrow> chardev2 \<Rightarrow> (c2proc \<times> chardev2) option \<Rightarrow> bool" where
  "next_ok place s r \<longleftrightarrow> (\<exists>pr' s'. r = Some (pr', s') \<and> proc_ok pr' \<and> chardev2_inv s' \<and>
     (if \<exists>ret. place = Leaving ret then c2_already_open s' = CDEV_NOT_USED \<and> \<not> in_ioctl (pr_place pr')
      else c2_already_open s' = c2_already_open s \<and> (in_ioctl (pr_place pr') \<longleftrightarrow> in_ioctl place)))"

lemma c2_next_ok:
  assumes I: "chardev2_inv s" and "proc_ok pr" and "inside (pr_place pr)"
  shows "next_ok (pr_place pr) s (c2_next (pr_place pr) pr s)"
proof (cases "pr_place pr")
  case (In_Ioctl cmd param)
  with assms show ?thesis
    by (cases cmd) (auto simp: next_ok_def proc_ok_def chardev2_inv_def Let_def)
next
  case (In_Write caller buffer len i)
  show ?thesis
  proof (cases "i < len \<and> i < chardev2_BUF_LEN")
    case True
    then obtain message where "wr (c2_message s) (int i) (fst (get_user (buffer + i) (pr_mem pr))) = Some message"
      using I by (auto simp: chardev2_inv_def)
    with inv_wr [OF I _ this] True In_Write assms(2) show ?thesis
      by (simp add: next_ok_def proc_ok_def del: wr_nat)
  next
    case False
    with In_Write assms show ?thesis by (simp add: next_ok_def if_not_P [OF False]) (simp add: proc_ok_def)
  qed
next
  case (Read_Test caller buffer len off)
  with assms(2) have "pos_ok off" "pos_ok (pr_off pr)" by (simp_all add: proc_ok_def)
  moreover from inv_rd [OF I this(1)] obtain c where "rd (c2_message s) off = Some c" by blast
  ultimately show ?thesis using Read_Test I by (simp add: next_ok_def) (simp add: proc_ok_def pos_ok_def)
next
  case (In_Read caller buffer len off i)
  with assms(2) have pos: "0 \<le> off" "pos_ok (off + int i)" "pos_ok (pr_off pr)" by (simp_all add: proc_ok_def)
  from inv_rd [OF I pos(2)] obtain c where c: "rd (c2_message s) (off + int i) = Some c"
    "c \<noteq> NUL \<Longrightarrow> pos_ok (off + int (Suc i))" by (auto simp: algebra_simps)
  show ?thesis
  proof (cases "i < len \<and> c \<noteq> NUL")
    case True
    with c In_Read I pos show ?thesis by (simp add: next_ok_def proc_ok_def)
  next
    case False
    with c(1) In_Read I pos show ?thesis by (cases "i < len") (simp_all add: next_ok_def)
  qed
next
  case (Leaving ret)
  with assms show ?thesis by (simp add: next_ok_def proc_ok_def chardev2_inv_def)
qed (use assms(3) in simp_all)

lemma c2_enter_ok:
  assumes "chardev2_inv s" and "proc_ok pr" and "call_ok call" and "c2_enter call pr s = (pr', s')"
  shows "proc_ok pr'" and "chardev2_inv s'"
    and "\<not> in_ioctl (pr_place pr') \<Longrightarrow> c2_already_open s' = c2_already_open s"
    and "in_ioctl (pr_place pr') \<Longrightarrow> c2_already_open s = CDEV_NOT_USED \<and> c2_already_open s' = CDEV_EXCLUSIVE_OPEN"
  using assms
  by (cases call; cases "c2_already_open s"; auto simp: proc_ok_def chardev2_inv_def atomic_cmpxchg_def)+

text \<open>Putting a thread back that is in an ioctl exactly if the flag was taken for it keeps the invariant.\<close>

lemma c2_inv_put:
  assumes I: "c2_threads_inv S" and "chardev2_inv s" and "proc_ok pr"
    and "in_ioctl (pr_place pr) \<Longrightarrow>
      c2_already_open s = CDEV_EXCLUSIVE_OPEN \<and> (\<forall>q. q \<noteq> p \<longrightarrow> \<not> in_ioctl (pr_place (c2_procs S q)))"
    and "\<not> in_ioctl (pr_place pr) \<Longrightarrow> c2_already_open s =
      (if in_ioctl (pr_place (c2_procs S p)) then CDEV_NOT_USED else c2_already_open (c2_dev S))"
  shows "c2_threads_inv (c2_put S p pr s)"
proof -
  let ?io = "\<lambda>q. in_ioctl (pr_place (c2_procs S q))"
  have uniq: "?io q \<Longrightarrow> ?io r \<Longrightarrow> q = r" for q r using I unfolding c2_threads_inv_def by blast
  have flag: "c2_already_open (c2_dev S) = CDEV_EXCLUSIVE_OPEN \<longleftrightarrow> (\<exists>q. ?io q)"
    using I unfolding c2_threads_inv_def by blast
  have "proc_ok (((c2_procs S)(p := pr)) q)" for q
    using I assms(3) by (simp add: c2_threads_inv_def)
  moreover have "q = r" if "in_ioctl (pr_place (((c2_procs S)(p := pr)) q))"
    "in_ioctl (pr_place (((c2_procs S)(p := pr)) r))" for q r
    using that assms(4) uniq [of q r] by (cases "q = p"; cases "r = p") auto
  moreover have "c2_already_open s = CDEV_EXCLUSIVE_OPEN \<longleftrightarrow>
      (\<exists>q. in_ioctl (pr_place (((c2_procs S)(p := pr)) q)))"
  proof (cases "in_ioctl (pr_place pr)")
    case True
    with assms(4) show ?thesis by (auto intro: exI [of _ p])
  next
    case False
    show ?thesis
    proof (cases "?io p")
      case True
      then have "\<not> ?io q" if "q \<noteq> p" for q using uniq that by blast
      with True False assms(5) show ?thesis by auto
    next
      case not_p: False
      with False assms(5) have "c2_already_open s = c2_already_open (c2_dev S)" by simp
      moreover have "in_ioctl (pr_place (((c2_procs S)(p := pr)) q)) \<longleftrightarrow> ?io q" for q using not_p False by simp
      ultimately show ?thesis using flag by simp
    qed
  qed
  ultimately show ?thesis using assms(2) unfolding c2_threads_inv_def c2_put_sel by blast
qed

lemma c2_threads_invD:
  assumes "c2_threads_inv S"
  shows "chardev2_inv (c2_dev S)" and "proc_ok (c2_procs S p)"
    and "in_ioctl (pr_place (c2_procs S p)) \<Longrightarrow> in_ioctl (pr_place (c2_procs S q)) \<Longrightarrow> p = q"
    and "c2_already_open (c2_dev S) = CDEV_EXCLUSIVE_OPEN \<longleftrightarrow> (\<exists>p. in_ioctl (pr_place (c2_procs S p)))"
  using assms unfolding c2_threads_inv_def by blast+

definition label_ok :: "c2label \<Rightarrow> bool" where
  "label_ok l \<longleftrightarrow> (\<forall>p call. l = Begins p call \<longrightarrow> call_ok call)"

lemma c2_turn_inv: "c2_turn S l T \<Longrightarrow> c2_threads_inv S \<Longrightarrow> label_ok l \<Longrightarrow> c2_threads_inv T"
proof (induction rule: c2_turn.induct)
  case (enter S p call pr s)
  note D = c2_threads_invD [OF enter.prems(1)]
  have "call_ok call" using enter.prems(2) by (simp add: label_ok_def)
  note ok = c2_enter_ok [OF D(1) D(2) this enter.hyps(2)]
  show ?case
  proof (rule c2_inv_put [OF enter.prems(1) ok(2,1)])
    assume "in_ioctl (pr_place pr)"
    with ok(4) D(4) show "c2_already_open s = CDEV_EXCLUSIVE_OPEN \<and>
        (\<forall>q. q \<noteq> p \<longrightarrow> \<not> in_ioctl (pr_place (c2_procs S q)))" by auto
  qed (use ok(3) enter.hyps(1) in simp)
next
  case (own S p pr s)
  note D = c2_threads_invD [OF own.prems(1)]
  have "inside (pr_place (c2_procs S p))" "c2_next (pr_place (c2_procs S p)) (c2_procs S p) (c2_dev S) = Some (pr, s)"
    using own.hyps by (simp_all add: c2_own_def)
  with c2_next_ok [OF D(1) D(2) this(1)] have ok: "proc_ok pr" "chardev2_inv s"
    "if \<exists>ret. pr_place (c2_procs S p) = Leaving ret then c2_already_open s = CDEV_NOT_USED \<and> \<not> in_ioctl (pr_place pr)
      else c2_already_open s = c2_already_open (c2_dev S) \<and>
        (in_ioctl (pr_place pr) \<longleftrightarrow> in_ioctl (pr_place (c2_procs S p)))"
    unfolding next_ok_def by auto
  show ?case
  proof (rule c2_inv_put [OF own.prems(1) ok(2,1)])
    assume "in_ioctl (pr_place pr)"
    with ok(3) have "in_ioctl (pr_place (c2_procs S p))" "c2_already_open s = c2_already_open (c2_dev S)"
      by (auto split: if_splits)
    with D(3,4) show "c2_already_open s = CDEV_EXCLUSIVE_OPEN \<and>
        (\<forall>q. q \<noteq> p \<longrightarrow> \<not> in_ioctl (pr_place (c2_procs S q)))" by metis
  next
    assume "\<not> in_ioctl (pr_place pr)"
    with ok(3) show "c2_already_open s =
        (if in_ioctl (pr_place (c2_procs S p)) then CDEV_NOT_USED else c2_already_open (c2_dev S))"
      by (auto split: if_splits)
  qed
next
  case (return S p ret)
  note D = c2_threads_invD [OF return.prems(1)]
  show ?case
    using D(1) D(2) [of p] return.hyps by (intro c2_inv_put [OF return.prems(1)]) (simp_all add: proc_ok_def)
qed

lemma c2_start_inv:
  "chardev2_inv s \<Longrightarrow> c2_already_open s = CDEV_NOT_USED \<Longrightarrow> c2_threads_inv (c2_sys_start s mems)"
  by (simp add: c2_threads_inv_def c2_sys_start_def proc_ok_def)

lemma c2_trace_inv:
  "trace c2_turn S ls T \<Longrightarrow> c2_threads_inv S \<Longrightarrow> \<forall>l\<in>set ls. label_ok l \<Longrightarrow> c2_threads_inv T"
  by (induction rule: trace.induct) (auto intro: c2_turn_inv)

lemma nth_byte_stuck:
  assumes "\<not> call_ok call" and "chardev2_inv s" and "c2_already_open s = CDEV_NOT_USED"
    and "c2_enter call pr s = (pr', s')"
  shows "inside (pr_place pr') \<and> c2_next (pr_place pr') pr' s' = None"
proof -
  obtain param where "call = Call_Ioctl IOCTL_GET_NTH_BYTE param" "chardev2_BUF_LEN < param"
    using assms(1) by (cases call rule: call_ok.cases) auto
  with assms(2-4) show ?thesis by (auto simp: chardev2_inv_def)
qed

text \<open>
  C15: let processes read (at their file's own offset), write and use the ioctls of chardev2.c all at
  once, byte by byte in any order, with no other condition than that each \<open>IOCTL_GET_NTH_BYTE\<close> asks for
  one of the 81 bytes of the array. Then the next step of a process inside is always defined, so none
  accesses anything outside the message or is kept inside for ever by the others; never are two of them
  inside an ioctl, the flag is taken exactly while one is, and the message stays terminated. The
  condition is needed: at any time when the flag is free, a call with a larger index gets in, and
  its next step reads outside the message.
\<close>

theorem chardev2_threads_safe:
  assumes "trace c2_turn (c2_sys_start chardev2_start mems) ls S"
    and "\<forall>p call. Begins p call \<in> set ls \<longrightarrow> call_ok call"
  shows "(\<forall>p. inside (pr_place (c2_procs S p)) \<longrightarrow>
      (\<exists>pr s. c2_own (c2_procs S p, c2_dev S) (pr, s) \<and> c2_turn S Internal (c2_put S p pr s))) \<and>
    (\<forall>p q. in_ioctl (pr_place (c2_procs S p)) \<longrightarrow> in_ioctl (pr_place (c2_procs S q)) \<longrightarrow> p = q) \<and>
    (c2_already_open (c2_dev S) = CDEV_EXCLUSIVE_OPEN \<longleftrightarrow> (\<exists>p. in_ioctl (pr_place (c2_procs S p)))) \<and>
    length (c2_message (c2_dev S)) = chardev2_BUF_LEN + 1 \<and> terminated (c2_message (c2_dev S)) \<and>
    (\<forall>p call pr s. pr_place (c2_procs S p) = Outside \<longrightarrow> c2_already_open (c2_dev S) = CDEV_NOT_USED \<longrightarrow>
      \<not> call_ok call \<longrightarrow> c2_enter call (c2_procs S p) (c2_dev S) = (pr, s) \<longrightarrow>
      c2_turn S (Begins p call) (c2_put S p pr s) \<and> inside (pr_place pr) \<and> c2_next (pr_place pr) pr s = None)"
proof -
  have "\<forall>l\<in>set ls. label_ok l" using assms(2) by (auto simp: label_ok_def)
  then have I: "c2_threads_inv S"
    using c2_trace_inv [OF assms(1) c2_start_inv] by (simp add: chardev2_start_def [THEN arg_cong, of c2_already_open])
  note D = c2_threads_invD [OF I]
  have "\<exists>pr s. c2_own (c2_procs S p, c2_dev S) (pr, s) \<and> c2_turn S Internal (c2_put S p pr s)"
    if "inside (pr_place (c2_procs S p))" for p
  proof -
    from c2_next_ok [OF D(1) D(2) that] obtain pr s where
      "c2_next (pr_place (c2_procs S p)) (c2_procs S p) (c2_dev S) = Some (pr, s)" by (auto simp: next_ok_def)
    with that have "c2_own (c2_procs S p, c2_dev S) (pr, s)" by (simp add: c2_own_def)
    then show ?thesis by (blast intro: c2_turn.own)
  qed
  moreover have "c2_turn S (Begins p call) (c2_put S p pr s) \<and> inside (pr_place pr) \<and> c2_next (pr_place pr) pr s = None"
    if "pr_place (c2_procs S p) = Outside" "c2_already_open (c2_dev S) = CDEV_NOT_USED" "\<not> call_ok call"
      "c2_enter call (c2_procs S p) (c2_dev S) = (pr, s)" for p call pr s
    using c2_turn.enter [OF that(1,4)] nth_byte_stuck [OF that(3) D(1) that(2,4)] by blast
  moreover have "length (c2_message (c2_dev S)) = chardev2_BUF_LEN + 1" using D(1) by (simp add: chardev2_inv_def)
  ultimately show ?thesis using D(3,4) chardev2_terminated [OF D(1)] by blast
qed

subsection \<open>Ioctls take effect one at a time\<close>

text \<open>
  The device as processes are meant to see it: an ioctl is done at once, or is turned away because
  another one has not returned yet.
\<close>

record c2spec =
  sp_dev :: chardev2
  sp_mems :: "nat \<Rightarrow> umem"
  sp_ret :: "nat \<Rightarrow> int option"    \<comment> \<open>the result of a call that has not returned\<close>

inductive c2_spec_step :: "c2spec \<Rightarrow> c2label \<Rightarrow> c2spec \<Rightarrow> bool" where
  done_at_once: "sp_ret A p = None \<Longrightarrow>
    chardev2_device_ioctl (sp_dev A) (sp_mems A p) cmd param = Some (s, m, ret) \<Longrightarrow>
    c2_spec_step A (Begins p (Call_Ioctl cmd param))
      (A\<lparr>sp_dev := s, sp_mems := (sp_mems A)(p := m), sp_ret := (sp_ret A)(p \<mapsto> ret)\<rparr>)"
| turned_away: "sp_ret A p = None \<Longrightarrow> sp_ret A q \<noteq> None \<Longrightarrow>
    c2_spec_step A (Begins p (Call_Ioctl cmd param)) (A\<lparr>sp_ret := (sp_ret A)(p \<mapsto> - EBUSY)\<rparr>)"
| returns: "sp_ret A p = Some ret \<Longrightarrow> c2_spec_step A (Returns p ret) (A\<lparr>sp_ret := (sp_ret A)(p := None)\<rparr>)"
| internal: "c2_spec_step A Internal A"

text \<open>The module when no process reads or writes its file, and none asks for a byte that is not there.\<close>

definition ioctl_ok :: "c2call \<Rightarrow> bool" where
  "ioctl_ok call \<longleftrightarrow> call_ok call \<and> (\<exists>cmd param. call = Call_Ioctl cmd param)"

definition c2_ioctl_turn :: "c2sys \<Rightarrow> c2label \<Rightarrow> c2sys \<Rightarrow> bool" where
  "c2_ioctl_turn S l T \<longleftrightarrow> c2_turn S l T \<and> (\<forall>p call. l = Begins p call \<longrightarrow> ioctl_ok call)"

lemma c2_ioctl_trace:
  "trace c2_turn S ls T \<Longrightarrow> \<forall>p call. Begins p call \<in> set ls \<longrightarrow> ioctl_ok call \<Longrightarrow> trace c2_ioctl_turn S ls T"
proof (induction rule: trace.induct)
  case nil
  show ?case by (rule trace.nil)
next
  case (snoc ls s l t)
  then have "c2_ioctl_turn s l t" by (simp add: c2_ioctl_turn_def)
  with snoc show ?case by (auto intro: trace.snoc)
qed

text \<open>
  A process inside has, for the specification, had its effect already: the state it will come to if it
  runs on alone is the specification's.
\<close>

definition proc_rel :: "chardev2 \<Rightarrow> c2proc \<Rightarrow> c2spec \<Rightarrow> nat \<Rightarrow> bool" where
  "proc_rel s pr A p \<longleftrightarrow>
     (case pr_place pr of
        Outside \<Rightarrow> sp_ret A p = None \<and> sp_mems A p = pr_mem pr
      | Returning ret \<Rightarrow> sp_ret A p = Some ret \<and> sp_mems A p = pr_mem pr
      | _ \<Rightarrow> in_ioctl (pr_place pr) \<and> (\<exists>fin ret. reachable c2_own (pr, s) (fin, sp_dev A) \<and>
          pr_place fin = Returning ret \<and> sp_ret A p = Some ret \<and> sp_mems A p = pr_mem fin))"

lemma proc_rel_simps:
  "pr_place pr = Outside \<Longrightarrow> proc_rel s pr A p \<longleftrightarrow> sp_ret A p = None \<and> sp_mems A p = pr_mem pr"
  "pr_place pr = Returning ret \<Longrightarrow> proc_rel s pr A p \<longleftrightarrow> sp_ret A p = Some ret \<and> sp_mems A p = pr_mem pr"
  "inside (pr_place pr) \<Longrightarrow> proc_rel s pr A p \<longleftrightarrow> in_ioctl (pr_place pr) \<and>
    (\<exists>fin ret. reachable c2_own (pr, s) (fin, sp_dev A) \<and> pr_place fin = Returning ret \<and>
       sp_ret A p = Some ret \<and> sp_mems A p = pr_mem fin)"
  by (cases "pr_place pr"; simp add: proc_rel_def)+

definition c2_rel :: "c2sys \<Rightarrow> c2spec \<Rightarrow> bool" where
  "c2_rel S A \<longleftrightarrow> c2_threads_inv S \<and> (\<forall>p. proc_rel (c2_dev S) (c2_procs S p) A p) \<and>
     chardev2_inv (sp_dev A) \<and> c2_already_open (sp_dev A) = CDEV_NOT_USED \<and>
     ((\<forall>p. \<not> in_ioctl (pr_place (c2_procs S p))) \<longrightarrow> sp_dev A = c2_dev S)"

lemma inside_or: "inside place \<or> place = Outside \<or> (\<exists>ret. place = Returning ret)"
  by (cases place) auto

text \<open>A thread that is not inside, or whose part of the specification stays, stays related.\<close>

lemma proc_rel_other:
  assumes "proc_rel s pr A q" and "\<not> inside (pr_place pr)" and "sp_ret B q = sp_ret A q"
    and "sp_mems B q = sp_mems A q"
  shows "proc_rel t pr B q"
  using assms inside_or [of "pr_place pr"] by (auto simp: proc_rel_simps)

lemma proc_rel_cong:
  "proc_rel s pr A q \<Longrightarrow> sp_dev B = sp_dev A \<Longrightarrow> sp_ret B q = sp_ret A q \<Longrightarrow> sp_mems B q = sp_mems A q \<Longrightarrow>
    proc_rel s pr B q"
  by (cases "pr_place pr") (simp_all add: proc_rel_def)

lemma proc_rel_ioctl: "proc_rel s pr A q \<Longrightarrow> inside (pr_place pr) \<Longrightarrow> in_ioctl (pr_place pr)"
  by (simp add: proc_rel_simps)

lemma in_ioctl_inside: "in_ioctl place \<Longrightarrow> inside place"
  by (cases place) auto

text \<open>A step of a thread that is alone is determined by its state.\<close>

lemma reachable_first: "reachable step x z \<Longrightarrow> x = z \<or> (\<exists>y. step x y \<and> reachable step y z)"
  by (induction rule: reachable.induct) (auto intro: reachable.intros)

lemma own_future:
  assumes "reachable c2_own x (fin, s)" and "c2_own x y" and "pr_place fin = Returning ret"
  shows "reachable c2_own y (fin, s)"
proof -
  have "x \<noteq> (fin, s)" using assms(2,3) by (auto simp: c2_own_def)
  with reachable_first [OF assms(1)] obtain z where "c2_own x z" "reachable c2_own z (fin, s)" by blast
  moreover from this(1) assms(2) have "z = y" by (simp add: c2_own_def)
  ultimately show ?thesis by simp
qed

lemma ioctl_defined:
  assumes I: "chardev2_inv s" and free: "c2_already_open s = CDEV_NOT_USED" and "call_ok (Call_Ioctl cmd param)"
  shows "\<exists>s' m' ret. chardev2_device_ioctl s m cmd param = Some (s', m', ret) \<and> chardev2_inv s' \<and>
    c2_already_open s' = CDEV_NOT_USED"
proof -
  let ?s = "s\<lparr>c2_already_open := CDEV_EXCLUSIVE_OPEN\<rparr>"
  have I1: "chardev2_inv ?s" using I by (simp add: chardev2_inv_def)
  show ?thesis
  proof (cases cmd)
    case IOCTL_SET_MSG
    define i where "i = set_msg_scan m param (fst (get_user param m)) 0"
    obtain t n where w: "chardev2_device_write ?s m param i = Some (t, n)"
      using chardev2_write_eq [OF I1, of m param i] by (simp add: Let_def)
    from chardev2_write_inv [OF I1 w] w IOCTL_SET_MSG free show ?thesis
      by (auto simp: chardev2_device_ioctl_def Let_def i_def [symmetric] chardev2_inv_def)
  next
    case IOCTL_GET_MSG
    obtain m' off n where "device_read_body (c2_message s) m param 99 0 = Some (m', off, n)"
      using device_read_body_safe [of 0 chardev2_BUF_LEN "c2_message s" m param 99] I
      by (auto simp: chardev2_inv_def)
    with IOCTL_GET_MSG free I show ?thesis
      by (simp add: chardev2_device_ioctl_def chardev2_device_read_def Let_def chardev2_inv_def)
  next
    case IOCTL_GET_NTH_BYTE
    with assms show ?thesis by (simp add: chardev2_device_ioctl_def Let_def chardev2_inv_def)
  next
    case (OTHER_CMD n)
    with assms show ?thesis by (simp add: chardev2_device_ioctl_def Let_def chardev2_inv_def)
  qed
qed

lemma c2_rel_put:
  assumes "c2_threads_inv (c2_put S p pr s)" and "proc_rel s pr B p"
    and "\<And>q. q \<noteq> p \<Longrightarrow> proc_rel s (c2_procs S q) B q"
    and "chardev2_inv (sp_dev B)" and "c2_already_open (sp_dev B) = CDEV_NOT_USED"
    and "(\<forall>q. \<not> in_ioctl (pr_place (((c2_procs S)(p := pr)) q))) \<Longrightarrow> sp_dev B = s"
  shows "c2_rel (c2_put S p pr s) B"
  using assms unfolding c2_rel_def by simp

lemma c2_rel_enter:
  assumes R: "c2_rel S A" and out: "pr_place (c2_procs S p) = Outside" and ok: "call_ok (Call_Ioctl cmd param)"
    and enter: "c2_enter (Call_Ioctl cmd param) (c2_procs S p) (c2_dev S) = (pr, s)"
    and J: "c2_threads_inv (c2_put S p pr s)"
  shows "\<exists>B. c2_spec_step A (Begins p (Call_Ioctl cmd param)) B \<and> c2_rel (c2_put S p pr s) B"
proof -
  have I: "c2_threads_inv S" and rel: "proc_rel (c2_dev S) (c2_procs S q) A q" for q
    using R unfolding c2_rel_def by blast+
  note D = c2_threads_invD [OF I]
  have mine: "sp_ret A p = None" "sp_mems A p = pr_mem (c2_procs S p)"
    using rel [of p] out by (simp_all add: proc_rel_simps)
  have Adev: "chardev2_inv (sp_dev A)" "c2_already_open (sp_dev A) = CDEV_NOT_USED"
    using R unfolding c2_rel_def by blast+
  show ?thesis
  proof (cases "c2_already_open (c2_dev S)")
    case CDEV_NOT_USED
    with D(4) have none: "\<not> in_ioctl (pr_place (c2_procs S q))" for q by auto
    then have dev: "sp_dev A = c2_dev S" using R unfolding c2_rel_def by blast
    from ioctl_defined [OF D(1) CDEV_NOT_USED ok] obtain s' m' ret where
      call: "chardev2_device_ioctl (c2_dev S) (pr_mem (c2_procs S p)) cmd param = Some (s', m', ret)"
      and s': "chardev2_inv s'" "c2_already_open s' = CDEV_NOT_USED" by blast
    let ?B = "A\<lparr>sp_dev := s', sp_mems := (sp_mems A)(p := m'), sp_ret := (sp_ret A)(p \<mapsto> ret)\<rparr>"
    have "c2_spec_step A (Begins p (Call_Ioctl cmd param)) ?B"
      using c2_spec_step.done_at_once [OF mine(1)] call dev mine(2) by simp
    moreover have "c2_rel (c2_put S p pr s) ?B"
    proof (rule c2_rel_put [OF J])
      have pr: "pr = (c2_procs S p)\<lparr>pr_place := In_Ioctl cmd param\<rparr>" using enter CDEV_NOT_USED by auto
      let ?fin = "(c2_procs S p)\<lparr>pr_mem := m', pr_place := Returning ret\<rparr>"
      have "reachable c2_own (pr, s) (?fin, sp_dev ?B)"
        using ioctl_alone [OF call CDEV_NOT_USED] enter by simp
      moreover have "pr_place ?fin = Returning ret \<and> sp_ret ?B p = Some ret \<and> sp_mems ?B p = pr_mem ?fin" by simp
      moreover have "inside (pr_place pr)" "in_ioctl (pr_place pr)" using pr by simp_all
      ultimately show "proc_rel s pr ?B p" unfolding proc_rel_simps(3) [OF \<open>inside (pr_place pr)\<close>] by blast
      show "proc_rel s (c2_procs S q) ?B q" if "q \<noteq> p" for q
        using proc_rel_ioctl [OF rel [of q]] none [of q] that by (intro proc_rel_other [OF rel [of q]]) auto
      show "sp_dev ?B = s" if "\<forall>q. \<not> in_ioctl (pr_place (((c2_procs S)(p := pr)) q))"
        using that [rule_format, of p] pr by simp
    qed (use s' in simp_all)
    ultimately show ?thesis by blast
  next
    case CDEV_EXCLUSIVE_OPEN
    with D(4) obtain q where q: "in_ioctl (pr_place (c2_procs S q))" by blast
    then have "sp_ret A q \<noteq> None" using rel [of q] by (auto simp: proc_rel_simps in_ioctl_inside)
    let ?B = "A\<lparr>sp_ret := (sp_ret A)(p \<mapsto> - EBUSY)\<rparr>"
    have "c2_spec_step A (Begins p (Call_Ioctl cmd param)) ?B"
      using mine(1) \<open>sp_ret A q \<noteq> None\<close> by (rule c2_spec_step.turned_away)
    moreover have pr: "pr = (c2_procs S p)\<lparr>pr_place := Returning (- EBUSY)\<rparr>" "s = c2_dev S"
      using enter CDEV_EXCLUSIVE_OPEN by auto
    have "c2_rel (c2_put S p pr s) ?B"
    proof (rule c2_rel_put [OF J])
      show "proc_rel s pr ?B p" using pr mine(2) by (simp add: proc_rel_simps)
      show "proc_rel s (c2_procs S r) ?B r" if "r \<noteq> p" for r
        unfolding pr(2) using that by (intro proc_rel_cong [OF rel [of r]]) simp_all
      show "sp_dev ?B = s" if "\<forall>q. \<not> in_ioctl (pr_place (((c2_procs S)(p := pr)) q))"
        using that [rule_format, of q] q out by (auto split: if_splits)
    qed (use Adev in simp_all)
    ultimately show ?thesis by blast
  qed
qed

lemma c2_rel_own:
  assumes R: "c2_rel S A" and own: "c2_own (c2_procs S p, c2_dev S) (pr, s)"
    and J: "c2_threads_inv (c2_put S p pr s)"
  shows "c2_rel (c2_put S p pr s) A"
proof -
  have I: "c2_threads_inv S" and rel: "proc_rel (c2_dev S) (c2_procs S q) A q" for q
    using R unfolding c2_rel_def by blast+
  note D = c2_threads_invD [OF I]
  have ins: "inside (pr_place (c2_procs S p))" using own by (simp add: c2_own_def)
  with rel [of p] obtain fin ret where io: "in_ioctl (pr_place (c2_procs S p))"
    and fin: "reachable c2_own (c2_procs S p, c2_dev S) (fin, sp_dev A)" "pr_place fin = Returning ret"
      "sp_ret A p = Some ret" "sp_mems A p = pr_mem fin" by (auto simp: proc_rel_simps)
  have future: "reachable c2_own (pr, s) (fin, sp_dev A)" using own_future [OF fin(1) own fin(2)] .
  have "next_ok (pr_place (c2_procs S p)) (c2_dev S) (Some (pr, s))"
    using c2_next_ok [OF D(1) D(2) ins] own by (simp add: c2_own_def)
  then have moved: "in_ioctl (pr_place pr) \<or> \<not> in_ioctl (pr_place pr) \<and> (\<exists>r. pr_place (c2_procs S p) = Leaving r)"
    using io by (auto simp: next_ok_def split: if_splits)
  have over: "pr = fin \<and> s = sp_dev A" if "\<not> in_ioctl (pr_place pr)"
  proof -
    from that moved own have "\<not> inside (pr_place pr)" by (auto simp: c2_own_def)
    with reachable_first [OF future] show ?thesis by (auto simp: c2_own_def)
  qed
  show ?thesis
  proof (rule c2_rel_put [OF J])
    show "proc_rel s pr A p"
    proof (cases "in_ioctl (pr_place pr)")
      case True
      with future fin show ?thesis by (auto simp: proc_rel_simps in_ioctl_inside)
    next
      case False
      with over fin show ?thesis by (simp add: proc_rel_simps)
    qed
    show "proc_rel s (c2_procs S q) A q" if "q \<noteq> p" for q
      using proc_rel_ioctl [OF rel [of q]] D(3) [OF io, of q] that by (intro proc_rel_other [OF rel [of q]]) auto
    show "sp_dev A = s" if "\<forall>q. \<not> in_ioctl (pr_place (((c2_procs S)(p := pr)) q))"
      using that [rule_format, of p] over by simp
  qed (use R in \<open>simp_all add: c2_rel_def\<close>)
qed

lemma c2_rel_return:
  assumes R: "c2_rel S A" and ret: "pr_place (c2_procs S p) = Returning ret"
    and J: "c2_threads_inv (c2_put S p ((c2_procs S p)\<lparr>pr_place := Outside\<rparr>) (c2_dev S))"
  shows "\<exists>B. c2_spec_step A (Returns p ret) B \<and> c2_rel (c2_put S p ((c2_procs S p)\<lparr>pr_place := Outside\<rparr>) (c2_dev S)) B"
proof -
  have rel: "proc_rel (c2_dev S) (c2_procs S q) A q" for q using R unfolding c2_rel_def by blast
  have mine: "sp_ret A p = Some ret" "sp_mems A p = pr_mem (c2_procs S p)"
    using rel [of p] ret by (simp_all add: proc_rel_simps)
  let ?B = "A\<lparr>sp_ret := (sp_ret A)(p := None)\<rparr>"
  have "c2_spec_step A (Returns p ret) ?B" using mine(1) by (rule c2_spec_step.returns)
  moreover have "c2_rel (c2_put S p ((c2_procs S p)\<lparr>pr_place := Outside\<rparr>) (c2_dev S)) ?B"
  proof (rule c2_rel_put [OF J])
    show "proc_rel (c2_dev S) ((c2_procs S p)\<lparr>pr_place := Outside\<rparr>) ?B p" using mine(2) by (simp add: proc_rel_simps)
    show "proc_rel (c2_dev S) (c2_procs S q) ?B q" if "q \<noteq> p" for q
      using that by (intro proc_rel_cong [OF rel [of q]]) simp_all
    show "sp_dev ?B = c2_dev S"
      if none: "\<forall>q. \<not> in_ioctl (pr_place (((c2_procs S)(p := (c2_procs S p)\<lparr>pr_place := Outside\<rparr>)) q))"
    proof -
      have "\<not> in_ioctl (pr_place (c2_procs S q))" for q
        using none [rule_format, of q] ret by (cases "q = p") simp_all
      with R show ?thesis by (simp add: c2_rel_def)
    qed
  qed (use R in \<open>simp_all add: c2_rel_def\<close>)
  ultimately show ?thesis by blast
qed

lemma c2_turn_sim:
  assumes R: "c2_rel S A" and "c2_ioctl_turn S l T"
  shows "\<exists>B. c2_spec_step A l B \<and> c2_rel T B"
proof -
  have turn: "c2_turn S l T" and calls: "\<And>p call. l = Begins p call \<Longrightarrow> ioctl_ok call"
    using assms(2) unfolding c2_ioctl_turn_def by blast+
  have "label_ok l" using calls unfolding label_ok_def ioctl_ok_def by blast
  then have J: "c2_threads_inv T" using c2_turn_inv [OF turn] R by (simp add: c2_rel_def)
  show ?thesis using turn
  proof cases
    case (enter p call pr s)
    with calls obtain cmd param where "call = Call_Ioctl cmd param" "call_ok call" unfolding ioctl_ok_def by blast
    with c2_rel_enter [OF R, of p cmd param pr s] enter J show ?thesis by simp
  next
    case (own p pr s)
    with c2_rel_own [OF R, of p pr s] J c2_spec_step.internal show ?thesis by blast
  next
    case (return p ret)
    with c2_rel_return [OF R, of p ret] J show ?thesis by simp
  qed
qed

interpretation chardev2_sim: simulation c2_ioctl_turn c2_spec_step c2_rel
  by unfold_locales (rule c2_turn_sim)

definition c2_spec_start :: "chardev2 \<Rightarrow> (nat \<Rightarrow> umem) \<Rightarrow> c2spec" where
  "c2_spec_start s mems = \<lparr>sp_dev = s, sp_mems = mems, sp_ret = (\<lambda>_. None)\<rparr>"

lemma c2_rel_start:
  "chardev2_inv s \<Longrightarrow> c2_already_open s = CDEV_NOT_USED \<Longrightarrow> c2_rel (c2_sys_start s mems) (c2_spec_start s mems)"
  using c2_start_inv [of s mems]
  by (simp add: c2_rel_def c2_spec_start_def c2_sys_start_def proc_rel_simps)

text \<open>
  C14: processes that use only the ioctls of chardev2.c, and with \<open>IOCTL_GET_NTH_BYTE\<close> only ask for one of
  the 81 bytes of the array, see a device that does one ioctl at a time, although each is copied byte by
  byte while others try: whatever such calls they make and whatever is returned, the same could have been
  returned by a device on which every call either takes effect at once or, while another call has not
  returned, is turned away with \<open>EBUSY\<close>; and when all have returned, the message and the memory of each
  process are those of that device.
\<close>

theorem chardev2_ioctls_atomic:
  assumes "chardev2_inv s" and "c2_already_open s = CDEV_NOT_USED"
    and "trace c2_turn (c2_sys_start s mems) ls S"
    and "\<forall>p call. Begins p call \<in> set ls \<longrightarrow> (\<exists>cmd param. call = Call_Ioctl cmd param) \<and> call_ok call"
  shows "\<exists>A. trace c2_spec_step (c2_spec_start s mems) ls A \<and>
    ((\<forall>p. pr_place (c2_procs S p) = Outside) \<longrightarrow>
       sp_dev A = c2_dev S \<and> (\<forall>p. sp_mems A p = pr_mem (c2_procs S p)))"
proof -
  have "\<forall>p call. Begins p call \<in> set ls \<longrightarrow> ioctl_ok call" using assms(4) unfolding ioctl_ok_def by blast
  from chardev2_sim.trace_sim [OF c2_ioctl_trace [OF assms(3) this] c2_rel_start [OF assms(1,2)]] obtain A where
    "trace c2_spec_step (c2_spec_start s mems) ls A" and R: "c2_rel S A" by blast
  moreover have "sp_dev A = c2_dev S \<and> (\<forall>p. sp_mems A p = pr_mem (c2_procs S p))"
    if out: "\<forall>p. pr_place (c2_procs S p) = Outside"
  proof -
    have "\<not> in_ioctl (pr_place (c2_procs S p))" for p using out by simp
    then have "sp_dev A = c2_dev S" using R unfolding c2_rel_def by blast
    moreover have "sp_mems A p = pr_mem (c2_procs S p)" for p
    proof -
      have "proc_rel (c2_dev S) (c2_procs S p) A p" using R unfolding c2_rel_def by blast
      with out show ?thesis by (simp add: proc_rel_simps)
    qed
    ultimately show ?thesis by blast
  qed
  ultimately show ?thesis by blast
qed

subsection \<open>Runs\<close>

text \<open>
  The turn of thread \<open>p\<close>, which makes the call if it is outside; and a whole schedule.
\<close>

definition c2_go :: "nat \<Rightarrow> c2call \<Rightarrow> c2sys \<Rightarrow> (c2label \<times> c2sys) option" where
  "c2_go p call S =
     (case pr_place (c2_procs S p) of
        Outside \<Rightarrow> (case c2_enter call (c2_procs S p) (c2_dev S) of (pr, s) \<Rightarrow> Some (Begins p call, c2_put S p pr s))
      | Returning ret \<Rightarrow> Some (Returns p ret, c2_put S p ((c2_procs S p)\<lparr>pr_place := Outside\<rparr>) (c2_dev S))
      | place \<Rightarrow> map_option (\<lambda>(pr, s). (Internal, c2_put S p pr s)) (c2_next place (c2_procs S p) (c2_dev S)))"

fun c2_sched :: "(nat \<times> c2call) list \<Rightarrow> c2label list \<times> c2sys \<Rightarrow> (c2label list \<times> c2sys) option" where
  "c2_sched [] x = Some x"
| "c2_sched ((p, call) # turns) (ls, S) =
     (case c2_go p call S of None \<Rightarrow> None | Some (l, T) \<Rightarrow> c2_sched turns (ls @ [l], T))"

lemma c2_go_turn:
  assumes "c2_go p call S = Some (l, T)"
  shows "c2_turn S l T" and "l = Internal \<or> l = Begins p call \<or> (\<exists>ret. l = Returns p ret)"
proof -
  have own: "c2_turn S Internal (c2_put S p pr s)"
    if "inside (pr_place (c2_procs S p))" "c2_next (pr_place (c2_procs S p)) (c2_procs S p) (c2_dev S) = Some (pr, s)" for pr s
    by (rule c2_turn.own) (simp add: c2_own_def that)
  show "c2_turn S l T"
  proof (cases "inside (pr_place (c2_procs S p))")
    case True
    with assms have "l = Internal" "\<exists>pr s. c2_next (pr_place (c2_procs S p)) (c2_procs S p) (c2_dev S) = Some (pr, s) \<and>
        T = c2_put S p pr s"
      by (cases "pr_place (c2_procs S p)"; simp add: c2_go_def del: c2_next.simps; blast)+
    with own [OF True] show ?thesis by blast
  next
    case False
    with inside_or [of "pr_place (c2_procs S p)"] consider "pr_place (c2_procs S p) = Outside"
      | ret where "pr_place (c2_procs S p) = Returning ret" by blast
    then show ?thesis
      using assms by cases (auto simp: c2_go_def intro: c2_turn.intros split: if_splits prod.splits)
  qed
  show "l = Internal \<or> l = Begins p call \<or> (\<exists>ret. l = Returns p ret)"
    using assms by (auto simp: c2_go_def simp del: c2_next.simps split: c2place.splits if_splits prod.splits)
qed

lemma c2_sched_trace:
  "c2_sched turns (ls, S) = Some (ls', T) \<Longrightarrow> trace c2_turn S0 ls S \<Longrightarrow> trace c2_turn S0 ls' T"
proof (induction turns arbitrary: ls S)
  case Nil
  then show ?case by simp
next
  case (Cons turn turns)
  obtain p call where "turn = (p, call)" by fastforce
  with Cons.prems(1) obtain l U where go: "c2_go p call S = Some (l, U)" "c2_sched turns (ls @ [l], U) = Some (ls', T)"
    by (auto split: option.splits)
  from Cons.IH [OF go(2)] trace.snoc [OF Cons.prems(2) c2_go_turn(1) [OF go(1)]] show ?case by blast
qed

text \<open>The calls that begin in a schedule are those in its list.\<close>

lemma c2_sched_begins:
  "c2_sched turns (ls, S) = Some (ls', T) \<Longrightarrow> Begins p call \<in> set ls' \<Longrightarrow>
    Begins p call \<in> set ls \<or> (p, call) \<in> set turns"
proof (induction turns arbitrary: ls S)
  case Nil
  then show ?case by simp
next
  case (Cons turn turns)
  obtain p call where turn: "turn = (p, call)" by fastforce
  with Cons.prems(1) obtain l U where go: "c2_go p call S = Some (l, U)" "c2_sched turns (ls @ [l], U) = Some (ls', T)"
    by (auto split: option.splits)
  from Cons.IH [OF go(2) Cons.prems(2)] c2_go_turn(2) [OF go(1)] turn show ?case by auto
qed

text \<open>Two processes: the memory of process 3 starts with the string ''aa'', that of the other with ''bb''.\<close>

definition two_mems :: "nat \<Rightarrow> umem" where
  "two_mems p = (\<lambda>a. if a < 2 then Some (if p = 3 then CHR ''a'' else CHR ''b'') else Some NUL)"

abbreviation "set_call \<equiv> (3 :: nat, Call_Ioctl IOCTL_SET_MSG 0)"
abbreviation "write_call \<equiv> (2 :: nat, Call_Write 0 2)"

definition torn_turns :: "(nat \<times> c2call) list" where
  "torn_turns = [set_call, set_call, write_call, write_call, set_call, set_call, write_call, set_call, set_call,
     set_call, set_call, write_call, write_call]"

lemma start_message:
  "c2_message chardev2_start = NUL # NUL # NUL # zeros 78" "c2_already_open chardev2_start = CDEV_NOT_USED"
  by (simp_all add: chardev2_start_def chardev2_BUF_LEN_def zeros_def eval_nat_numeral)

lemma two_mems_get: "fst (get_user a (two_mems p)) = (if a < 2 then if p = 3 then CHR ''a'' else CHR ''b'' else NUL)"
  by (simp add: two_mems_def get_user_def)

lemma two_mems_scan: "set_msg_scan (two_mems 3) 0 CHR ''a'' 0 = 3"
proof -
  have "ustring (two_mems 3) 0 ''aa''"
    by (simp add: ustring_def ustr_def two_mems_get upt_conv_Cons)
  from set_msg_scan_eq [OF this] show ?thesis by (simp add: chardev2_BUF_LEN_def two_mems_get)
qed

lemmas run_simps = c2_go_def c2_sys_start_def start_message two_mems_scan two_mems_get
  chardev2_content_def cstr_def chardev2_BUF_LEN_def Let_def wr_def

lemma torn_run:
  "\<exists>ls S. c2_sched torn_turns ([], c2_sys_start chardev2_start two_mems) = Some (ls, S) \<and>
    filter (\<lambda>l. l \<noteq> Internal) ls =
      [Begins 3 (Call_Ioctl IOCTL_SET_MSG 0), Begins 2 (Call_Write 0 2), Returns 3 0, Returns 2 2] \<and>
    chardev2_content (c2_dev S) = ''ab''"
  by (simp add: torn_turns_def run_simps)

text \<open>The same two calls, one after the other, in both orders.\<close>

lemma one_by_one:
  "\<exists>s m t. chardev2_device_ioctl chardev2_start (two_mems 3) IOCTL_SET_MSG 0 = Some (s, m, 0) \<and>
    chardev2_device_write s (two_mems 2) 0 2 = Some (t, 2) \<and> chardev2_content t = ''bb''"
  "\<exists>s t m. chardev2_device_write chardev2_start (two_mems 2) 0 2 = Some (s, 2) \<and>
    chardev2_device_ioctl s (two_mems 3) IOCTL_SET_MSG 0 = Some (t, m, 0) \<and> chardev2_content t = ''aa''"
  by (simp_all add: run_simps chardev2_device_ioctl_def chardev2_device_write_def copy_in_loop.simps)

text \<open>
  C38: the flag that is meant to keep two processes from talking to the device at the same time does not
  keep a \<open>write\<close> and an ioctl apart. One process sets ''aa'' by ioctl while another writes ''bb'': both
  calls begin before either returns, both succeed, and they can leave ''ab''. Neither order of the two
  leaves that: the ioctl before the write leaves ''bb'', the write before the ioctl ''aa''.
\<close>

theorem chardev2_write_tears_message:
  "(\<exists>ls S. trace c2_turn (c2_sys_start chardev2_start two_mems) ls S \<and>
      filter (\<lambda>l. l \<noteq> Internal) ls =
        [Begins 3 (Call_Ioctl IOCTL_SET_MSG 0), Begins 2 (Call_Write 0 2), Returns 3 0, Returns 2 2] \<and>
      chardev2_content (c2_dev S) = ''ab'') \<and>
   (\<exists>s m t. chardev2_device_ioctl chardev2_start (two_mems 3) IOCTL_SET_MSG 0 = Some (s, m, 0) \<and>
      chardev2_device_write s (two_mems 2) 0 2 = Some (t, 2) \<and> chardev2_content t = ''bb'') \<and>
   (\<exists>s t m. chardev2_device_write chardev2_start (two_mems 2) 0 2 = Some (s, 2) \<and>
      chardev2_device_ioctl s (two_mems 3) IOCTL_SET_MSG 0 = Some (t, m, 0) \<and> chardev2_content t = ''aa'')"
proof (intro conjI one_by_one)
  from torn_run obtain ls S where run: "c2_sched torn_turns ([], c2_sys_start chardev2_start two_mems) = Some (ls, S)"
    and seen: "filter (\<lambda>l. l \<noteq> Internal) ls =
      [Begins 3 (Call_Ioctl IOCTL_SET_MSG 0), Begins 2 (Call_Write 0 2), Returns 3 0, Returns 2 2]"
      "chardev2_content (c2_dev S) = ''ab''" by blast
  from c2_sched_trace [OF run trace.nil] seen show "\<exists>ls S. trace c2_turn (c2_sys_start chardev2_start two_mems) ls S \<and>
      filter (\<lambda>l. l \<noteq> Internal) ls =
        [Begins 3 (Call_Ioctl IOCTL_SET_MSG 0), Begins 2 (Call_Write 0 2), Returns 3 0, Returns 2 2] \<and>
      chardev2_content (c2_dev S) = ''ab''" by blast
qed

text \<open>The ioctl of process 4 is turned away while that of process 3 goes on, which then stores its message.\<close>

definition busy_turns :: "(nat \<times> c2call) list" where
  "busy_turns = [set_call, set_call, (4, Call_Ioctl IOCTL_GET_MSG 0), set_call, (4, Call_Ioctl IOCTL_GET_MSG 0),
     set_call, set_call, set_call, set_call, set_call]"

lemma busy_run:
  "\<exists>ls S. c2_sched busy_turns ([], c2_sys_start chardev2_start two_mems) = Some (ls, S) \<and>
    Returns 4 (- EBUSY) \<in> set ls \<and> Returns 3 0 \<in> set ls \<and> (\<forall>p. pr_place (c2_procs S p) = Outside) \<and>
    chardev2_content (c2_dev S) = ''aa''"
  by (simp add: busy_turns_def run_simps)

lemma busy_calls_ok:
  assumes "c2_sched busy_turns ([], S) = Some (ls, T)" and "Begins p call \<in> set ls"
  shows "(\<exists>cmd param. call = Call_Ioctl cmd param) \<and> call_ok call"
  using c2_sched_begins [OF assms] by (auto simp: busy_turns_def)

theorem chardev2_threads_safe_witness:
  "\<exists>ls S. trace c2_turn (c2_sys_start chardev2_start two_mems) ls S \<and> Returns 4 (- EBUSY) \<in> set ls \<and>
    terminated (c2_message (c2_dev S))"
proof -
  obtain ls S where run: "c2_sched busy_turns ([], c2_sys_start chardev2_start two_mems) = Some (ls, S)"
    and seen: "Returns 4 (- EBUSY) \<in> set ls" using busy_run by blast
  note tr = c2_sched_trace [OF run trace.nil]
  have "\<forall>p call. Begins p call \<in> set ls \<longrightarrow> call_ok call" using busy_calls_ok [OF run] by blast
  with chardev2_threads_safe [OF tr] tr seen show ?thesis by blast
qed

theorem chardev2_ioctls_atomic_witness:
  "\<exists>ls A. trace c2_spec_step (c2_spec_start chardev2_start two_mems) ls A \<and> Returns 4 (- EBUSY) \<in> set ls \<and>
    Returns 3 0 \<in> set ls \<and> chardev2_content (sp_dev A) = ''aa''"
proof -
  obtain ls S where run: "c2_sched busy_turns ([], c2_sys_start chardev2_start two_mems) = Some (ls, S)"
    and seen: "Returns 4 (- EBUSY) \<in> set ls" "Returns 3 0 \<in> set ls" "\<forall>p. pr_place (c2_procs S p) = Outside"
      "chardev2_content (c2_dev S) = ''aa''" using busy_run by blast
  have "\<forall>p call. Begins p call \<in> set ls \<longrightarrow> (\<exists>cmd param. call = Call_Ioctl cmd param) \<and> call_ok call"
    using busy_calls_ok [OF run] by blast
  with chardev2_ioctls_atomic [OF chardev2_start_inv start_message(2) c2_sched_trace [OF run trace.nil]]
  obtain A where
    "trace c2_spec_step (c2_spec_start chardev2_start two_mems) ls A" "sp_dev A = c2_dev S" using seen(3) by blast
  with seen show ?thesis by metis
qed

end
