(* ===== verification/Vinput.thy ===== *)
theory Vinput
  imports Lifecycle
begin

text \<open>
  examples/vinput.c and examples/vinput.h: the registry of virtual input devices. Driver modules
  register a \<open>struct vinput_device\<close> (a name and operations); writing the name to the class attribute
  \<open>export\<close> creates a \<open>struct vinput\<close> of that type with the first free id, writing the id to
  \<open>unexport\<close> destroys it, and the character device of minor id reads and writes it through the
  driver's operations.

  Objects are addressed by numbers: \<open>v_heap\<close> holds the \<open>struct vinput\<close> that are allocated,
  \<open>v_drivers\<close> the drivers' static structures. Following a pointer to a freed object is \<open>None\<close>, as are
  an access outside a buffer and a wrong use of the input subsystem (unregistering an input device
  that is not registered, freeing one twice). The answers of the kernel's allocation and registration
  services are arguments.
\<close>

definition VINPUT_MAX_LEN :: nat where "VINPUT_MAX_LEN = 128"
definition VINPUT_MINORS :: nat where "VINPUT_MINORS = 32"

subsection \<open>Data\<close>

text \<open>
  The \<open>struct input_dev\<close> of a device: what the driver sets up, its status in the input subsystem,
  and the events reported through it.
\<close>

datatype input_status = Input_Allocated | Input_Registered | Input_Freed

datatype input_event = Report_Key "32 word" bool | Input_Sync

record input_dev =
  i_evbit :: "64 word"
  i_keycodesize :: nat
  i_keycodemax :: nat
  i_keycode :: "nat list"
  i_keybit :: "nat set"
  i_name :: string
  i_status :: input_status
  i_events :: "input_event list"

definition new_input_dev :: input_dev where
  "new_input_dev = \<lparr>i_evbit = 0, i_keycodesize = 0, i_keycodemax = 0, i_keycode = [],
     i_keybit = {}, i_name = [], i_status = Input_Allocated, i_events = []\<rparr>"

text \<open>
  \<open>struct vinput\<close>. The fields \<open>devno\<close> and \<open>priv_data\<close> are used by no code; the embedded lock, device
  and list node are represented by the operations and lists below.
\<close>

record vinput =
  v_id :: nat
  v_last_entry :: "64 word"
  v_input :: "input_dev option"
  v_type :: "nat option"

text \<open>
  \<open>struct vinput_ops\<close>. \<open>op_init\<close> is given the return value of the input subsystem's registration;
  \<open>op_kill\<close> may be absent.
\<close>

record vinput_ops =
  op_init :: "vinput \<Rightarrow> int \<Rightarrow> (vinput \<times> int) option"
  op_kill :: "(vinput \<Rightarrow> vinput) option"
  op_send :: "vinput \<Rightarrow> char list \<Rightarrow> int \<Rightarrow> (vinput \<times> int) option"
  op_read :: "vinput \<Rightarrow> char list \<Rightarrow> int \<Rightarrow> (char list \<times> int) option"

record vinput_device =
  vd_name :: string
  vd_ops :: vinput_ops

text \<open>The variables of the module, the drivers' structures and the allocated objects.\<close>

record vstate =
  vinput_ids :: "bool list"
  vinput_devices :: "nat list"
  vinput_vdevices :: "nat list"
  v_drivers :: "nat \<rightharpoonup> vinput_device"
  v_heap :: "nat \<rightharpoonup> vinput"

definition vinput_start :: "(nat \<rightharpoonup> vinput_device) \<Rightarrow> vstate" where
  "vinput_start drivers = \<lparr>vinput_ids = replicate VINPUT_MINORS False, vinput_devices = [],
     vinput_vdevices = [], v_drivers = drivers, v_heap = Map.empty\<rparr>"

subsection \<open>Lookup\<close>

text \<open>
  \<open>vinput_get_device_by_type\<close>: the first registered driver whose name is a prefix of \<open>type\<close> (the
  comparison covers \<open>strlen(vinput->name)\<close> characters). \<open>None\<close> is a driver whose structure is gone.
\<close>

fun find_device :: "(nat \<rightharpoonup> vinput_device) \<Rightarrow> string \<Rightarrow> nat list \<Rightarrow> nat option option" where
  "find_device drivers ty [] = Some None"
| "find_device drivers ty (d # ds) =
     (case drivers d of
        None \<Rightarrow> None
      | Some dev \<Rightarrow>
          if strncmp_eq ty (vd_name dev) (length (vd_name dev)) then Some (Some d)
          else find_device drivers ty ds)"

definition vinput_get_device_by_type :: "vstate \<Rightarrow> string \<Rightarrow> nat err_ptr option" where
  "vinput_get_device_by_type s ty =
     map_option (\<lambda>found. case found of Some d \<Rightarrow> Ptr d | None \<Rightarrow> ERR_PTR (- ENODEV))
       (find_device (v_drivers s) ty (vinput_devices s))"

text \<open>
  The loop of \<open>vinput_get_vdevice_by_id\<close>: the value of the variable \<open>vinput\<close> after it, which without
  a match is the last element visited. \<open>None\<close> is a freed element.
\<close>

fun scan_vdevices ::
    "(nat \<rightharpoonup> vinput) \<Rightarrow> int \<Rightarrow> nat list \<Rightarrow> nat option \<Rightarrow> nat option option" where
  "scan_vdevices hp i [] cur = Some cur"
| "scan_vdevices hp i (a # as) cur =
     (case hp a of
        None \<Rightarrow> None
      | Some v \<Rightarrow> if int (v_id v) = i then Some (Some a) else scan_vdevices hp i as (Some a))"

definition vinput_get_vdevice_by_id :: "vstate \<Rightarrow> int \<Rightarrow> nat err_ptr option" where
  "vinput_get_vdevice_by_id s i =
     (case scan_vdevices (v_heap s) i (vinput_vdevices s) None of
        None \<Rightarrow> None
      | Some None \<Rightarrow> Some (ERR_PTR (- ENODEV))
      | Some (Some a) \<Rightarrow>
          (case v_heap s a of
             None \<Rightarrow> None
           | Some v \<Rightarrow> Some (if int (v_id v) = i then Ptr a else ERR_PTR (- ENODEV))))"

subsection \<open>The character device\<close>

text \<open>\<open>vinput_open\<close>: the return value and the file's \<open>private_data\<close>.\<close>

definition vinput_open :: "vstate \<Rightarrow> nat \<Rightarrow> (int \<times> nat option) option" where
  "vinput_open s minor =
     map_option (\<lambda>p. case p of Ptr a \<Rightarrow> (0, Some a) | ERR_PTR err \<Rightarrow> (err, None))
       (vinput_get_vdevice_by_id s (int minor))"

definition vinput_release :: "vstate \<Rightarrow> vstate \<times> int" where
  "vinput_release s = (s, 0)"

text \<open>The operations of the object at \<open>a\<close>: \<open>vinput->type->ops\<close>.\<close>

definition ops_of :: "vstate \<Rightarrow> vinput \<Rightarrow> vinput_ops option" where
  "ops_of s v =
     (case v_type v of None \<Rightarrow> None | Some d \<Rightarrow> map_option vd_ops (v_drivers s d))"

text \<open>Conversion of a size to a 32-bit int.\<close>

definition size_to_int :: "nat \<Rightarrow> int" where
  "size_to_int n = sint (word_of_nat n :: 32 word)"

text \<open>
  \<open>vinput_read\<close> on the object at \<open>a\<close>: \<open>stack\<close> is what the local buffer holds on entry and \<open>uncopied\<close>
  the answer of \<open>raw_copy_to_user\<close>. The result is the return value, the offset, and the bytes handed to
  \<open>raw_copy_to_user\<close>.
\<close>

definition vinput_read ::
    "vstate \<Rightarrow> nat \<Rightarrow> char list \<Rightarrow> nat \<Rightarrow> int \<Rightarrow> nat \<Rightarrow> (int \<times> int \<times> char list) option" where
  "vinput_read s a stack count off uncopied =
     (case v_heap s a of
        None \<Rightarrow> None
      | Some v \<Rightarrow>
          (case ops_of s v of
             None \<Rightarrow> None
           | Some ops \<Rightarrow>
               (case op_read ops v stack (size_to_int count) of
                  None \<Rightarrow> None
                | Some (buff, len) \<Rightarrow>
                    (let count = (if off > len then 0
                                  else if int count + off > int VINPUT_MAX_LEN then nat (len - off)
                                  else count)
                     in if count \<noteq> 0 \<and> (off < 0 \<or> off + int count > int (length buff)) then None
                        else if uncopied \<noteq> 0 then
                          Some (- EFAULT, off, take count (drop (nat off) buff))
                        else Some (int count, off + int count, take count (drop (nat off) buff))))))"

text \<open>
  \<open>vinput_write\<close> of the bytes \<open>data\<close>: the local buffer is cleared, filled and given to the driver. A
  text that is too long is reported with \<open>dev_warn\<close>, which reads the object's name.
\<close>

definition vinput_write :: "vstate \<Rightarrow> nat \<Rightarrow> char list \<Rightarrow> nat \<Rightarrow> (vstate \<times> int) option" where
  "vinput_write s a data uncopied =
     (let count = length data
      in if count > VINPUT_MAX_LEN then (case v_heap s a of None \<Rightarrow> None | Some v \<Rightarrow> Some (s, - EINVAL))
         else if uncopied \<noteq> 0 then Some (s, - EFAULT)
         else (case v_heap s a of
                 None \<Rightarrow> None
               | Some v \<Rightarrow>
                   (case ops_of s v of
                      None \<Rightarrow> None
                    | Some ops \<Rightarrow>
                        (case op_send ops v (data @ zeros (VINPUT_MAX_LEN + 1 - count)) (int count) of
                           None \<Rightarrow> None
                         | Some (v', ret) \<Rightarrow>
                             Some (s\<lparr>v_heap := (v_heap s)(a \<mapsto> v')\<rparr>, ret)))))"

subsection \<open>Creating and destroying devices\<close>

text \<open>
  \<open>vinput_destroy_vdevice\<close>, the release callback, and \<open>device_unregister\<close>, which runs it. Taking an
  element off a list that it is not on is undefined: \<open>list_del\<close> writes through its two pointers.
\<close>

definition vinput_destroy_vdevice :: "vstate \<Rightarrow> nat \<Rightarrow> vstate option" where
  "vinput_destroy_vdevice s a =
     (case v_heap s a of
        None \<Rightarrow> None
      | Some v \<Rightarrow>
          if a \<notin> set (vinput_vdevices s) then None
          else Some (s\<lparr>vinput_vdevices := remove1 a (vinput_vdevices s),
                       vinput_ids := (vinput_ids s)[v_id v := False],
                       v_heap := (v_heap s)(a := None)\<rparr>))"

definition vinput_release_dev :: "vstate \<Rightarrow> nat \<Rightarrow> vstate option" where
  "vinput_release_dev s a = vinput_destroy_vdevice s a"

text \<open>\<open>input_free_device(vinput->input)\<close>: only for an input device that is not registered.\<close>

definition input_free_device :: "vstate \<Rightarrow> nat \<Rightarrow> vstate option" where
  "input_free_device s a =
     (case v_heap s a of
        None \<Rightarrow> None
      | Some v \<Rightarrow>
          (case v_input v of
             None \<Rightarrow> Some s
           | Some inp \<Rightarrow>
               if i_status inp = Input_Allocated
               then Some (s\<lparr>v_heap := (v_heap s)
                              (a \<mapsto> v\<lparr>v_input := Some (inp\<lparr>i_status := Input_Freed\<rparr>)\<rparr>)\<rparr>)
               else None))"

text \<open>
  \<open>vinput_unregister_vdevice\<close>: unregister the input device, which must be registered, and call the
  driver's \<open>kill\<close> if it has one.
\<close>

definition vinput_unregister_vdevice :: "vstate \<Rightarrow> nat \<Rightarrow> vstate option" where
  "vinput_unregister_vdevice s a =
     (case v_heap s a of
        None \<Rightarrow> None
      | Some v \<Rightarrow>
          (case (v_input v, ops_of s v) of
             (Some inp, Some ops) \<Rightarrow>
               if i_status inp = Input_Registered
               then (let v = v\<lparr>v_input := Some (inp\<lparr>i_status := Input_Freed\<rparr>)\<rparr>;
                         v = (case op_kill ops of None \<Rightarrow> v | Some kill \<Rightarrow> kill v)
                     in Some (s\<lparr>v_heap := (v_heap s)(a \<mapsto> v)\<rparr>))
               else None
           | _ \<Rightarrow> None))"

text \<open>\<open>find_first_zero_bit(vinput_ids, VINPUT_MINORS)\<close>: the size of the bitmap if all bits are set.\<close>

definition find_first_zero_bit :: "bool list \<Rightarrow> nat" where
  "find_first_zero_bit bits = length (takeWhile (\<lambda>b. b) bits)"

text \<open>
  \<open>vinput_alloc_vdevice\<close>, for the address \<open>kzalloc\<close> returned and whether \<open>input_allocate_device\<close>
  succeeded. On the path \<open>fail_input_dev\<close> the object leaves the list and is freed.
\<close>

definition vinput_alloc_vdevice ::
    "vstate \<Rightarrow> nat option \<Rightarrow> bool \<Rightarrow> vstate \<times> nat err_ptr" where
  "vinput_alloc_vdevice s kzalloc_ret input_alloc_ok =
     (case kzalloc_ret of
        None \<Rightarrow> (s, ERR_PTR (- ENOMEM))
      | Some a \<Rightarrow>
          (let i = find_first_zero_bit (vinput_ids s);
               v = \<lparr>v_id = i, v_last_entry = 0, v_input = None, v_type = None\<rparr>
           in if i \<ge> VINPUT_MINORS then (s, ERR_PTR (- ENOBUFS))
              else (let s = s\<lparr>vinput_ids := (vinput_ids s)[i := True],
                              vinput_vdevices := a # vinput_vdevices s,
                              v_heap := (v_heap s)(a \<mapsto> v)\<rparr>
                    in if \<not> input_alloc_ok then
                         (s\<lparr>vinput_vdevices := remove1 a (vinput_vdevices s),
                            v_heap := (v_heap s)(a := None)\<rparr>, ERR_PTR (- ENOMEM))
                       else (s\<lparr>v_heap := (v_heap s)
                                 (a \<mapsto> v\<lparr>v_input := Some new_input_dev\<rparr>)\<rparr>, Ptr a))))"

text \<open>\<open>vinput_register_vdevice\<close>, for the answer of the input subsystem's registration.\<close>

definition vinput_register_vdevice :: "vstate \<Rightarrow> nat \<Rightarrow> int \<Rightarrow> (vstate \<times> int) option" where
  "vinput_register_vdevice s a reg_ret =
     (case v_heap s a of
        None \<Rightarrow> None
      | Some v \<Rightarrow>
          (case (v_input v, v_type v) of
             (Some inp, Some d) \<Rightarrow>
               (case v_drivers s d of
                  None \<Rightarrow> None
                | Some dev \<Rightarrow>
                    (case op_init (vd_ops dev)
                            (v\<lparr>v_input := Some (inp\<lparr>i_name := vd_name dev\<rparr>)\<rparr>) reg_ret of
                       None \<Rightarrow> None
                     | Some (v', err) \<Rightarrow> Some (s\<lparr>v_heap := (v_heap s)(a \<mapsto> v')\<rparr>, err)))
           | _ \<Rightarrow> None))"

text \<open>The kernel's answers during one \<open>export_store\<close>.\<close>

record export_env =
  kzalloc_ret :: "nat option"
  input_alloc_ok :: bool
  device_register_ret :: int
  input_register_ret :: int

definition export_store :: "export_env \<Rightarrow> vstate \<Rightarrow> string \<Rightarrow> nat \<Rightarrow> (vstate \<times> int) option" where
  "export_store e s buf len =
     (case vinput_get_device_by_type s buf of
        None \<Rightarrow> None
      | Some (ERR_PTR err) \<Rightarrow> Some (s, err)
      | Some (Ptr device) \<Rightarrow>
          (case vinput_alloc_vdevice s (kzalloc_ret e) (input_alloc_ok e) of
             (s, ERR_PTR err) \<Rightarrow> Some (s, err)
           | (s, Ptr a) \<Rightarrow>
               (case v_heap s a of
                  None \<Rightarrow> None
                | Some v \<Rightarrow>
                    (let s = s\<lparr>v_heap := (v_heap s)(a \<mapsto> v\<lparr>v_type := Some device\<rparr>)\<rparr>;
                         err = device_register_ret e
                     in if err < 0 then
                          map_option (\<lambda>s. (s, err))
                            (Option.bind (input_free_device s a) (\<lambda>s. vinput_destroy_vdevice s a))
                        else
                          (case vinput_register_vdevice s a (input_register_ret e) of
                             None \<Rightarrow> None
                           | Some (s, err) \<Rightarrow>
                               if err < 0 then
                                 map_option (\<lambda>s. (s, err))
                                   (Option.bind (input_free_device s a)
                                      (\<lambda>s. vinput_release_dev s a))
                               else Some (s, int len))))))"

text \<open>\<open>unexport_store\<close>, for the answer of \<open>kstrtol\<close> on the buffer.\<close>

definition unexport_store ::
    "(string \<Rightarrow> int + int) \<Rightarrow> vstate \<Rightarrow> string \<Rightarrow> nat \<Rightarrow> (vstate \<times> int) option" where
  "unexport_store kstrtol s buf len =
     (case kstrtol buf of
        Inl _ \<Rightarrow> Some (s, - EINVAL)
      | Inr i \<Rightarrow>
          (case vinput_get_vdevice_by_id s i of
             None \<Rightarrow> None
           | Some (ERR_PTR err) \<Rightarrow> Some (s, err)
           | Some (Ptr a) \<Rightarrow>
               map_option (\<lambda>s. (s, int len))
                 (Option.bind (vinput_unregister_vdevice s a) (\<lambda>s. vinput_release_dev s a))))"

subsection \<open>Drivers\<close>

definition vinput_register :: "vstate \<Rightarrow> nat \<Rightarrow> vstate \<times> int" where
  "vinput_register s d = (s\<lparr>vinput_devices := d # vinput_devices s\<rparr>, 0)"

text \<open>
  The loop of \<open>vinput_unregister\<close> over the list as it is when the loop starts; \<open>list_for_each_safe\<close>
  has fetched the next element before the current one is removed.
\<close>

fun unregister_loop :: "vstate \<Rightarrow> nat \<Rightarrow> nat list \<Rightarrow> vstate option" where
  "unregister_loop s d [] = Some s"
| "unregister_loop s d (a # as) =
     (case v_heap s a of
        None \<Rightarrow> None
      | Some v \<Rightarrow>
          if v_type v = Some d then
            (case Option.bind (vinput_unregister_vdevice s a) (\<lambda>s. vinput_release_dev s a) of
               None \<Rightarrow> None
             | Some s' \<Rightarrow> unregister_loop s' d as)
          else unregister_loop s d as)"

text \<open>A driver that is not on the list must not be taken off it.\<close>

definition vinput_unregister :: "vstate \<Rightarrow> nat \<Rightarrow> vstate option" where
  "vinput_unregister s d =
     (if d \<notin> set (vinput_devices s) then None
      else unregister_loop (s\<lparr>vinput_devices := remove1 d (vinput_devices s)\<rparr>) d (vinput_vdevices s))"

subsection \<open>Loading and unloading\<close>

record vinput_env =
  vi_chrdev_ret :: int
  vi_class_ret :: int

definition vinput_init :: "vinput_env \<Rightarrow> int \<times> kop list" where
  "vinput_init e =
     (let vinput_dev = vi_chrdev_ret e
      in if vinput_dev < 0 then (vinput_dev, [])
         else (let err = vi_class_ret e
               in if err < 0 then
                    (err, [Acquire (Chrdev ''vinput''), Release (Chrdev ''vinput'')])
                  else (0, [Acquire (Chrdev ''vinput''), Acquire (Class ''vinput'')])))"

definition vinput_end :: "vinput_env \<Rightarrow> kop list" where
  "vinput_end e = [Release (Chrdev ''vinput''), Release (Class ''vinput'')]"

interpretation vinput_mod: module_lifecycle vinput_init vinput_end
    "\<lambda>_. {Chrdev ''vinput'', Class ''vinput''}" "\<lambda>_. True"
  by unfold_locales (auto simp: vinput_init_def vinput_end_def Let_def split: if_splits)

end
