(* ===== verification/Vinput_Inv.thy ===== *)
theory Vinput_Inv
  imports Vinput Cat
begin

text \<open>
  What the vinput registry promises. The locale \<open>vinput_driver\<close> is the contract of the operations a
  driver registers, \<open>vinput_reader\<close> extends it by what reading returns; the registry's invariant
  \<open>vinv\<close> is kept by every operation as long as the drivers keep theirs.
\<close>

text \<open>The largest count the kernel passes to a read or write handler (\<open>MAX_RW_COUNT\<close>).\<close>

definition MAX_RW_COUNT :: nat where "MAX_RW_COUNT = 2147479552"

lemma size_to_int_eq [simp]: "n \<le> MAX_RW_COUNT \<Longrightarrow> size_to_int n = int n"
  by (simp add: size_to_int_def MAX_RW_COUNT_def sint_uint unsigned_of_nat take_bit_nat_eq_self
      signed_take_bit_eq_if_positive bit_iff_odd take_bit_int_eq_self)

subsection \<open>The contract of a driver\<close>

locale vinput_driver =
  fixes ops :: vinput_ops
  assumes init_ok: "v_input v = Some inp \<Longrightarrow> i_status inp = Input_Allocated \<Longrightarrow>
      \<exists>v' e inp'. op_init ops v r = Some (v', e) \<and> v_id v' = v_id v \<and> v_type v' = v_type v \<and>
        v_input v' = Some inp' \<and>
        i_status inp' = (if e < 0 then Input_Allocated else Input_Registered)"
    and kill_frame: "op_kill ops = Some kill \<Longrightarrow> v_id (kill v) = v_id v \<and> v_type (kill v) = v_type v"
    and send_ok: "v_input v = Some inp \<Longrightarrow> i_status inp = Input_Registered \<Longrightarrow>
      length b = VINPUT_MAX_LEN + 1 \<Longrightarrow> terminated b \<Longrightarrow>
      \<exists>v' e inp'. op_send ops v b k = Some (v', e) \<and> v_id v' = v_id v \<and> v_type v' = v_type v \<and>
        v_input v' = Some inp' \<and> i_status inp' = Input_Registered"
    and read_bounds: "length b = VINPUT_MAX_LEN + 1 \<Longrightarrow> n \<le> MAX_RW_COUNT \<Longrightarrow>
      \<exists>b' len. op_read ops v b (int n) = Some (b', len) \<and> length b' = VINPUT_MAX_LEN + 1 \<and>
        0 \<le> len \<and> len \<le> int VINPUT_MAX_LEN"

text \<open>A driver whose read formats a text into the buffer, cut off by the length it is given.\<close>

locale vinput_reader = vinput_driver +
  fixes shown :: "vinput \<Rightarrow> string"
  assumes shown_bound: "length (shown v) \<le> VINPUT_MAX_LEN"
    and read_shown: "length b = VINPUT_MAX_LEN + 1 \<Longrightarrow> n \<le> MAX_RW_COUNT \<Longrightarrow> length (shown v) < n \<Longrightarrow>
      \<exists>b'. op_read ops v b (int n) = Some (b', int (length (shown v))) \<and>
        length b' = VINPUT_MAX_LEN + 1 \<and> take (length (shown v)) b' = shown v"

subsection \<open>The registry's invariant\<close>

definition vdev_ok :: "vstate \<Rightarrow> vinput \<Rightarrow> bool" where
  "vdev_ok s v \<longleftrightarrow> v_id v < VINPUT_MINORS \<and> vinput_ids s ! v_id v \<and>
     (\<exists>inp. v_input v = Some inp \<and> i_status inp = Input_Registered) \<and>
     (\<exists>d. v_type v = Some d \<and> d \<in> set (vinput_devices s))"

definition drivers_ok :: "vstate \<Rightarrow> bool" where
  "drivers_ok s \<longleftrightarrow> distinct (vinput_devices s) \<and>
     (\<forall>d\<in>set (vinput_devices s). \<exists>dev. v_drivers s d = Some dev \<and> vinput_driver (vd_ops dev))"

definition vinv :: "vstate \<Rightarrow> bool" where
  "vinv s \<longleftrightarrow> length (vinput_ids s) = VINPUT_MINORS \<and> distinct (vinput_vdevices s) \<and>
     set (vinput_vdevices s) = dom (v_heap s) \<and> drivers_ok s \<and>
     (\<forall>a v. v_heap s a = Some v \<longrightarrow> vdev_ok s v) \<and>
     (\<forall>a b v w. v_heap s a = Some v \<longrightarrow> v_heap s b = Some w \<longrightarrow> v_id v = v_id w \<longrightarrow> a = b)"

named_theorems vinv_defs \<open>the definitions the invariant unfolds to\<close>
lemmas [vinv_defs] = vinv_def vdev_ok_def drivers_ok_def

lemma vinv_start: "vinv (vinput_start drivers)"
  by (simp add: vinv_defs vinput_start_def)

lemma vinvD:
  assumes "vinv s" and "v_heap s a = Some v"
  shows "a \<in> set (vinput_vdevices s)" and "v_id v < VINPUT_MINORS" and "vinput_ids s ! v_id v"
  using assms by (auto simp: vinv_defs)

text \<open>The operations of a listed device are those of a registered driver, which keeps its contract.\<close>

lemma vinv_ops:
  assumes "vinv s" and "v_heap s a = Some v"
  obtains ops inp where "ops_of s v = Some ops" and "vinput_driver ops"
    and "v_input v = Some inp" and "i_status inp = Input_Registered"
proof -
  from assms have "vdev_ok s v" and "drivers_ok s" by (auto simp: vinv_def)
  then obtain inp d dev where "v_input v = Some inp" "i_status inp = Input_Registered"
    "v_type v = Some d" "v_drivers s d = Some dev" "vinput_driver (vd_ops dev)"
    by (auto simp: vdev_ok_def drivers_ok_def)
  then show ?thesis using that by (simp add: ops_of_def)
qed

subsection \<open>Lookup\<close>

lemma find_device_sound:
  "find_device drivers ty ds = Some (Some d) \<Longrightarrow>
    d \<in> set ds \<and> (\<exists>dev. drivers d = Some dev \<and> take (length (vd_name dev)) ty = vd_name dev)"
  by (induction ds) (auto simp: strncmp_eq_def split: option.splits if_splits)

lemma find_device_complete:
  "d \<in> set ds \<Longrightarrow> drivers d = Some dev \<Longrightarrow> take (length (vd_name dev)) ty = vd_name dev \<Longrightarrow>
    find_device drivers ty ds \<noteq> Some None"
  by (induction ds) (auto simp: strncmp_eq_def split: option.splits)

lemma find_device_total: "set ds \<subseteq> dom drivers \<Longrightarrow> \<exists>found. find_device drivers ty ds = Some found"
  by (induction ds) (auto split: option.split)

lemma get_device_total: "drivers_ok s \<Longrightarrow> \<exists>p. vinput_get_device_by_type s ty = Some p"
  using find_device_total [of "vinput_devices s" "v_drivers s" ty]
  by (fastforce simp: vinput_get_device_by_type_def drivers_ok_def)

lemma scan_vdevices_eq:
  assumes "set as \<subseteq> dom hp" and "\<And>a b v w. hp a = Some v \<Longrightarrow> hp b = Some w \<Longrightarrow> v_id v = v_id w \<Longrightarrow> a = b"
  shows "\<exists>cur'. scan_vdevices hp i as cur = Some cur' \<and>
    (\<forall>a v. a \<in> set as \<longrightarrow> hp a = Some v \<longrightarrow> int (v_id v) = i \<longrightarrow> cur' = Some a) \<and>
    (cur' = cur \<or> (\<exists>a\<in>set as. cur' = Some a))"
  using assms(1)
proof (induction as arbitrary: cur)
  case Nil
  then show ?case by simp
next
  case (Cons a as)
  then obtain v where v: "hp a = Some v" by auto
  show ?case
  proof (cases "int (v_id v) = i")
    case True
    with v have "scan_vdevices hp i (a # as) cur = Some (Some a)" by simp
    moreover have "\<forall>b w. b \<in> set (a # as) \<longrightarrow> hp b = Some w \<longrightarrow> int (v_id w) = i \<longrightarrow> Some a = Some b"
      using assms(2) [OF v] True by auto
    ultimately show ?thesis by (intro exI [of _ "Some a"]) simp
  next
    case False
    with v have "scan_vdevices hp i (a # as) cur = scan_vdevices hp i as (Some a)" by simp
    moreover from Cons.prems obtain cur' where cur': "scan_vdevices hp i as (Some a) = Some cur'"
      "\<forall>b w. b \<in> set as \<longrightarrow> hp b = Some w \<longrightarrow> int (v_id w) = i \<longrightarrow> cur' = Some b"
      "cur' = Some a \<or> (\<exists>b\<in>set as. cur' = Some b)"
      using Cons.IH [of "Some a"] by auto
    moreover have "\<forall>b w. b \<in> set (a # as) \<longrightarrow> hp b = Some w \<longrightarrow> int (v_id w) = i \<longrightarrow> cur' = Some b"
      using cur'(2) v False by auto
    moreover have "\<exists>b\<in>set (a # as). cur' = Some b" using cur'(3) by auto
    ultimately show ?thesis by metis
  qed
qed

text \<open>The lookup finds the device with the id, and fails with \<open>ENODEV\<close> if there is none.\<close>

lemma get_vdevice_by_id_eq:
  assumes "vinv s"
  shows "vinput_get_vdevice_by_id s i = Some (Ptr a) \<longleftrightarrow> (\<exists>v. v_heap s a = Some v \<and> int (v_id v) = i)"
    and "(\<forall>a v. v_heap s a = Some v \<longrightarrow> int (v_id v) \<noteq> i) \<Longrightarrow>
      vinput_get_vdevice_by_id s i = Some (ERR_PTR (- ENODEV))"
    and "\<exists>p. vinput_get_vdevice_by_id s i = Some p"
proof -
  from assms have dom: "set (vinput_vdevices s) = dom (v_heap s)" by (simp add: vinv_def)
  have "\<exists>cur'. scan_vdevices (v_heap s) i (vinput_vdevices s) None = Some cur' \<and>
    (\<forall>a v. a \<in> set (vinput_vdevices s) \<longrightarrow> v_heap s a = Some v \<longrightarrow> int (v_id v) = i \<longrightarrow> cur' = Some a) \<and>
    (cur' = None \<or> (\<exists>a\<in>set (vinput_vdevices s). cur' = Some a))"
    using assms by (intro scan_vdevices_eq) (auto simp: vinv_def)
  then obtain cur where cur: "scan_vdevices (v_heap s) i (vinput_vdevices s) None = Some cur"
    "\<And>a v. v_heap s a = Some v \<Longrightarrow> int (v_id v) = i \<Longrightarrow> cur = Some a"
    "cur = None \<or> (\<exists>a\<in>dom (v_heap s). cur = Some a)"
    unfolding dom by blast
  show "vinput_get_vdevice_by_id s i = Some (Ptr a) \<longleftrightarrow>
      (\<exists>v. v_heap s a = Some v \<and> int (v_id v) = i)"
    using cur by (auto simp: vinput_get_vdevice_by_id_def split: option.splits)
  show "(\<forall>a v. v_heap s a = Some v \<longrightarrow> int (v_id v) \<noteq> i) \<Longrightarrow>
      vinput_get_vdevice_by_id s i = Some (ERR_PTR (- ENODEV))"
    using cur by (auto simp: vinput_get_vdevice_by_id_def split: option.splits)
  show "\<exists>p. vinput_get_vdevice_by_id s i = Some p"
    using cur by (auto simp: vinput_get_vdevice_by_id_def split: option.splits)
qed

subsection \<open>Destroying a device\<close>

lemma vinv_remove:
  assumes "vinv s" and "v_heap s a = Some v"
  shows "vinv (s\<lparr>vinput_vdevices := remove1 a (vinput_vdevices s),
    vinput_ids := (vinput_ids s)[v_id v := False], v_heap := (v_heap s)(a := None)\<rparr>)"
proof -
  have "v_id v \<noteq> v_id w" if "v_heap s b = Some w" "b \<noteq> a" for b w
    using assms that unfolding vinv_def by blast
  then show ?thesis using assms by (auto simp: vinv_defs)
qed

text \<open>Unregistering and releasing a live device removes it, its id and its object.\<close>

definition gone :: "vstate \<Rightarrow> nat \<Rightarrow> vinput \<Rightarrow> vstate" where
  "gone s a v = s\<lparr>vinput_vdevices := remove1 a (vinput_vdevices s),
     vinput_ids := (vinput_ids s)[v_id v := False], v_heap := (v_heap s)(a := None)\<rparr>"

lemma unregister_release_eq:
  assumes "vinv s" and "v_heap s a = Some v"
  shows "Option.bind (vinput_unregister_vdevice s a) (\<lambda>s. vinput_release_dev s a) = Some (gone s a v)"
proof -
  from assms obtain ops inp where o: "ops_of s v = Some ops" "vinput_driver ops"
    "v_input v = Some inp" "i_status inp = Input_Registered" by (rule vinv_ops)
  note listed = vinvD(1) [OF assms]
  show ?thesis
  proof (cases "op_kill ops")
    case None
    with o assms listed show ?thesis
      by (simp add: vinput_unregister_vdevice_def vinput_release_dev_def vinput_destroy_vdevice_def
          gone_def)
  next
    case (Some kill)
    with o assms listed vinput_driver.kill_frame [OF o(2) Some] show ?thesis
      by (simp add: vinput_unregister_vdevice_def vinput_release_dev_def vinput_destroy_vdevice_def
          gone_def Let_def)
  qed
qed

lemma vinv_gone: "vinv s \<Longrightarrow> v_heap s a = Some v \<Longrightarrow> vinv (gone s a v)"
  unfolding gone_def by (rule vinv_remove)

lemma unexport_found:
  assumes "vinv s" and "v_heap s a = Some v" and "kstrtol buf = Inr (int (v_id v))"
  shows "unexport_store kstrtol s buf len = Some (gone s a v, int len)"
proof -
  have "vinput_get_vdevice_by_id s (int (v_id v)) = Some (Ptr a)"
    using get_vdevice_by_id_eq(1) [OF assms(1)] assms(2) by blast
  then show ?thesis
    using unregister_release_eq [OF assms(1,2)] assms(3) by (simp add: unexport_store_def)
qed

lemma unexport_cases:
  assumes "vinv s"
  shows "(\<exists>e. kstrtol buf = Inl e \<and> unexport_store kstrtol s buf len = Some (s, - EINVAL)) \<or>
    (\<exists>i. kstrtol buf = Inr i \<and> (\<forall>a v. v_heap s a = Some v \<longrightarrow> int (v_id v) \<noteq> i) \<and>
       unexport_store kstrtol s buf len = Some (s, - ENODEV)) \<or>
    (\<exists>i a v. kstrtol buf = Inr i \<and> v_heap s a = Some v \<and> int (v_id v) = i \<and>
       unexport_store kstrtol s buf len = Some (gone s a v, int len))"
proof (cases "kstrtol buf")
  case (Inl e)
  then show ?thesis by (simp add: unexport_store_def)
next
  case (Inr i)
  show ?thesis
  proof (cases "\<exists>a v. v_heap s a = Some v \<and> int (v_id v) = i")
    case True
    then obtain a v where v: "v_heap s a = Some v" "int (v_id v) = i" by blast
    with Inr unexport_found [OF assms v(1), of kstrtol buf len] show ?thesis by blast
  next
    case False
    with Inr get_vdevice_by_id_eq(2) [OF assms, of i] show ?thesis
      by (auto simp: unexport_store_def)
  qed
qed

lemma vinv_unexport:
  assumes "vinv s" and "unexport_store kstrtol s buf len = Some (s', ret)"
  shows "vinv s'"
  using unexport_cases [OF assms(1), of kstrtol buf len] assms vinv_gone by auto

subsection \<open>Creating a device\<close>

lemma ffz_le: "find_first_zero_bit bits \<le> length bits"
  by (simp add: find_first_zero_bit_def length_takeWhile_le)

lemma ffz_free: "find_first_zero_bit bits < length bits \<Longrightarrow> \<not> bits ! find_first_zero_bit bits"
  using nth_length_takeWhile [of "\<lambda>b. b" bits] by (simp add: find_first_zero_bit_def)

lemma ffz_least: "j < find_first_zero_bit bits \<Longrightarrow> bits ! j"
  unfolding find_first_zero_bit_def by (metis nth_mem set_takeWhileD takeWhile_nth)

lemma ffz_full: "find_first_zero_bit bits = length bits \<longleftrightarrow> (\<forall>b\<in>set bits. b)"
proof
  assume "find_first_zero_bit bits = length bits"
  then have "takeWhile (\<lambda>b. b) bits = bits"
    unfolding find_first_zero_bit_def by (metis takeWhile_eq_take take_all order_refl)
  then show "\<forall>b\<in>set bits. b" using takeWhile_eq_all_conv [of "\<lambda>b. b" bits] by simp
next
  assume "\<forall>b\<in>set bits. b"
  with takeWhile_eq_all_conv [of "\<lambda>b. b" bits] show "find_first_zero_bit bits = length bits"
    unfolding find_first_zero_bit_def by metis
qed

text \<open>The addresses the allocator returns are not in use.\<close>

definition fresh_env :: "export_env \<Rightarrow> vstate \<Rightarrow> bool" where
  "fresh_env e s \<longleftrightarrow> (\<forall>a. kzalloc_ret e = Some a \<longrightarrow> v_heap s a = None)"

text \<open>The registry with one more device \<open>v\<close> at \<open>a\<close>, and the registry with the id \<open>i\<close> marked.\<close>

definition added :: "vstate \<Rightarrow> nat \<Rightarrow> vinput \<Rightarrow> vstate" where
  "added s a v = s\<lparr>vinput_ids := (vinput_ids s)[v_id v := True],
     vinput_vdevices := a # vinput_vdevices s, v_heap := (v_heap s)(a \<mapsto> v)\<rparr>"

definition id_marked :: "vstate \<Rightarrow> nat \<Rightarrow> vstate" where
  "id_marked s i = s\<lparr>vinput_ids := (vinput_ids s)[i := True]\<rparr>"

lemma set_bit_mono: "bits ! j \<Longrightarrow> bits[i := True] ! j"
  by (cases "i < length bits"; cases "i = j") (auto simp: list_update_beyond)

lemma vinv_id_marked: "vinv s \<Longrightarrow> vinv (id_marked s i)"
  by (auto simp: vinv_defs id_marked_def set_bit_mono)

lemma vinv_added:
  assumes "vinv s" and "v_heap s a = None" and "v_id v < VINPUT_MINORS"
    and "\<not> vinput_ids s ! v_id v" and "v_input v = Some inp" and "i_status inp = Input_Registered"
    and "v_type v = Some d" and "d \<in> set (vinput_devices s)"
  shows "vinv (added s a v)"
proof -
  have neq: "v_id v \<noteq> v_id w" "v_id w \<noteq> v_id v" "vinput_ids s ! v_id w" if "v_heap s b = Some w" for b w
    using vinvD(3) [OF assms(1) that] assms(4) by auto
  have "a \<notin> set (vinput_vdevices s)" using assms(1,2) by (auto simp: vinv_def)
  then show ?thesis
    using assms neq by (auto simp: vinv_defs added_def)
qed

lemma undo_alloc:
  assumes "v_heap s a = None" and "i < length (vinput_ids s)" and "\<not> vinput_ids s ! i"
  shows "s\<lparr>vinput_ids := (vinput_ids s)[i := False], vinput_vdevices := vinput_vdevices s,
    v_heap := (v_heap s)(a := None)\<rparr> = s"
proof -
  have "(vinput_ids s)[i := False] = vinput_ids s" using assms by (simp add: list_update_same_conv)
  moreover have "(v_heap s)(a := None) = v_heap s" using assms(1) by auto
  ultimately show ?thesis by simp
qed

text \<open>
  All outcomes of an export. When the input device cannot be allocated, the id stays marked; every
  other failure leaves the registry as it was.
\<close>

lemma export_no_driver:
  "vinput_get_device_by_type s buf = Some (ERR_PTR err) \<Longrightarrow> export_store e s buf len = Some (s, err)"
  by (simp add: export_store_def)

lemma export_alloc_fail:
  assumes "vinv s" and "fresh_env e s" and "vinput_get_device_by_type s buf = Some (Ptr d)"
  shows "kzalloc_ret e = None \<Longrightarrow> export_store e s buf len = Some (s, - ENOMEM)"
    and "kzalloc_ret e \<noteq> None \<Longrightarrow> find_first_zero_bit (vinput_ids s) = VINPUT_MINORS \<Longrightarrow>
      export_store e s buf len = Some (s, - ENOBUFS)"
    and "kzalloc_ret e \<noteq> None \<Longrightarrow> find_first_zero_bit (vinput_ids s) < VINPUT_MINORS \<Longrightarrow>
      \<not> input_alloc_ok e \<Longrightarrow> export_store e s buf len =
        Some (id_marked s (find_first_zero_bit (vinput_ids s)), - ENOMEM)"
proof -
  show "kzalloc_ret e = None \<Longrightarrow> export_store e s buf len = Some (s, - ENOMEM)"
    using assms by (simp add: export_store_def vinput_alloc_vdevice_def)
  show "kzalloc_ret e \<noteq> None \<Longrightarrow> find_first_zero_bit (vinput_ids s) = VINPUT_MINORS \<Longrightarrow>
      export_store e s buf len = Some (s, - ENOBUFS)"
    using assms by (auto simp: export_store_def vinput_alloc_vdevice_def Let_def)
  assume "kzalloc_ret e \<noteq> None" and i: "find_first_zero_bit (vinput_ids s) < VINPUT_MINORS"
    and "\<not> input_alloc_ok e"
  moreover then obtain a where a: "kzalloc_ret e = Some a" "v_heap s a = None"
    using assms(2) by (auto simp: fresh_env_def)
  moreover from a have "(v_heap s)(a := None) = v_heap s" by auto
  ultimately show "export_store e s buf len =
      Some (id_marked s (find_first_zero_bit (vinput_ids s)), - ENOMEM)"
    using assms(3) by (simp add: export_store_def vinput_alloc_vdevice_def id_marked_def Let_def)
qed

text \<open>The new device before its driver has set it up, and after.\<close>

definition fresh_vinput :: "vstate \<Rightarrow> nat \<Rightarrow> vinput_device \<Rightarrow> vinput" where
  "fresh_vinput s d dev = \<lparr>v_id = find_first_zero_bit (vinput_ids s), v_last_entry = 0,
     v_input = Some (new_input_dev\<lparr>i_name := vd_name dev\<rparr>), v_type = Some d\<rparr>"

lemma fresh_vinput_init:
  assumes "vinput_driver ops"
  shows "\<exists>v e inp. op_init ops (fresh_vinput s d dev) r = Some (v, e) \<and>
    v_id v = find_first_zero_bit (vinput_ids s) \<and> v_type v = Some d \<and> v_input v = Some inp \<and>
    i_status inp = (if e < 0 then Input_Allocated else Input_Registered)"
  using vinput_driver.init_ok [OF assms, of "fresh_vinput s d dev" "new_input_dev\<lparr>i_name := vd_name dev\<rparr>" r]
  by (simp add: fresh_vinput_def new_input_dev_def)

lemma export_late_fail:
  assumes "vinv s" and "fresh_env e s" and "vinput_get_device_by_type s buf = Some (Ptr d)"
    and "v_drivers s d = Some dev" and "kzalloc_ret e = Some a"
    and "find_first_zero_bit (vinput_ids s) < VINPUT_MINORS" and "input_alloc_ok e"
    and "vinput_driver (vd_ops dev)"
  shows "device_register_ret e < 0 \<Longrightarrow> export_store e s buf len = Some (s, device_register_ret e)"
    and "0 \<le> device_register_ret e \<Longrightarrow>
      op_init (vd_ops dev) (fresh_vinput s d dev) (input_register_ret e) = Some (v, r) \<Longrightarrow> r < 0 \<Longrightarrow>
      export_store e s buf len = Some (s, r)"
    and "0 \<le> device_register_ret e \<Longrightarrow>
      op_init (vd_ops dev) (fresh_vinput s d dev) (input_register_ret e) = Some (v, r) \<Longrightarrow> 0 \<le> r \<Longrightarrow>
      export_store e s buf len = Some (added s a v, int len)"
proof -
  let ?i = "find_first_zero_bit (vinput_ids s)"
  have a: "v_heap s a = None" using assms(2,5) by (simp add: fresh_env_def)
  have len: "?i < length (vinput_ids s)" using assms(1,6) by (simp add: vinv_def)
  note undo = undo_alloc [OF a len ffz_free [OF len]]
  show "device_register_ret e < 0 \<Longrightarrow> export_store e s buf len = Some (s, device_register_ret e)"
    using assms undo
    by (simp add: export_store_def vinput_alloc_vdevice_def input_free_device_def Let_def
        vinput_destroy_vdevice_def new_input_dev_def)
  assume ok: "0 \<le> device_register_ret e"
    and init: "op_init (vd_ops dev) (fresh_vinput s d dev) (input_register_ret e) = Some (v, r)"
  obtain inp where v: "v_id v = ?i" "v_type v = Some d" and inp: "v_input v = Some inp"
    "i_status inp = (if r < 0 then Input_Allocated else Input_Registered)"
    using fresh_vinput_init [OF assms(8), of s d dev "input_register_ret e"] init by auto
  note init' = init [unfolded fresh_vinput_def new_input_dev_def, simplified]
  show "r < 0 \<Longrightarrow> export_store e s buf len = Some (s, r)"
    using assms undo ok init' v inp
    by (simp add: export_store_def vinput_alloc_vdevice_def input_free_device_def Let_def
        vinput_destroy_vdevice_def vinput_release_dev_def vinput_register_vdevice_def
        new_input_dev_def)
  show "0 \<le> r \<Longrightarrow> export_store e s buf len = Some (added s a v, int len)"
    using assms ok init' v
    by (simp add: export_store_def vinput_alloc_vdevice_def Let_def vinput_register_vdevice_def
        new_input_dev_def added_def)
qed

lemma get_device_Ptr:
  assumes "vinv s" and "vinput_get_device_by_type s buf = Some (Ptr d)"
  obtains dev where "d \<in> set (vinput_devices s)" and "v_drivers s d = Some dev"
    and "vinput_driver (vd_ops dev)" and "take (length (vd_name dev)) buf = vd_name dev"
proof -
  from assms(2) have "find_device (v_drivers s) buf (vinput_devices s) = Some (Some d)"
    by (auto simp: vinput_get_device_by_type_def split: option.splits)
  from find_device_sound [OF this] obtain dev where "d \<in> set (vinput_devices s)"
    "v_drivers s d = Some dev" "take (length (vd_name dev)) buf = vd_name dev" by blast
  moreover with assms(1) have "vinput_driver (vd_ops dev)" by (auto simp: vinv_def drivers_ok_def)
  ultimately show ?thesis using that by blast
qed

lemma get_device_ERR:
  "vinput_get_device_by_type s buf = Some (ERR_PTR err) \<Longrightarrow> err = - ENODEV"
  by (auto simp: vinput_get_device_by_type_def split: option.splits)

text \<open>
  The three shapes of an export's result, each of which keeps the invariant: nothing has changed, only
  an id is marked, or there is one device more.
\<close>

definition export_result :: "export_env \<Rightarrow> vstate \<Rightarrow> string \<Rightarrow> nat \<Rightarrow> vstate \<Rightarrow> int \<Rightarrow> bool" where
  "export_result e s buf len s' ret \<longleftrightarrow>
     s' = s \<and> ret < 0 \<and> (\<forall>err. vinput_get_device_by_type s buf = Some (ERR_PTR err) \<longrightarrow> ret = - ENODEV) \<or>
     s' = id_marked s (find_first_zero_bit (vinput_ids s)) \<and> ret = - ENOMEM \<and> \<not> input_alloc_ok e \<and>
       find_first_zero_bit (vinput_ids s) < VINPUT_MINORS \<and> (\<exists>d. vinput_get_device_by_type s buf = Some (Ptr d)) \<or>
     (\<exists>a v. s' = added s a v \<and> ret = int len \<and> kzalloc_ret e = Some a \<and>
        v_id v = find_first_zero_bit (vinput_ids s) \<and> v_id v < VINPUT_MINORS \<and>
        (\<exists>d dev r. vinput_get_device_by_type s buf = Some (Ptr d) \<and> v_type v = Some d \<and> v_drivers s d = Some dev \<and>
           op_init (vd_ops dev) (fresh_vinput s d dev) (input_register_ret e) = Some (v, r) \<and> 0 \<le> r))"

text \<open>An export that gets as far as registering: the driver and the two allocations are there.\<close>

lemma export_late:
  assumes "vinv s" and "fresh_env e s" and Ptr: "vinput_get_device_by_type s buf = Some (Ptr d)"
    and dev: "d \<in> set (vinput_devices s)" "v_drivers s d = Some dev" "vinput_driver (vd_ops dev)"
    and late: "kzalloc_ret e = Some a" "find_first_zero_bit (vinput_ids s) < VINPUT_MINORS" "input_alloc_ok e"
  shows "\<exists>s' ret. export_store e s buf len = Some (s', ret) \<and> vinv s' \<and> export_result e s buf len s' ret"
proof -
  note late_fails = export_late_fail [OF assms(1,2) Ptr dev(2) late dev(3)]
  show ?thesis
  proof (cases "device_register_ret e < 0")
    case True
    with late_fails(1) assms(1) Ptr show ?thesis by (simp add: export_result_def)
  next
    case False
    obtain v r inp where init:
      "op_init (vd_ops dev) (fresh_vinput s d dev) (input_register_ret e) = Some (v, r)"
      and v: "v_id v = find_first_zero_bit (vinput_ids s)" "v_type v = Some d"
      and inp: "v_input v = Some inp"
        "i_status inp = (if r < 0 then Input_Allocated else Input_Registered)"
      using fresh_vinput_init [OF dev(3), of s d dev "input_register_ret e"] by blast
    show ?thesis
    proof (cases "r < 0")
      case True
      with False init late_fails(2) assms(1) Ptr show ?thesis by (simp add: export_result_def)
    next
      case ok: False
      have "vinv (added s a v)"
        using assms late v inp ok dev(1) ffz_free [of "vinput_ids s"]
        by (intro vinv_added) (auto simp: fresh_env_def vinv_def)
      moreover have "export_store e s buf len = Some (added s a v, int len)"
        using False ok init late_fails(3) by simp
      ultimately show ?thesis using late v Ptr dev(2) init ok by (auto simp: export_result_def)
    qed
  qed
qed

lemma export_cases:
  assumes "vinv s" and "fresh_env e s"
  shows "\<exists>s' ret. export_store e s buf len = Some (s', ret) \<and> vinv s' \<and>
    (s' = s \<and> ret < 0 \<and> (\<forall>err. vinput_get_device_by_type s buf = Some (ERR_PTR err) \<longrightarrow> ret = - ENODEV) \<or>
     s' = id_marked s (find_first_zero_bit (vinput_ids s)) \<and> ret = - ENOMEM \<and> \<not> input_alloc_ok e \<and>
       find_first_zero_bit (vinput_ids s) < VINPUT_MINORS \<and> (\<exists>d. vinput_get_device_by_type s buf = Some (Ptr d)) \<or>
     (\<exists>a v. s' = added s a v \<and> ret = int len \<and> kzalloc_ret e = Some a \<and>
        v_id v = find_first_zero_bit (vinput_ids s) \<and> v_id v < VINPUT_MINORS \<and>
        (\<exists>d dev r. vinput_get_device_by_type s buf = Some (Ptr d) \<and> v_type v = Some d \<and> v_drivers s d = Some dev \<and>
           op_init (vd_ops dev) (fresh_vinput s d dev) (input_register_ret e) = Some (v, r) \<and> 0 \<le> r)))"
  unfolding export_result_def [symmetric]
proof -
  consider err where "vinput_get_device_by_type s buf = Some (ERR_PTR err)"
    | d where "vinput_get_device_by_type s buf = Some (Ptr d)"
    using get_device_total [of s buf] assms(1) unfolding vinv_def by (metis err_ptr.exhaust)
  then show "\<exists>s' ret. export_store e s buf len = Some (s', ret) \<and> vinv s' \<and> export_result e s buf len s' ret"
  proof cases
    case ERR_PTR: (1 err)
    with assms get_device_ERR [OF ERR_PTR] show ?thesis by (simp add: export_no_driver export_result_def)
  next
    case Ptr: (2 d)
    note fails = export_alloc_fail [OF assms Ptr, of len]
    have le: "find_first_zero_bit (vinput_ids s) \<le> VINPUT_MINORS"
      using ffz_le [of "vinput_ids s"] assms(1) by (simp add: vinv_def)
    obtain dev where dev: "d \<in> set (vinput_devices s)" "v_drivers s d = Some dev" "vinput_driver (vd_ops dev)"
      using get_device_Ptr [OF assms(1) Ptr] by blast
    consider (nomem) "kzalloc_ret e = None"
      | (full) "kzalloc_ret e \<noteq> None" "find_first_zero_bit (vinput_ids s) = VINPUT_MINORS"
      | (noinput) "kzalloc_ret e \<noteq> None" "find_first_zero_bit (vinput_ids s) < VINPUT_MINORS" "\<not> input_alloc_ok e"
      | (late) a where "kzalloc_ret e = Some a" "find_first_zero_bit (vinput_ids s) < VINPUT_MINORS" "input_alloc_ok e"
      using le by fastforce
    then show ?thesis
    proof cases
      case nomem
      with fails(1) assms(1) Ptr show ?thesis by (simp add: export_result_def)
    next
      case full
      with fails(2) assms(1) Ptr show ?thesis by (simp add: export_result_def)
    next
      case noinput
      with fails(3) vinv_id_marked [OF assms(1)] Ptr show ?thesis by (simp add: export_result_def)
    next
      case late
      from export_late [OF assms Ptr dev late] show ?thesis .
    qed
  qed
qed

subsection \<open>Writing to a device\<close>

lemma vinv_write:
  assumes "vinv s" and "v_heap s a = Some v"
  shows "\<exists>s' ret v'. vinput_write s a data uncopied = Some (s', ret) \<and> vinv s' \<and>
    s' = s\<lparr>v_heap := (v_heap s)(a \<mapsto> v')\<rparr> \<and> v_id v' = v_id v"
proof -
  from assms obtain ops inp where o: "ops_of s v = Some ops" "vinput_driver ops"
    "v_input v = Some inp" "i_status inp = Input_Registered" by (rule vinv_ops)
  show ?thesis
  proof (cases "length data > VINPUT_MAX_LEN \<or> uncopied \<noteq> 0")
    case True
    then have "\<exists>ret. vinput_write s a data uncopied = Some (s, ret)"
      using assms(2) by (auto simp: vinput_write_def Let_def)
    moreover have "s = s\<lparr>v_heap := (v_heap s)(a \<mapsto> v)\<rparr>" using assms(2) by (simp add: fun_upd_idem)
    ultimately show ?thesis using assms(1) by metis
  next
    case False
    let ?b = "data @ zeros (VINPUT_MAX_LEN + 1 - length data)"
    have "terminated ?b" using False by (simp add: terminated_def zeros_def)
    then obtain v' ret inp' where send: "op_send ops v ?b (int (length data)) = Some (v', ret)"
      and v': "v_id v' = v_id v" "v_type v' = v_type v" "v_input v' = Some inp'"
        "i_status inp' = Input_Registered"
      using vinput_driver.send_ok [OF o(2-4), of ?b "int (length data)"] False by auto
    have "vinv (s\<lparr>v_heap := (v_heap s)(a \<mapsto> v')\<rparr>)"
      using assms v' unfolding vinv_defs by (simp add: insert_absorb domI) metis
    with False assms o send show ?thesis
      by (auto simp: vinput_write_def Let_def intro!: exI [of _ v'] v'(1))
  qed
qed

subsection \<open>Registering and unregistering drivers\<close>

lemma vinv_register:
  assumes "vinv s" and "d \<notin> set (vinput_devices s)" and "v_drivers s d = Some dev"
    and "vinput_driver (vd_ops dev)"
  shows "vinv (fst (vinput_register s d))"
  using assms unfolding vinv_defs vinput_register_def by (simp, blast)

text \<open>The list of drivers plays no part in unregistering a device.\<close>

lemma unregister_devices_upd:
  "Option.bind (vinput_unregister_vdevice (s\<lparr>vinput_devices := ds\<rparr>) a) (\<lambda>s. vinput_release_dev s a) =
    map_option (\<lambda>s'. s'\<lparr>vinput_devices := ds\<rparr>)
      (Option.bind (vinput_unregister_vdevice s a) (\<lambda>s. vinput_release_dev s a))"
  by (simp add: vinput_unregister_vdevice_def vinput_release_dev_def vinput_destroy_vdevice_def
      ops_of_def Let_def split: option.splits)

lemma unregister_loop_devices_upd:
  "unregister_loop (s\<lparr>vinput_devices := ds\<rparr>) d as =
    map_option (\<lambda>s'. s'\<lparr>vinput_devices := ds\<rparr>) (unregister_loop s d as)"
proof (induction as arbitrary: s)
  case (Cons a as)
  then show ?case by (simp add: unregister_devices_upd split: option.splits)
qed simp

text \<open>The loop removes exactly the devices of the driver, among those it visits.\<close>

lemma unregister_loop_eq:
  assumes "vinv s" and "set as \<subseteq> dom (v_heap s)" and "distinct as"
  shows "\<exists>s'. unregister_loop s d as = Some s' \<and> vinv s' \<and>
    vinput_devices s' = vinput_devices s \<and> v_drivers s' = v_drivers s \<and>
    (\<forall>b. v_heap s' b = (case v_heap s b of None \<Rightarrow> None
       | Some v \<Rightarrow> if b \<in> set as \<and> v_type v = Some d then None else Some v)) \<and>
    (\<forall>i. vinput_ids s' ! i \<longleftrightarrow> vinput_ids s ! i \<and>
       (\<forall>b v. b \<in> set as \<longrightarrow> v_heap s b = Some v \<longrightarrow> v_type v = Some d \<longrightarrow> v_id v \<noteq> i))"
  using assms
proof (induction as arbitrary: s)
  case Nil
  then show ?case by (auto split: option.splits)
next
  case (Cons a as)
  then obtain v where v: "v_heap s a = Some v" by auto
  show ?case
  proof (cases "v_type v = Some d")
    case False
    with v Cons.IH [of s] Cons.prems obtain s' where s': "unregister_loop s d as = Some s'"
      "vinv s'" "vinput_devices s' = vinput_devices s" "v_drivers s' = v_drivers s"
      "\<And>b. v_heap s' b = (case v_heap s b of None \<Rightarrow> None
         | Some v \<Rightarrow> if b \<in> set as \<and> v_type v = Some d then None else Some v)"
      "\<And>i. vinput_ids s' ! i \<longleftrightarrow> vinput_ids s ! i \<and>
         (\<forall>b v. b \<in> set as \<longrightarrow> v_heap s b = Some v \<longrightarrow> v_type v = Some d \<longrightarrow> v_id v \<noteq> i)"
      by auto
    have "unregister_loop s d (a # as) = Some s'" using s'(1) v False by simp
    moreover have "v_heap s' b = (case v_heap s b of None \<Rightarrow> None
       | Some v \<Rightarrow> if b \<in> set (a # as) \<and> v_type v = Some d then None else Some v)" for b
      using s'(5) [of b] v False by (auto split: option.splits)
    moreover have "vinput_ids s' ! i \<longleftrightarrow> vinput_ids s ! i \<and>
       (\<forall>b v. b \<in> set (a # as) \<longrightarrow> v_heap s b = Some v \<longrightarrow> v_type v = Some d \<longrightarrow> v_id v \<noteq> i)" for i
      using s'(6) [of i] v False by auto
    ultimately show ?thesis using s'(2,3,4) by blast
  next
    case True
    let ?g = "gone s a v"
    have vg: "vinv ?g" using vinv_gone [OF Cons.prems(1) v] .
    have heap: "v_heap ?g = (v_heap s)(a := None)" by (simp add: gone_def)
    have ids: "vinput_ids ?g = (vinput_ids s)[v_id v := False]" by (simp add: gone_def)
    have bound: "v_id v < length (vinput_ids s)"
      using vinvD(2) [OF Cons.prems(1) v] Cons.prems(1) by (simp add: vinv_def)
    have "set as \<subseteq> dom (v_heap ?g)" using Cons.prems by (auto simp: heap)
    then obtain s' where s': "unregister_loop ?g d as = Some s'" "vinv s'"
      "vinput_devices s' = vinput_devices ?g" "v_drivers s' = v_drivers ?g"
      "\<And>b. v_heap s' b = (case v_heap ?g b of None \<Rightarrow> None
         | Some v \<Rightarrow> if b \<in> set as \<and> v_type v = Some d then None else Some v)"
      "\<And>i. vinput_ids s' ! i \<longleftrightarrow> vinput_ids ?g ! i \<and>
         (\<forall>b v. b \<in> set as \<longrightarrow> v_heap ?g b = Some v \<longrightarrow> v_type v = Some d \<longrightarrow> v_id v \<noteq> i)"
      using Cons.IH [of ?g] Cons.prems(3) vg by auto
    have "unregister_loop s d (a # as) = Some s'"
      using s'(1) v True unregister_release_eq [OF Cons.prems(1) v] by simp
    moreover have "v_heap s' b = (case v_heap s b of None \<Rightarrow> None
       | Some v \<Rightarrow> if b \<in> set (a # as) \<and> v_type v = Some d then None else Some v)" for b
      using s'(5) [of b] v True by (auto simp: heap split: option.splits)
    moreover have "vinput_ids s' ! i \<longleftrightarrow> vinput_ids s ! i \<and>
       (\<forall>b v. b \<in> set (a # as) \<longrightarrow> v_heap s b = Some v \<longrightarrow> v_type v = Some d \<longrightarrow> v_id v \<noteq> i)" for i
      using s'(6) [of i] v True Cons.prems(3) bound
      by (cases "i = v_id v") (auto simp: heap ids)
    moreover have "vinput_devices s' = vinput_devices s" "v_drivers s' = v_drivers s"
      using s'(3,4) by (simp_all add: gone_def)
    ultimately show ?thesis using s'(2) by blast
  qed
qed

text \<open>Unregistering a driver destroys its devices, frees their ids and touches no other device.\<close>

lemma unregister_eq:
  assumes "vinv s" and "d \<in> set (vinput_devices s)"
  shows "\<exists>s'. vinput_unregister s d = Some s' \<and> vinv s' \<and>
    vinput_devices s' = remove1 d (vinput_devices s) \<and> v_drivers s' = v_drivers s \<and>
    (\<forall>b. v_heap s' b = (case v_heap s b of None \<Rightarrow> None
       | Some v \<Rightarrow> if v_type v = Some d then None else Some v)) \<and>
    (\<forall>i. vinput_ids s' ! i \<longleftrightarrow> vinput_ids s ! i \<and>
       (\<forall>b v. v_heap s b = Some v \<longrightarrow> v_type v = Some d \<longrightarrow> v_id v \<noteq> i))"
proof -
  have dom: "set (vinput_vdevices s) = dom (v_heap s)" "distinct (vinput_vdevices s)"
    using assms(1) by (simp_all add: vinv_def)
  then obtain s' where s': "unregister_loop s d (vinput_vdevices s) = Some s'" "vinv s'"
    "vinput_devices s' = vinput_devices s" "v_drivers s' = v_drivers s"
    and heap: "\<And>b. v_heap s' b = (case v_heap s b of None \<Rightarrow> None
       | Some v \<Rightarrow> if b \<in> set (vinput_vdevices s) \<and> v_type v = Some d then None else Some v)"
    and ids: "\<And>i. vinput_ids s' ! i \<longleftrightarrow> vinput_ids s ! i \<and> (\<forall>b v. b \<in> set (vinput_vdevices s) \<longrightarrow>
       v_heap s b = Some v \<longrightarrow> v_type v = Some d \<longrightarrow> v_id v \<noteq> i)"
    using unregister_loop_eq [OF assms(1), of "vinput_vdevices s" d] by blast
  have heap': "v_heap s' b = (case v_heap s b of None \<Rightarrow> None
     | Some v \<Rightarrow> if v_type v = Some d then None else Some v)" for b
    using heap [of b] dom(1) by (auto split: option.splits)
  have ids': "vinput_ids s' ! i \<longleftrightarrow> vinput_ids s ! i \<and>
     (\<forall>b v. v_heap s b = Some v \<longrightarrow> v_type v = Some d \<longrightarrow> v_id v \<noteq> i)" for i
    using ids [of i] dom(1) by blast
  define t where "t = s'\<lparr>vinput_devices := remove1 d (vinput_devices s)\<rparr>"
  have no_d: "v_type v \<noteq> Some d" if "v_heap s' b = Some v" for b v
    using that heap' [of b] by (auto split: option.splits if_splits)
  have "vdev_ok t v" if "v_heap s' b = Some v" for b v
  proof -
    from s'(2) that have "vdev_ok s' v" by (simp add: vinv_def)
    with no_d [OF that] s'(3) assms show ?thesis
      by (auto simp: vdev_ok_def t_def vinv_def drivers_ok_def)
  qed
  moreover have "drivers_ok t"
    using s'(2,3) by (auto simp: t_def vinv_def drivers_ok_def dest: notin_set_remove1)
  ultimately have "vinv t" using s'(2) by (auto simp: t_def vinv_def)
  moreover have "vinput_unregister s d = Some t"
    by (simp add: vinput_unregister_def unregister_loop_devices_upd s'(1) t_def assms(2))
  ultimately show ?thesis using heap' ids' s'(4) by (auto simp: t_def)
qed

subsection \<open>Reading from a device\<close>

text \<open>A process that has the device at \<open>a\<close> open: the registry, \<open>a\<close>, what the handler's stack holds,
  and the file offset.\<close>

type_synonym vinput_file = "vstate \<times> nat \<times> char list \<times> int"

definition vinput_sys_read :: "vinput_file sys_read" where
  "vinput_sys_read f n =
     (case f of (s, a, stack, off) \<Rightarrow>
        map_option (\<lambda>(ret, off', data). ((s, a, stack, off'),
            if ret < 0 then Inl (- ret) else Inr data))
          (vinput_read s a stack n off 0))"

context vinput_driver
begin

text \<open>
  A read accesses nothing outside its buffer, at any offset and for any count, and hands on no more
  than it was asked for.
\<close>

lemma read_in_bounds:
  assumes "v_heap s a = Some v" and "ops_of s v = Some ops"
    and "length stack = VINPUT_MAX_LEN + 1" and "count \<le> MAX_RW_COUNT" and "0 \<le> off"
  shows "\<exists>ret off' data. vinput_read s a stack count off uncopied = Some (ret, off', data) \<and>
    0 \<le> off' \<and> ret \<le> int count \<and> length data \<le> count \<and> length data \<le> VINPUT_MAX_LEN"
proof -
  obtain b len where r: "op_read ops v stack (int count) = Some (b, len)"
    "length b = VINPUT_MAX_LEN + 1" "0 \<le> len" "len \<le> int VINPUT_MAX_LEN"
    using read_bounds [OF assms(3,4)] by blast
  then show ?thesis
    using assms by (auto simp: vinput_read_def Let_def)
qed

end

lemma vinv_read:
  assumes "vinv s" and "v_heap s a \<noteq> None"
    and "length stack = VINPUT_MAX_LEN + 1" and "count \<le> MAX_RW_COUNT" and "0 \<le> off"
  shows "\<exists>ret off' data. vinput_read s a stack count off uncopied = Some (ret, off', data) \<and>
    0 \<le> off' \<and> ret \<le> int count \<and> length data \<le> count \<and> length data \<le> VINPUT_MAX_LEN"
proof -
  from assms(2) obtain v where v: "v_heap s a = Some v" by auto
  obtain ops where "ops_of s v = Some ops" "vinput_driver ops" using vinv_ops [OF assms(1) v] by blast
  then show ?thesis using vinput_driver.read_in_bounds v assms(3-5) by blast
qed

context vinput_reader
begin

text \<open>
  A read that asks for more than the rest of the buffer gets the rest of the text and no more.
\<close>

lemma read_rest:
  assumes "v_heap s a = Some v" and "ops_of s v = Some ops"
    and "length stack = VINPUT_MAX_LEN + 1" and "count \<le> MAX_RW_COUNT"
    and "VINPUT_MAX_LEN < count" and "0 \<le> off" and "nat off \<le> length (shown v)"
  shows "vinput_read s a stack count off 0 =
    Some (int (length (shown v)) - off, int (length (shown v)), drop (nat off) (shown v))"
proof -
  have "length (shown v) < count" using shown_bound [of v] assms(5) by simp
  then obtain b where r: "op_read ops v stack (int count) = Some (b, int (length (shown v)))"
    "length b = VINPUT_MAX_LEN + 1" "take (length (shown v)) b = shown v"
    using read_shown [OF assms(3,4)] by blast
  have "take (length (shown v) - nat off) (drop (nat off) b) = drop (nat off) (shown v)"
    using r(3) by (metis drop_take)
  moreover have "nat (int (length (shown v)) - off) = length (shown v) - nat off"
    using assms by simp
  ultimately show ?thesis
    using assms r shown_bound [of v] by (simp add: vinput_read_def Let_def)
qed

definition vfile_ok :: "vinput_file \<Rightarrow> bool" where
  "vfile_ok f \<longleftrightarrow> (case f of (s, a, stack, off) \<Rightarrow>
     length stack = VINPUT_MAX_LEN + 1 \<and> 0 \<le> off \<and>
     (\<exists>v. v_heap s a = Some v \<and> ops_of s v = Some ops \<and> nat off \<le> length (shown v)))"

definition vfile_rest :: "vinput_file \<Rightarrow> string" where
  "vfile_rest f = (case f of (s, a, stack, off) \<Rightarrow>
     (case v_heap s a of None \<Rightarrow> [] | Some v \<Rightarrow> drop (nat off) (shown v)))"

end

sublocale vinput_reader \<subseteq> vfile: seq_reader vinput_sys_read vfile_rest vfile_ok
    "VINPUT_MAX_LEN + 1" MAX_RW_COUNT
proof unfold_locales
  fix f :: vinput_file and n
  assume ok: "vfile_ok f" and rest: "vfile_rest f \<noteq> []"
    and n: "VINPUT_MAX_LEN + 1 \<le> n" "n \<le> MAX_RW_COUNT"
  obtain s a stack off where f: "f = (s, a, stack, off)" by (cases f)
  from ok obtain v where v: "v_heap s a = Some v" "ops_of s v = Some ops" "0 \<le> off"
    "nat off \<le> length (shown v)" "length stack = VINPUT_MAX_LEN + 1"
    by (auto simp: f vfile_ok_def)
  have "vinput_sys_read f n =
      Some ((s, a, stack, int (length (shown v))), Inr (drop (nat off) (shown v)))"
    using read_rest [OF v(1,2,5) n(2) _ v(3,4)] v n by (simp add: f vinput_sys_read_def)
  then show "\<exists>f' d. vinput_sys_read f n = Some (f', Inr d) \<and> d \<noteq> [] \<and>
      vfile_rest f = d @ vfile_rest f' \<and> vfile_ok f'"
    using rest v by (auto simp: f vfile_rest_def vfile_ok_def)
next
  fix f :: vinput_file and n
  assume ok: "vfile_ok f" and rest: "vfile_rest f = []"
    and n: "VINPUT_MAX_LEN + 1 \<le> n" "n \<le> MAX_RW_COUNT"
  obtain s a stack off where f: "f = (s, a, stack, off)" by (cases f)
  from ok obtain v where v: "v_heap s a = Some v" "ops_of s v = Some ops" "0 \<le> off"
    "nat off \<le> length (shown v)" "length stack = VINPUT_MAX_LEN + 1"
    by (auto simp: f vfile_ok_def)
  from rest v have "nat off = length (shown v)" by (simp add: f vfile_rest_def)
  then show "\<exists>f'. vinput_sys_read f n = Some (f', Inr [])"
    using read_rest [OF v(1,2,5) n(2) _ v(3,4)] v n by (simp add: f vinput_sys_read_def)
qed

end
