(* ===== verification/Vkbd.thy ===== *)
theory Vkbd
  imports Vinput_Inv
begin

unbundle bit_operations_syntax

text \<open>
  examples/vkbd.c: the virtual keyboard, a driver for the registry of vinput.c. A process writes a
  signed decimal key code; the driver remembers it, reports a press or a release to the input
  subsystem, and shows it to readers with its sign. \<open>kstrtol\<close>, the kernel's parser of decimal
  numbers, is a parameter: it returns an error (\<open>Inl\<close>) or a number.
\<close>

text \<open>Constants of linux/input-event-codes.h.\<close>

definition EV_KEY :: nat where "EV_KEY = 1"
definition EV_REP :: nat where "EV_REP = 20"
definition KEY_MAX :: nat where "KEY_MAX = 767"

definition VINPUT_RELEASE :: int where "VINPUT_RELEASE = 0"
definition VINPUT_PRESS :: int where "VINPUT_PRESS = 1"

definition BIT_MASK :: "nat \<Rightarrow> 64 word" where
  "BIT_MASK n = push_bit (n mod 64) 1"

subsection \<open>Operations\<close>

text \<open>\<open>for (i = 0; i < KEY_MAX; i++) set_bit(vkeymap[i], vinput->input->keybit);\<close>\<close>

definition set_keybits :: "nat list \<Rightarrow> nat set \<Rightarrow> nat set" where
  "set_keybits vkeymap keybit = fold (\<lambda>i kb. insert (vkeymap ! i) kb) [0..<KEY_MAX] keybit"

text \<open>\<open>input_register_device\<close>, for the answer \<open>reg_ret\<close> of the input subsystem.\<close>

definition input_register_device :: "input_dev \<Rightarrow> int \<Rightarrow> input_dev \<times> int" where
  "input_register_device inp reg_ret =
     (if reg_ret < 0 then (inp, reg_ret) else (inp\<lparr>i_status := Input_Registered\<rparr>, reg_ret))"

definition vinput_vkbd_init :: "nat list \<Rightarrow> vinput \<Rightarrow> int \<Rightarrow> (vinput \<times> int) option" where
  "vinput_vkbd_init vkeymap v reg_ret =
     (case v_input v of
        None \<Rightarrow> None
      | Some inp \<Rightarrow>
          (let inp = inp\<lparr>i_evbit := BIT_MASK EV_KEY OR BIT_MASK EV_REP,
                         i_keycodesize := 2, i_keycodemax := KEY_MAX, i_keycode := vkeymap,
                         i_keybit := set_keybits vkeymap (i_keybit inp)\<rparr>;
               (inp, ret) = input_register_device inp reg_ret
           in Some (v\<lparr>v_input := Some inp\<rparr>, ret)))"

text \<open>An int converted to \<open>size_t\<close>.\<close>

definition int_to_size :: "int \<Rightarrow> nat" where
  "int_to_size n = nat (n mod 2 ^ 64)"

text \<open>The text \<open>"%+ld\n"\<close> of an entry.\<close>

definition vkbd_text :: "64 word \<Rightarrow> string" where
  "vkbd_text e = dec_int_plus (sint e) @ [LF]"

definition vinput_vkbd_read :: "vinput \<Rightarrow> char list \<Rightarrow> int \<Rightarrow> (char list \<times> int) option" where
  "vinput_vkbd_read v buff len = c_snprintf buff (int_to_size len) (vkbd_text (v_last_entry v))"

text \<open>
  \<open>vinput_vkbd_send\<close>. A string that does not parse leaves \<open>key\<close> at its initial 0; the code goes on
  with it. The negation of the most negative number is itself.
\<close>

definition vinput_vkbd_send ::
    "(string \<Rightarrow> int + int) \<Rightarrow> vinput \<Rightarrow> char list \<Rightarrow> int \<Rightarrow> (vinput \<times> int) option" where
  "vinput_vkbd_send kstrtol v buff len =
     (case (rd buff 0, v_input v) of
        (Some c, Some inp) \<Rightarrow>
          (let parsed = kstrtol (cstr (if c = CHR ''+'' then drop 1 buff else buff));
               key = (case parsed of Inl _ \<Rightarrow> 0 | Inr k \<Rightarrow> word_of_int k) :: 64 word;
               (code, type) = (if sint key < 0 then (- key, VINPUT_RELEASE) else (key, VINPUT_PRESS));
               inp = inp\<lparr>i_events := i_events inp
                           @ [Report_Key (ucast code) (type \<noteq> 0), Input_Sync]\<rparr>
           in Some (v\<lparr>v_last_entry := key, v_input := Some inp\<rparr>, len))
      | _ \<Rightarrow> None)"

definition vkbd_ops :: "nat list \<Rightarrow> (string \<Rightarrow> int + int) \<Rightarrow> vinput_ops" where
  "vkbd_ops vkeymap kstrtol = \<lparr>op_init = vinput_vkbd_init vkeymap, op_kill = None,
     op_send = vinput_vkbd_send kstrtol, op_read = vinput_vkbd_read\<rparr>"

definition vkbd_dev :: "nat list \<Rightarrow> (string \<Rightarrow> int + int) \<Rightarrow> vinput_device" where
  "vkbd_dev vkeymap kstrtol = \<lparr>vd_name = ''vkbd'', vd_ops = vkbd_ops vkeymap kstrtol\<rparr>"

subsection \<open>Loading and unloading\<close>

text \<open>\<open>for (i = 0; i < KEY_MAX; i++) vkeymap[i] = i;\<close>\<close>

definition fill_keymap :: "nat list \<Rightarrow> nat list" where
  "fill_keymap vkeymap = fold (\<lambda>i km. km[i := i]) [0..<KEY_MAX] vkeymap"

text \<open>\<open>vkbd_init\<close> and \<open>vkbd_end\<close> on the registry, with the driver's structure at address \<open>d\<close>.\<close>

definition vkbd_init :: "(string \<Rightarrow> int + int) \<Rightarrow> nat \<Rightarrow> nat list \<Rightarrow> vstate \<Rightarrow> vstate \<times> int" where
  "vkbd_init kstrtol d vkeymap s =
     vinput_register (s\<lparr>v_drivers := (v_drivers s)(d \<mapsto> vkbd_dev (fill_keymap vkeymap) kstrtol)\<rparr>) d"

definition vkbd_end :: "nat \<Rightarrow> vstate \<Rightarrow> vstate option" where
  "vkbd_end d s = vinput_unregister s d"

subsection \<open>The driver keeps its contract\<close>

lemma sint64_bound: "\<bar>sint (e :: 64 word)\<bar> < 10 ^ 19"
  using sint_range_size [of e] by (auto simp: word_size abs_if)

lemma length_vkbd_text: "length (vkbd_text e) \<le> 21"
  using length_dec_int_plus [OF sint64_bound [of e]] by (simp add: vkbd_text_def)

lemma vkbd_read_eq:
  assumes "length b = VINPUT_MAX_LEN + 1" and "n \<le> MAX_RW_COUNT"
  shows "vinput_vkbd_read v b (int n) =
    Some (if n = 0 then b
          else take (n - 1) (vkbd_text (v_last_entry v)) @ NUL
                 # drop (Suc (min (n - 1) (length (vkbd_text (v_last_entry v))))) b,
          int (length (vkbd_text (v_last_entry v))))"
proof -
  have "int_to_size (int n) = n"
    using assms(2) by (simp add: int_to_size_def MAX_RW_COUNT_def)
  moreover have "Suc (min (n - 1) (length (vkbd_text (v_last_entry v)))) \<le> length b"
    using length_vkbd_text [of "v_last_entry v"] assms(1) by (simp add: VINPUT_MAX_LEN_def)
  ultimately show ?thesis
    by (simp add: vinput_vkbd_read_def c_snprintf_def blit_def min.commute)
qed

interpretation vkbd: vinput_reader "vkbd_ops vkeymap kstrtol" "\<lambda>v. vkbd_text (v_last_entry v)"
  for vkeymap kstrtol
proof unfold_locales
  fix v :: vinput and inp :: input_dev and r
  assume "v_input v = Some inp" and "i_status inp = Input_Allocated"
  then show "\<exists>v' e inp'. op_init (vkbd_ops vkeymap kstrtol) v r = Some (v', e) \<and>
      v_id v' = v_id v \<and> v_type v' = v_type v \<and> v_input v' = Some inp' \<and>
      i_status inp' = (if e < 0 then Input_Allocated else Input_Registered)"
    by (simp add: vkbd_ops_def vinput_vkbd_init_def input_register_device_def Let_def)
next
  fix kill and v :: vinput
  assume "op_kill (vkbd_ops vkeymap kstrtol) = Some kill"
  then show "v_id (kill v) = v_id v \<and> v_type (kill v) = v_type v" by (simp add: vkbd_ops_def)
next
  fix v :: vinput and inp :: input_dev and b k
  assume "v_input v = Some inp" "i_status inp = Input_Registered"
    "length b = VINPUT_MAX_LEN + 1" "terminated b"
  then show "\<exists>v' e inp'. op_send (vkbd_ops vkeymap kstrtol) v b k = Some (v', e) \<and>
      v_id v' = v_id v \<and> v_type v' = v_type v \<and> v_input v' = Some inp' \<and>
      i_status inp' = Input_Registered"
    by (simp add: vkbd_ops_def vinput_vkbd_send_def rd_def Let_def split: prod.splits)
next
  fix b :: "char list" and n and v :: vinput
  assume b: "length b = VINPUT_MAX_LEN + 1" and n: "n \<le> MAX_RW_COUNT"
  show "\<exists>b' len. op_read (vkbd_ops vkeymap kstrtol) v b (int n) = Some (b', len) \<and>
      length b' = VINPUT_MAX_LEN + 1 \<and> 0 \<le> len \<and> len \<le> int VINPUT_MAX_LEN"
    using length_vkbd_text [of "v_last_entry v"] b
    by (auto simp: vkbd_ops_def vkbd_read_eq [OF b n] VINPUT_MAX_LEN_def)
next
  fix v :: vinput
  show "length (vkbd_text (v_last_entry v)) \<le> VINPUT_MAX_LEN"
    using length_vkbd_text [of "v_last_entry v"] by (simp add: VINPUT_MAX_LEN_def)
next
  fix b :: "char list" and n and v :: vinput
  assume b: "length b = VINPUT_MAX_LEN + 1" and n: "n \<le> MAX_RW_COUNT"
    and "length (vkbd_text (v_last_entry v)) < n"
  then show "\<exists>b'. op_read (vkbd_ops vkeymap kstrtol) v b (int n) =
      Some (b', int (length (vkbd_text (v_last_entry v)))) \<and> length b' = VINPUT_MAX_LEN + 1 \<and>
      take (length (vkbd_text (v_last_entry v))) b' = vkbd_text (v_last_entry v)"
    using length_vkbd_text [of "v_last_entry v"]
    by (simp add: vkbd_ops_def vkbd_read_eq [OF b n] VINPUT_MAX_LEN_def)
qed

lemma vkbd_is_driver: "vinput_driver (vkbd_ops vkeymap kstrtol)"
  by (rule vkbd.vinput_driver_axioms)

lemma fill_keymap_eq:
  assumes "length vkeymap = KEY_MAX"
  shows "fill_keymap vkeymap = [0..<KEY_MAX]"
proof -
  have "n \<le> KEY_MAX \<Longrightarrow> fold (\<lambda>i km. km[i := i]) [0..<n] vkeymap = [0..<n] @ drop n vkeymap" for n
  proof (induction n)
    case (Suc n)
    then have "drop n vkeymap = vkeymap ! n # drop (Suc n) vkeymap"
      using assms by (simp add: Cons_nth_drop_Suc)
    with Suc show ?case by (simp add: list_update_append)
  qed simp
  from this [of KEY_MAX] show ?thesis using assms by (simp add: fill_keymap_def)
qed

lemma set_keybits_eq: "set_keybits vkeymap kb = kb \<union> (\<lambda>i. vkeymap ! i) ` {0..<KEY_MAX}"
proof -
  have "fold (\<lambda>i kb. insert (vkeymap ! i) kb) [0..<n] kb = kb \<union> (\<lambda>i. vkeymap ! i) ` {0..<n}" for n
    by (induction n) (auto simp: atLeast0_lessThan_Suc)
  then show ?thesis by (simp add: set_keybits_def)
qed

end
