(* ===== verification/Kstrtol.thy ===== *)
theory Kstrtol
  imports Prelude
begin

text \<open>
  The kernel's \<open>kstrtol(s, 10, &res)\<close> is a parameter of the modules that call it. Its documentation
  says that it accepts an optional sign, decimal digits, and one newline before the terminating NUL.
  \<open>kstrtol_ok\<close> states this for the numbers a \<open>long\<close> can hold; \<open>kstrtol_dec\<close> is a function that meets
  it, with which theorems that assume \<open>kstrtol_ok\<close> are instantiated.
\<close>

definition kstrtol_ok :: "(string \<Rightarrow> int + int) \<Rightarrow> bool" where
  "kstrtol_ok kstrtol \<longleftrightarrow> (\<forall>k. - (2 ^ 63) \<le> k \<longrightarrow> k < 2 ^ 63 \<longrightarrow>
     kstrtol (dec_int k) = Inr k \<and> kstrtol (dec_int k @ [LF]) = Inr k)"

fun parse_digits :: "nat \<Rightarrow> string \<Rightarrow> nat option" where
  "parse_digits acc [] = Some acc"
| "parse_digits acc (c # cs) =
     (if 48 \<le> (of_char c :: nat) \<and> of_char c \<le> (57 :: nat)
      then parse_digits (10 * acc + (of_char c - 48)) cs
      else if c = LF \<and> cs = [] then Some acc else None)"

definition in_long :: "int \<Rightarrow> int + int" where
  "in_long k = (if - (2 ^ 63) \<le> k \<and> k < 2 ^ 63 then Inr k else Inl (- 34))"

definition kstrtol_dec :: "string \<Rightarrow> int + int" where
  "kstrtol_dec s =
     (case s of
        [] \<Rightarrow> Inl (- EINVAL)
      | c # cs \<Rightarrow>
          (let body = (if c = CHR ''-'' \<or> c = CHR ''+'' then cs else s)
           in if body = [] \<or> hd body = LF then Inl (- EINVAL)
              else (case parse_digits 0 body of
                      None \<Rightarrow> Inl (- EINVAL)
                    | Some n \<Rightarrow> in_long (if c = CHR ''-'' then - int n else int n))))"

lemma parse_digits_dec_nat: "parse_digits 0 (dec_nat n @ t) = parse_digits n t"
proof (induction n arbitrary: t rule: dec_nat.induct)
  case (1 n)
  show ?case
  proof (cases "n < 10")
    case True
    then show ?thesis by (subst dec_nat.simps) (simp add: of_char_digit)
  next
    case False
    then have "parse_digits 0 (dec_nat n @ t) = parse_digits (n div 10) (digit (n mod 10) # t)"
      using 1 by (subst dec_nat.simps) simp
    also have "\<dots> = parse_digits n t"
    proof -
      have "n mod 10 \<le> 9" by presburger
      then show ?thesis using of_char_digit [of "n mod 10"] by simp
    qed
    finally show ?thesis .
  qed
qed

lemma dec_nat_nonempty: "dec_nat n \<noteq> []"
  by (subst dec_nat.simps) simp

lemma digit_char: "d < 10 \<Longrightarrow> digit d \<noteq> CHR ''-'' \<and> digit d \<noteq> CHR ''+'' \<and> digit d \<noteq> LF"
proof -
  assume d: "d < 10"
  have "digit d \<noteq> c" if "(of_char c :: nat) < 48" for c
    using of_char_digit [OF d] that by auto
  then show ?thesis by simp
qed

lemma dec_nat_Cons:
  obtains c cs where "dec_nat n = c # cs" and "c \<noteq> CHR ''-''" and "c \<noteq> CHR ''+''" and "c \<noteq> LF"
proof -
  obtain c cs where c: "dec_nat n = c # cs" using dec_nat_nonempty by (cases "dec_nat n") auto
  then obtain d where "d < 10" "c = digit d" using dec_nat_digits [of c n] by auto
  with c that digit_char show ?thesis by blast
qed

lemma kstrtol_dec_int:
  assumes "t = [] \<or> t = [LF]" and "- (2 ^ 63) \<le> k" and "k < 2 ^ 63"
  shows "kstrtol_dec (dec_int k @ t) = Inr k"
proof -
  obtain c cs where c: "dec_nat (nat \<bar>k\<bar>) = c # cs" "c \<noteq> CHR ''-''" "c \<noteq> CHR ''+''" "c \<noteq> LF"
    by (rule dec_nat_Cons)
  have "parse_digits (nat \<bar>k\<bar>) t = Some (nat \<bar>k\<bar>)" using assms(1) by auto
  then have p: "parse_digits 0 ((c # cs) @ t) = Some (nat \<bar>k\<bar>)"
    using parse_digits_dec_nat [of "nat \<bar>k\<bar>" t] by (simp only: c(1))
  show ?thesis
  proof (cases "k < 0")
    case True
    then have "dec_int k = CHR ''-'' # c # cs" using c(1) by (simp add: dec_int_def)
    with True c(4) p assms show ?thesis
      by (simp add: kstrtol_dec_def in_long_def del: parse_digits.simps)
  next
    case False
    then have "dec_int k = c # cs" using c(1) by (simp add: dec_int_def)
    with False c p assms show ?thesis
      by (simp add: kstrtol_dec_def in_long_def Let_def del: parse_digits.simps)
  qed
qed

lemma kstrtol_dec_ok: "kstrtol_ok kstrtol_dec"
  using kstrtol_dec_int [of "[]"] kstrtol_dec_int [of "[LF]"] by (simp add: kstrtol_ok_def)

end
