(* ===== verification/Vinput_Props.thy ===== *)
theory Vinput_Props
  imports Vkbd Kstrtol
begin

text \<open>
  The properties of the registry of vinput.c and of the virtual keyboard vkbd.c: the registry as a
  step relation over the writes to its class attributes, the writes to its devices and the arrival and
  departure of drivers; what each operation does; and what a process sees that writes keys to a
  virtual keyboard and reads them back.
\<close>

subsection \<open>The registry as a system\<close>

text \<open>
  A step is one operation that has run to its end (\<open>Vinput_Threads\<close> takes them apart). Allocations
  return addresses that are not in use, a driver registers once and keeps the contract of
  \<open>vinput_driver\<close>, and a process writes to a device that exists.
\<close>

datatype vinput_event =
    Ev_Export string nat
  | Ev_Unexport string nat
  | Ev_Open nat
  | Ev_Write nat "char list" nat
  | Ev_Register nat
  | Ev_Unregister nat

text \<open>A step is labelled with the operation and its return value.\<close>

inductive vinput_step :: "(string \<Rightarrow> int + int) \<Rightarrow> vstate \<Rightarrow> vinput_event \<times> int \<Rightarrow> vstate \<Rightarrow> bool"
  for kstrtol :: "string \<Rightarrow> int + int"
where
  export: "fresh_env e s \<Longrightarrow> export_store e s buf len = Some (s', ret) \<Longrightarrow>
    vinput_step kstrtol s (Ev_Export buf len, ret) s'"
| unexport: "unexport_store kstrtol s buf len = Some (s', ret) \<Longrightarrow>
    vinput_step kstrtol s (Ev_Unexport buf len, ret) s'"
| dev_open: "vinput_open s minor = Some (ret, p) \<Longrightarrow> vinput_step kstrtol s (Ev_Open minor, ret) s"
| dev_write: "v_heap s a = Some v \<Longrightarrow> vinput_write s a data uncopied = Some (s', ret) \<Longrightarrow>
    vinput_step kstrtol s (Ev_Write (v_id v) data uncopied, ret) s'"
| register: "d \<notin> set (vinput_devices s) \<Longrightarrow> v_drivers s d = Some dev \<Longrightarrow>
    vinput_driver (vd_ops dev) \<Longrightarrow> vinput_register s d = (s', ret) \<Longrightarrow>
    vinput_step kstrtol s (Ev_Register d, ret) s'"
| unregister: "d \<in> set (vinput_devices s) \<Longrightarrow> vinput_unregister s d = Some s' \<Longrightarrow>
    vinput_step kstrtol s (Ev_Unregister d, 0) s'"

inductive vinput_reach :: "(string \<Rightarrow> int + int) \<Rightarrow> (nat \<rightharpoonup> vinput_device) \<Rightarrow> vstate \<Rightarrow> bool"
  for kstrtol :: "string \<Rightarrow> int + int" and drivers :: "nat \<rightharpoonup> vinput_device"
where
  start: "vinput_reach kstrtol drivers (vinput_start drivers)"
| step: "vinput_reach kstrtol drivers s \<Longrightarrow> vinput_step kstrtol s l s' \<Longrightarrow>
    vinput_reach kstrtol drivers s'"

lemma vinput_step_inv:
  assumes "vinput_step kstrtol s l s'" and "vinv s"
  shows "vinv s'"
  using assms
proof cases
  case (export e buf len)
  with export_cases [OF assms(2) export(2), of buf len] show ?thesis by auto
next
  case (unexport buf len)
  with assms(2) show ?thesis by (blast intro: vinv_unexport)
next
  case (dev_write a v data uncopied)
  from vinv_write [OF assms(2) dev_write(2), of data uncopied] dev_write(3) show ?thesis by auto
next
  case dev_open
  with assms(2) show ?thesis by simp
next
  case (register d dev)
  with vinv_register [OF assms(2) register(2-4)] show ?thesis by simp
next
  case (unregister d)
  with unregister_eq [OF assms(2) unregister(2)] show ?thesis by auto
qed

lemma vinput_reach_inv: "vinput_reach kstrtol drivers s \<Longrightarrow> vinv s"
  by (induction rule: vinput_reach.induct) (auto intro: vinv_start vinput_step_inv)

text \<open>
  C1: in every state the registry can get into, the devices that exist have different ids below 32,
  each marked in use, each device's input device is registered and its driver is; and no operation on
  such a state follows a dangling pointer, takes anything off a list it is not on, leaves a buffer or
  misuses the input subsystem: neither an export in memory that is not in use, an unexport, an open, the
  departure of a registered driver, nor a write to or a read from a device that exists. A read of
  any length at any position, whatever its buffer held before, copies no more than it was asked for and
  than the handler's array holds.
\<close>

theorem vinput_registry_safe:
  assumes "vinput_reach kstrtol drivers s"
  shows "(\<forall>a b v w. v_heap s a = Some v \<longrightarrow> v_heap s b = Some w \<longrightarrow> v_id v = v_id w \<longrightarrow> a = b) \<and>
    (\<forall>a v. v_heap s a = Some v \<longrightarrow> v_id v < VINPUT_MINORS \<and> vinput_ids s ! v_id v \<and>
       (\<exists>inp. v_input v = Some inp \<and> i_status inp = Input_Registered) \<and>
       (\<exists>d. v_type v = Some d \<and> d \<in> set (vinput_devices s))) \<and>
    (\<forall>e buf len. fresh_env e s \<longrightarrow> export_store e s buf len \<noteq> None) \<and>
    (\<forall>buf len. unexport_store kstrtol s buf len \<noteq> None) \<and>
    (\<forall>minor. vinput_open s minor \<noteq> None) \<and>
    (\<forall>a data uncopied. v_heap s a \<noteq> None \<longrightarrow> vinput_write s a data uncopied \<noteq> None) \<and>
    (\<forall>a stack count off uncopied. v_heap s a \<noteq> None \<longrightarrow> length stack = VINPUT_MAX_LEN + 1 \<longrightarrow>
       count \<le> MAX_RW_COUNT \<longrightarrow> 0 \<le> off \<longrightarrow>
       (\<exists>ret off' data. vinput_read s a stack count off uncopied = Some (ret, off', data) \<and>
          0 \<le> off' \<and> ret \<le> int count \<and> length data \<le> count \<and> length data \<le> VINPUT_MAX_LEN)) \<and>
    (\<forall>d\<in>set (vinput_devices s). vinput_unregister s d \<noteq> None)"
proof -
  have I: "vinv s" using vinput_reach_inv [OF assms] .
  have "export_store e s buf len \<noteq> None" if "fresh_env e s" for e buf len
    using export_cases [OF I that] by fastforce
  moreover have "unexport_store kstrtol s buf len \<noteq> None" for buf len
    using unexport_cases [OF I, of kstrtol buf len] by auto
  moreover have "vinput_open s minor \<noteq> None" for minor
    using get_vdevice_by_id_eq(3) [OF I, of "int minor"] by (auto simp: vinput_open_def)
  moreover have "vinput_write s a data uncopied \<noteq> None" if "v_heap s a \<noteq> None" for a data uncopied
    using that vinv_write [OF I, of a _ data uncopied] by fastforce
  moreover have "\<exists>ret off' data. vinput_read s a stack count off uncopied = Some (ret, off', data) \<and>
      0 \<le> off' \<and> ret \<le> int count \<and> length data \<le> count \<and> length data \<le> VINPUT_MAX_LEN"
    if "v_heap s a \<noteq> None" "length stack = VINPUT_MAX_LEN + 1" "count \<le> MAX_RW_COUNT" "0 \<le> off"
    for a stack count off uncopied
    using that vinv_read [OF I, of a] by blast
  moreover have "vinput_unregister s d \<noteq> None" if "d \<in> set (vinput_devices s)" for d
    using unregister_eq [OF I that] by auto
  moreover have "\<forall>a b v w. v_heap s a = Some v \<longrightarrow> v_heap s b = Some w \<longrightarrow> v_id v = v_id w \<longrightarrow> a = b"
    and "\<forall>a v. v_heap s a = Some v \<longrightarrow> v_id v < VINPUT_MINORS \<and> vinput_ids s ! v_id v \<and>
       (\<exists>inp. v_input v = Some inp \<and> i_status inp = Input_Registered) \<and>
       (\<exists>d. v_type v = Some d \<and> d \<in> set (vinput_devices s))"
    using I unfolding vinv_def vdev_ok_def by blast+
  ultimately show ?thesis by simp
qed

subsection \<open>A registry with a virtual keyboard, for concrete instances\<close>

text \<open>The registry after the keyboard driver has been registered at address 5.\<close>

definition demo_registry :: vstate where
  "demo_registry = fst (vkbd_init kstrtol_dec 5 (replicate KEY_MAX 0) (vinput_start Map.empty))"

definition demo_env :: export_env where
  "demo_env = \<lparr>kzalloc_ret = Some 9, input_alloc_ok = True, device_register_ret = 0,
     input_register_ret = 0\<rparr>"

lemma demo_registry_eq:
  "demo_registry = \<lparr>vinput_ids = replicate VINPUT_MINORS False, vinput_devices = [5],
     vinput_vdevices = [], v_drivers = [5 \<mapsto> vkbd_dev [0..<KEY_MAX] kstrtol_dec], v_heap = Map.empty\<rparr>"
  by (simp add: demo_registry_def vkbd_init_def vinput_register_def vinput_start_def fill_keymap_eq)

lemma demo_registry_inv: "vinv demo_registry"
  by (auto simp: demo_registry_eq vinv_defs vkbd_dev_def vkbd_is_driver)

lemma demo_registry_reach:
  "vinput_reach kstrtol_dec [5 \<mapsto> vkbd_dev [0..<KEY_MAX] kstrtol_dec] demo_registry"
proof -
  let ?D = "[5 \<mapsto> vkbd_dev [0..<KEY_MAX] kstrtol_dec]"
  have "vinput_step kstrtol_dec (vinput_start ?D) (Ev_Register 5, 0) demo_registry"
    by (rule vinput_step.register [of 5 _ "vkbd_dev [0..<KEY_MAX] kstrtol_dec"])
      (simp_all add: vinput_start_def vkbd_dev_def vkbd_is_driver vinput_register_def demo_registry_eq)
  then show ?thesis by (rule vinput_reach.step [OF vinput_reach.start])
qed

theorem vinput_registry_safe_witness:
  "\<forall>buf len. unexport_store kstrtol_dec demo_registry buf len \<noteq> None"
  using vinput_registry_safe [OF demo_registry_reach] by blast

subsection \<open>What the operations do\<close>

lemma vinput_open_found:
  assumes "vinv s"
  shows "vinput_open s minor = Some (0, Some a) \<longleftrightarrow> (\<exists>v. v_heap s a = Some v \<and> v_id v = minor)"
proof -
  note look = get_vdevice_by_id_eq [OF assms, of "int minor"]
  have "vinput_open s minor = Some (0, Some a) \<longleftrightarrow>
      vinput_get_vdevice_by_id s (int minor) = Some (Ptr a)"
    using look(3) by (auto simp: vinput_open_def split: err_ptr.split_asm)
  then show ?thesis using look(1) by simp
qed

text \<open>
  Opening the character device of a minor number gives the device with that id, and fails with
  \<open>ENODEV\<close> exactly when there is none.
\<close>

theorem vinput_open_correct:
  assumes "vinput_reach kstrtol drivers s"
  shows "(\<forall>a. vinput_open s minor = Some (0, Some a) \<longleftrightarrow>
      (\<exists>v. v_heap s a = Some v \<and> v_id v = minor)) \<and>
    ((\<forall>a v. v_heap s a = Some v \<longrightarrow> v_id v \<noteq> minor) \<longleftrightarrow>
      vinput_open s minor = Some (- ENODEV, None))"
proof -
  note I = vinput_reach_inv [OF assms]
  have "vinput_open s minor = Some (- ENODEV, None)"
    if "\<forall>a v. v_heap s a = Some v \<longrightarrow> v_id v \<noteq> minor"
    using get_vdevice_by_id_eq(2) [OF I, of "int minor"] that by (simp add: vinput_open_def)
  moreover have "v_id v \<noteq> minor"
    if "vinput_open s minor = Some (- ENODEV, None)" and "v_heap s a = Some v" for a v
  proof
    assume "v_id v = minor"
    then have "vinput_open s minor = Some (0, Some a)" using vinput_open_found [OF I] that(2) by blast
    with that(1) show False by simp
  qed
  ultimately show ?thesis using vinput_open_found [OF I] by blast
qed

theorem vinput_open_correct_witness:
  "vinput_open demo_registry 7 = Some (- ENODEV, None)"
  using vinput_open_correct [OF demo_registry_reach, of 7] by (simp add: demo_registry_eq)

text \<open>
  Writing a text to \<open>export\<close> that starts with the name of a registered driver creates one device,
  of that driver and with the lowest free id, and touches no other device; the id can be opened from
  then on.
\<close>

theorem vinput_export_creates:
  assumes "vinv s" and "fresh_env e s" and "kzalloc_ret e = Some a"
    and "export_store e s buf len = Some (s', int len)" and "0 < len"
  shows "\<exists>v d dev. v_heap s' = (v_heap s)(a \<mapsto> v) \<and> v_type v = Some d \<and>
    d \<in> set (vinput_devices s) \<and> v_drivers s d = Some dev \<and>
    take (length (vd_name dev)) buf = vd_name dev \<and>
    v_id v < VINPUT_MINORS \<and> \<not> vinput_ids s ! v_id v \<and> (\<forall>j<v_id v. vinput_ids s ! j) \<and>
    vinput_ids s' = (vinput_ids s)[v_id v := True] \<and> vinput_open s' (v_id v) = Some (0, Some a)"
proof -
  from export_cases [OF assms(1,2), of buf len] assms(3-5) obtain v d
    where s': "s' = added s a v" "vinv s'"
      and v: "v_id v = find_first_zero_bit (vinput_ids s)" "v_id v < VINPUT_MINORS"
      and d: "vinput_get_device_by_type s buf = Some (Ptr d)" "v_type v = Some d"
    by auto
  obtain dev where dev: "d \<in> set (vinput_devices s)" "v_drivers s d = Some dev"
    "vinput_driver (vd_ops dev)" "take (length (vd_name dev)) buf = vd_name dev"
    using get_device_Ptr [OF assms(1) d(1)] by blast
  have "vinput_open s' (v_id v) = Some (0, Some a)"
    using vinput_open_found [OF s'(2)] by (simp add: s'(1) added_def)
  moreover have "\<not> vinput_ids s ! v_id v" "\<forall>j<v_id v. vinput_ids s ! j"
    using v ffz_free [of "vinput_ids s"] ffz_least [of _ "vinput_ids s"] assms(1)
    by (simp_all add: vinv_def)
  moreover have "v_heap s' = (v_heap s)(a \<mapsto> v)" "vinput_ids s' = (vinput_ids s)[v_id v := True]"
    by (simp_all add: s'(1) added_def)
  ultimately show ?thesis using dev v d(2) by blast
qed

text \<open>The keyboard that the export of \<open>vkbd\<close> creates in the concrete registry, at address 9.\<close>

definition demo_kbd :: vinput where
  "demo_kbd = \<lparr>v_id = 0, v_last_entry = 0,
     v_input = Some \<lparr>i_evbit = BIT_MASK EV_KEY OR BIT_MASK EV_REP, i_keycodesize = 2,
       i_keycodemax = KEY_MAX, i_keycode = [0..<KEY_MAX],
       i_keybit = set_keybits [0..<KEY_MAX] {}, i_name = ''vkbd'', i_status = Input_Registered,
       i_events = []\<rparr>,
     v_type = Some 5\<rparr>"

lemma demo_lookup: "vinput_get_device_by_type demo_registry (''vkbd'' @ t) = Some (Ptr 5)"
  by (simp add: vinput_get_device_by_type_def demo_registry_eq vkbd_dev_def strncmp_eq_def)

lemma demo_ffz: "find_first_zero_bit (vinput_ids demo_registry) = 0"
  by (simp add: demo_registry_eq find_first_zero_bit_def VINPUT_MINORS_def)

lemma demo_fresh: "fresh_env e demo_registry"
  by (simp add: fresh_env_def demo_registry_eq)

lemma demo_export:
  "export_store demo_env demo_registry ''vkbd'' 4 = Some (added demo_registry 9 demo_kbd, int 4)"
proof (rule export_late_fail(3) [OF demo_registry_inv demo_fresh])
  show "vinput_get_device_by_type demo_registry ''vkbd'' = Some (Ptr 5)"
    using demo_lookup [of "[]"] by simp
  show "v_drivers demo_registry 5 = Some (vkbd_dev [0..<KEY_MAX] kstrtol_dec)"
    by (simp add: demo_registry_eq)
  show "vinput_driver (vd_ops (vkbd_dev [0..<KEY_MAX] kstrtol_dec))"
    by (simp add: vkbd_dev_def vkbd_is_driver)
  show "op_init (vd_ops (vkbd_dev [0..<KEY_MAX] kstrtol_dec))
      (fresh_vinput demo_registry 5 (vkbd_dev [0..<KEY_MAX] kstrtol_dec))
      (input_register_ret demo_env) = Some (demo_kbd, 0)"
    by (simp add: vkbd_dev_def vkbd_ops_def vinput_vkbd_init_def fresh_vinput_def demo_ffz
        new_input_dev_def input_register_device_def demo_kbd_def demo_env_def Let_def)
qed (simp_all add: demo_env_def demo_ffz VINPUT_MINORS_def)

lemma demo_kbd_inv: "vinv (added demo_registry 9 demo_kbd)"
  using export_cases [OF demo_registry_inv demo_fresh, of demo_env "''vkbd''" 4]
  by (auto simp: demo_export)

theorem vinput_export_creates_witness:
  "\<exists>v. v_heap (added demo_registry 9 demo_kbd) = (v_heap demo_registry)(9 \<mapsto> v) \<and>
    vinput_open (added demo_registry 9 demo_kbd) (v_id v) = Some (0, Some 9)"
  using vinput_export_creates [OF demo_registry_inv demo_fresh _ demo_export, of 9]
  by (auto simp: demo_env_def)

text \<open>
  Writing the id of a new device to \<open>unexport\<close> undoes its \<open>export\<close> completely: the registry is what
  it was, byte for byte.
\<close>

theorem vinput_export_unexport:
  assumes "vinv s" and "fresh_env e s" and "kzalloc_ret e = Some a" and "0 < len"
    and "export_store e s buf len = Some (s', int len)"
    and "v_heap s' a = Some v" and "kstrtol buf2 = Inr (int (v_id v))"
  shows "unexport_store kstrtol s' buf2 len2 = Some (s, int len2)"
proof -
  from export_cases [OF assms(1,2), of buf len] assms obtain w
    where s': "s' = added s a w" "vinv s'"
      and w: "v_id w = find_first_zero_bit (vinput_ids s)" "v_id w < VINPUT_MINORS"
    by auto
  have v: "v = w" using assms(6) by (simp add: s' added_def)
  have free: "v_heap s a = None" using assms(2,3) by (simp add: fresh_env_def)
  have len: "v_id w < length (vinput_ids s)" using w assms(1) by (simp add: vinv_def)
  then have bit: "\<not> vinput_ids s ! v_id w" using ffz_free [of "vinput_ids s"] w by simp
  note inv' = s'(2)
  have "gone s' a v = s"
    using undo_alloc [OF free len bit] by (simp add: gone_def s' added_def v)
  moreover have "unexport_store kstrtol s' buf2 len2 = Some (gone s' a v, int len2)"
    by (rule unexport_found [where a = a]) fact+
  ultimately show ?thesis by simp
qed

theorem vinput_export_unexport_witness:
  "unexport_store kstrtol_dec (added demo_registry 9 demo_kbd) ''0'' 1 = Some (demo_registry, int 1)"
proof (rule vinput_export_unexport [OF demo_registry_inv demo_fresh _ _ demo_export])
  show "v_heap (added demo_registry 9 demo_kbd) 9 = Some demo_kbd" by (simp add: added_def)
  show "kstrtol_dec ''0'' = Inr (int (v_id demo_kbd))"
    by (simp add: kstrtol_dec_def demo_kbd_def in_long_def)
qed (simp_all add: demo_env_def)

text \<open>
  A driver that leaves takes exactly its own devices with it and frees their ids; the other
  devices are untouched.
\<close>

theorem vinput_unregister_exact:
  assumes "vinput_reach kstrtol drivers s" and "d \<in> set (vinput_devices s)"
  shows "\<exists>s'. vinput_unregister s d = Some s' \<and> d \<notin> set (vinput_devices s') \<and>
    (\<forall>a. v_heap s' a = (case v_heap s a of None \<Rightarrow> None
       | Some v \<Rightarrow> if v_type v = Some d then None else Some v)) \<and>
    (\<forall>a v. v_heap s a = Some v \<longrightarrow> vinput_ids s' ! v_id v = (v_type v \<noteq> Some d)) \<and>
    set (vinput_vdevices s') = dom (v_heap s')"
proof -
  have I: "vinv s" using vinput_reach_inv [OF assms(1)] .
  from unregister_eq [OF I assms(2)] obtain s' where s': "vinput_unregister s d = Some s'" "vinv s'"
    "vinput_devices s' = remove1 d (vinput_devices s)"
    "\<And>b. v_heap s' b = (case v_heap s b of None \<Rightarrow> None
       | Some v \<Rightarrow> if v_type v = Some d then None else Some v)"
    "\<And>i. vinput_ids s' ! i \<longleftrightarrow> vinput_ids s ! i \<and>
       (\<forall>b v. v_heap s b = Some v \<longrightarrow> v_type v = Some d \<longrightarrow> v_id v \<noteq> i)"
    by auto
  have "vinput_ids s' ! v_id v = (v_type v \<noteq> Some d)" if v: "v_heap s a = Some v" for a v
  proof -
    have "b = a" if "v_heap s b = Some w" "v_id w = v_id v" for b w
      using I v that unfolding vinv_def by blast
    with v have "(\<forall>b w. v_heap s b = Some w \<longrightarrow> v_type w = Some d \<longrightarrow> v_id w \<noteq> v_id v) \<longleftrightarrow>
        v_type v \<noteq> Some d" by fastforce
    with s'(5) [of "v_id v"] vinvD(3) [OF I v] show ?thesis by simp
  qed
  moreover have "d \<notin> set (vinput_devices s')"
    using s'(3) I by (simp add: vinv_def drivers_ok_def)
  ultimately show ?thesis using s'(1,2,4) by (intro exI [of _ s']) (auto simp: vinv_def)
qed

theorem vinput_unregister_exact_witness:
  "\<exists>s'. vinput_unregister demo_registry 5 = Some s' \<and> 5 \<notin> set (vinput_devices s')"
proof -
  have "5 \<in> set (vinput_devices demo_registry)" by (simp add: demo_registry_eq)
  from vinput_unregister_exact [OF demo_registry_reach this] show ?thesis by blast
qed

subsection \<open>The id that a failed export loses\<close>

text \<open>An id that is marked in use although no device has it.\<close>

definition id_lost :: "nat \<Rightarrow> vstate \<Rightarrow> bool" where
  "id_lost i s \<longleftrightarrow> vinput_ids s ! i \<and> (\<forall>a v. v_heap s a = Some v \<longrightarrow> v_id v \<noteq> i)"

lemma id_lost_marked: "id_lost i s \<Longrightarrow> id_lost i (id_marked s j)"
  by (simp add: id_lost_def id_marked_def set_bit_mono)

lemma id_lost_added: "id_lost i s \<Longrightarrow> v_id v \<noteq> i \<Longrightarrow> id_lost i (added s a v)"
  by (simp add: id_lost_def added_def)

lemma id_lost_gone: "id_lost i s \<Longrightarrow> v_heap s a = Some v \<Longrightarrow> id_lost i (gone s a v)"
  by (cases "v_id v = i") (simp_all add: id_lost_def gone_def)

lemma id_lost_update: "id_lost i s \<Longrightarrow> v_heap s a = Some v \<Longrightarrow> vinput_ids s' = vinput_ids s \<Longrightarrow>
    v_heap s' = (v_heap s)(a \<mapsto> w) \<Longrightarrow> v_id w = v_id v \<Longrightarrow> id_lost i s'"
  by (simp add: id_lost_def)

lemma vinput_step_id_lost:
  assumes "vinput_step kstrtol s l s'" and "vinv s" and "id_lost i s"
  shows "id_lost i s'"
  using assms(1)
proof cases
  case (export e buf len)
  have "find_first_zero_bit (vinput_ids s) \<noteq> i"
    if "find_first_zero_bit (vinput_ids s) < VINPUT_MINORS"
    using ffz_free [of "vinput_ids s"] that assms(2,3) by (auto simp: id_lost_def vinv_def)
  with export_cases [OF assms(2) export(2), of buf len] export(3) assms(3) show ?thesis
    by (auto intro: id_lost_added id_lost_marked)
next
  case (unexport buf len)
  with unexport_cases [OF assms(2), of kstrtol buf len] assms(3) show ?thesis
    by (auto intro: id_lost_gone)
next
  case (dev_write a v data uncopied)
  from vinv_write [OF assms(2) dev_write(2), of data uncopied] dev_write(3) show ?thesis
    using id_lost_update [OF assms(3) dev_write(2)] by auto
next
  case dev_open
  with assms(3) show ?thesis by simp
next
  case (register d dev)
  then have "vinput_ids s' = vinput_ids s" and "v_heap s' = v_heap s"
    by (auto simp: vinput_register_def)
  with assms(3) show ?thesis by (simp add: id_lost_def)
next
  case (unregister d)
  from unregister_eq [OF assms(2) unregister(2)] unregister have
    heap: "\<And>b. v_heap s' b = (case v_heap s b of None \<Rightarrow> None
       | Some v \<Rightarrow> if v_type v = Some d then None else Some v)"
    and ids: "\<And>i. vinput_ids s' ! i \<longleftrightarrow> vinput_ids s ! i \<and>
       (\<forall>b v. v_heap s b = Some v \<longrightarrow> v_type v = Some d \<longrightarrow> v_id v \<noteq> i)"
    by auto
  have "v_heap s b = Some v" if "v_heap s' b = Some v" for b v
    using that heap [of b] by (auto split: option.splits if_splits)
  with ids [of i] assms(3) show ?thesis by (auto simp: id_lost_def)
qed

text \<open>
  When \<open>input_allocate_device\<close> fails, \<open>export\<close> returns \<open>ENOMEM\<close> and leaves the id it had taken
  marked in use. No device has that id, opening it fails, and no later sequence of operations ever
  makes it available again.
\<close>

theorem vinput_id_leak:
  assumes "vinv s" and "fresh_env e s" and "vinput_get_device_by_type s buf = Some (Ptr d)"
    and "kzalloc_ret e \<noteq> None" and "\<not> input_alloc_ok e" and "i = find_first_zero_bit (vinput_ids s)"
    and "i < VINPUT_MINORS"
  shows "\<exists>s'. export_store e s buf len = Some (s', - ENOMEM) \<and>
    (\<forall>t. (\<lambda>x y. \<exists>r. vinput_step kstrtol x r y)\<^sup>*\<^sup>* s' t \<longrightarrow>
       id_lost i t \<and> vinput_open t i = Some (- ENODEV, None))"
proof -
  let ?s' = "id_marked s i"
  have len: "i < length (vinput_ids s)" using assms(1,7) by (simp add: vinv_def)
  then have bit: "\<not> vinput_ids s ! i" using ffz_free [of "vinput_ids s"] assms(6) by simp
  then have lost: "id_lost i ?s'"
    using len vinvD(3) [OF assms(1)] by (auto simp: id_lost_def id_marked_def)
  have "vinv t \<and> id_lost i t" if "(\<lambda>x y. \<exists>r. vinput_step kstrtol x r y)\<^sup>*\<^sup>* ?s' t" for t
    using that
  proof (induction rule: rtranclp_induct)
    case base
    then show ?case using lost vinv_id_marked [OF assms(1)] by simp
  next
    case (step t u)
    then show ?case using vinput_step_inv vinput_step_id_lost by blast
  qed
  moreover have "vinput_open t i = Some (- ENODEV, None)" if "vinv t" "id_lost i t" for t
    using that get_vdevice_by_id_eq(2) [of t "int i"] by (simp add: vinput_open_def id_lost_def)
  moreover have "export_store e s buf len = Some (?s', - ENOMEM)"
    using export_alloc_fail(3) [OF assms(1-4)] assms(5-7) by simp
  ultimately show ?thesis by blast
qed

theorem vinput_id_leak_witness:
  "\<exists>s'. export_store (demo_env\<lparr>input_alloc_ok := False\<rparr>) demo_registry ''vkbd'' 4 =
      Some (s', - ENOMEM) \<and> id_lost 0 s'"
proof -
  have "\<exists>s'. export_store (demo_env\<lparr>input_alloc_ok := False\<rparr>) demo_registry ''vkbd'' 4 =
      Some (s', - ENOMEM) \<and>
    (\<forall>t. (\<lambda>x y. \<exists>r. vinput_step kstrtol_dec x r y)\<^sup>*\<^sup>* s' t \<longrightarrow>
       id_lost 0 t \<and> vinput_open t 0 = Some (- ENODEV, None))"
    by (rule vinput_id_leak [OF demo_registry_inv demo_fresh demo_lookup [of "[]", simplified]])
      (simp_all add: demo_env_def demo_ffz VINPUT_MINORS_def)
  then show ?thesis by blast
qed

subsection \<open>Reading and writing a virtual keyboard\<close>

text \<open>A keyboard in a registry: the object at \<open>a\<close> and its driver.\<close>

definition is_keyboard :: "(string \<Rightarrow> int + int) \<Rightarrow> vstate \<Rightarrow> nat \<Rightarrow> vinput \<Rightarrow> bool" where
  "is_keyboard kstrtol s a v \<longleftrightarrow> v_heap s a = Some v \<and>
     (\<exists>km. ops_of s v = Some (vkbd_ops km kstrtol)) \<and>
     (\<exists>inp. v_input v = Some inp \<and> i_status inp = Input_Registered)"

lemma ops_of_heap [simp]: "ops_of (s\<lparr>v_heap := h\<rparr>) v = ops_of s v"
  by (simp add: ops_of_def split: option.splits)

lemma ops_of_type: "v_type v = v_type w \<Longrightarrow> ops_of s v = ops_of s w"
  by (simp add: ops_of_def)

lemma dec_int_head: "dec_int k \<noteq> [] \<and> hd (dec_int k) \<noteq> CHR ''+''"
proof -
  obtain c cs where "dec_nat (nat k) = c # cs" "c \<noteq> CHR ''+''" by (rule dec_nat_Cons)
  then show ?thesis by (simp add: dec_int_def)
qed

lemma cstr_append_zeros: "NUL \<notin> set t \<Longrightarrow> cstr (t @ zeros n) = t"
  by (simp add: cstr_append)

lemma ucast_word_of_int_32: "ucast (word_of_int k :: 64 word) = (word_of_int k :: 32 word)"
  by transfer simp

lemma sint_word_of_int_64: "- (2 ^ 63) \<le> k \<Longrightarrow> k < 2 ^ 63 \<Longrightarrow> sint (word_of_int k :: 64 word) = k"
  by (simp add: sint_sbintrunc' signed_take_bit_int_eq_self)

text \<open>What the driver does with a number that parses.\<close>

lemma vkbd_send_parsed:
  assumes "rd b 0 = Some c" and "c \<noteq> CHR ''+''" and "kstrtol (cstr b) = Inr k"
    and "v_input v = Some inp" and "- (2 ^ 63) < k" and "k < 2 ^ 63"
  shows "vinput_vkbd_send kstrtol v b len =
    Some (v\<lparr>v_last_entry := word_of_int k,
        v_input := Some (inp\<lparr>i_events := i_events inp
          @ [Report_Key (word_of_int \<bar>k\<bar>) (0 \<le> k), Input_Sync]\<rparr>)\<rparr>, len)"
proof -
  have sint: "sint (word_of_int k :: 64 word) = k"
    using assms(5,6) by (simp add: sint_word_of_int_64)
  have neg: "ucast (- (word_of_int k :: 64 word)) = (word_of_int (- k) :: 32 word)"
    using ucast_word_of_int_32 [of "- k"] by simp
  show ?thesis
    using assms(1-4) neg
    by (simp add: vinput_vkbd_send_def Let_def sint VINPUT_PRESS_def VINPUT_RELEASE_def
        ucast_word_of_int_32)
qed

lemma vkbd_write_number:
  assumes "is_keyboard kstrtol s a v" and "kstrtol_ok kstrtol" and "v_input v = Some inp"
    and "- (2 ^ 63) < k" and "k < 2 ^ 63" and "t = [] \<or> t = [LF]"
  shows "vinput_write s a (dec_int k @ t) 0 =
    Some (s\<lparr>v_heap := (v_heap s)(a \<mapsto> v\<lparr>v_last_entry := word_of_int k,
        v_input := Some (inp\<lparr>i_events := i_events inp
          @ [Report_Key (word_of_int \<bar>k\<bar>) (0 \<le> k), Input_Sync]\<rparr>)\<rparr>)\<rparr>, int (length (dec_int k @ t)))"
proof -
  define data where "data = dec_int k @ t"
  have len: "length data \<le> VINPUT_MAX_LEN"
  proof -
    have "\<bar>k\<bar> < 10 ^ 19" using assms(4,5) by simp
    from length_dec_int [OF this] assms(6) show ?thesis by (auto simp: data_def VINPUT_MAX_LEN_def)
  qed
  define b where "b = data @ zeros (VINPUT_MAX_LEN + 1 - length data)"
  have "rd b 0 = Some (hd (dec_int k))"
    using dec_int_head [of k] by (cases "dec_int k") (simp_all add: rd_def b_def data_def)
  moreover have "kstrtol (cstr b) = Inr k"
  proof -
    have "cstr b = data" unfolding b_def using assms(6) by (intro cstr_append_zeros) (auto simp: data_def)
    then show ?thesis using assms(2,4-6) by (auto simp: kstrtol_ok_def data_def)
  qed
  ultimately have "vinput_vkbd_send kstrtol v b (int (length data)) =
    Some (v\<lparr>v_last_entry := word_of_int k,
        v_input := Some (inp\<lparr>i_events := i_events inp
          @ [Report_Key (word_of_int \<bar>k\<bar>) (0 \<le> k), Input_Sync]\<rparr>)\<rparr>, int (length data))"
    using assms(3-5) dec_int_head [of k] by (intro vkbd_send_parsed) auto
  then show ?thesis
    using assms(1) len unfolding data_def [symmetric] b_def
    by (auto simp: vinput_write_def is_keyboard_def vkbd_ops_def Let_def)
qed

text \<open>The whole text is read when the reader asks for more than the driver's buffer holds.\<close>

lemma vkbd_cat:
  assumes "is_keyboard kstrtol s a v" and "length stack = VINPUT_MAX_LEN + 1"
  shows "cat_main 2 argv0 vinput_sys_read (Inr (s, a, stack, 0)) =
    Some (vkbd_text (v_last_entry v), EXIT_SUCCESS)"
proof -
  from assms(1) obtain km where km: "ops_of s v = Some (vkbd_ops km kstrtol)" "v_heap s a = Some v"
    by (auto simp: is_keyboard_def)
  have "vkbd.vfile_ok km kstrtol (s, a, stack, 0)"
    using km assms(2) by (simp add: vkbd.vfile_ok_def)
  moreover have "vkbd.vfile_rest (s, a, stack, 0) = vkbd_text (v_last_entry v)"
    using km by (simp add: vkbd.vfile_rest_def)
  ultimately show ?thesis
    using vkbd.vfile.cat_main_prints [of km kstrtol "(s, a, stack, 0)" argv0]
    by (simp add: VINPUT_MAX_LEN_def MAX_BYTES_def MAX_RW_COUNT_def)
qed

lemma is_keyboard_update:
  assumes "is_keyboard kstrtol s a v" and "v_type w = v_type v" and "v_input w = Some inp"
    and "i_status inp = Input_Registered"
  shows "is_keyboard kstrtol (s\<lparr>v_heap := (v_heap s)(a \<mapsto> w)\<rparr>) a w"
  using assms ops_of_type [OF assms(2), of s] by (simp add: is_keyboard_def)

text \<open>
  C5: writing a decimal number to a virtual keyboard reports a press of the key (a release of its
  absolute value, if it is negative) followed by a synchronisation, takes the whole text, and a
  process that then reads the device with cat_nonblock.c sees the number with its sign.
\<close>

theorem vkbd_write_then_cat:
  assumes "is_keyboard kstrtol s a v" and "kstrtol_ok kstrtol" and "v_input v = Some inp"
    and "- (2 ^ 63) < k" and "k < 2 ^ 63" and "t = [] \<or> t = [LF]"
  shows "\<exists>s' v' inp'. vinput_write s a (dec_int k @ t) 0 = Some (s', int (length (dec_int k @ t))) \<and>
    v_heap s' a = Some v' \<and> v_input v' = Some inp' \<and>
    i_events inp' = i_events inp @ [Report_Key (word_of_int \<bar>k\<bar>) (0 \<le> k), Input_Sync] \<and>
    (\<forall>stack argv0. length stack = VINPUT_MAX_LEN + 1 \<longrightarrow>
       cat_main 2 argv0 vinput_sys_read (Inr (s', a, stack, 0)) =
         Some (dec_int_plus k @ [LF], EXIT_SUCCESS))"
proof -
  define inp' where "inp' = inp\<lparr>i_events := i_events inp
    @ [Report_Key (word_of_int \<bar>k\<bar>) (0 \<le> k), Input_Sync]\<rparr>"
  define w where "w = v\<lparr>v_last_entry := word_of_int k, v_input := Some inp'\<rparr>"
  let ?s' = "s\<lparr>v_heap := (v_heap s)(a \<mapsto> w)\<rparr>"
  have "i_status inp' = Input_Registered"
    using assms(1,3) by (simp add: inp'_def is_keyboard_def)
  then have "is_keyboard kstrtol ?s' a w"
    using assms(1) by (intro is_keyboard_update) (simp_all add: w_def)
  moreover have "vkbd_text (v_last_entry w) = dec_int_plus k @ [LF]"
    using assms(4,5) by (simp add: vkbd_text_def w_def sint_word_of_int_64)
  ultimately show ?thesis
    using vkbd_cat [of kstrtol ?s' a w] vkbd_write_number [OF assms]
    by (intro exI [of _ ?s'] exI [of _ w] exI [of _ inp']) (simp add: w_def inp'_def)
qed

text \<open>The registry with one keyboard.\<close>

definition demo_sys :: vstate where
  "demo_sys = added demo_registry 9 demo_kbd"

lemma demo_sys_keyboard: "is_keyboard kstrtol_dec demo_sys 9 demo_kbd"
  by (auto simp: is_keyboard_def demo_sys_def added_def ops_of_def demo_kbd_def demo_registry_eq
      vkbd_dev_def)

lemma demo_sys_reach:
  "vinput_reach kstrtol_dec [5 \<mapsto> vkbd_dev [0..<KEY_MAX] kstrtol_dec] demo_sys"
  unfolding demo_sys_def
  by (rule vinput_reach.step [OF demo_registry_reach vinput_step.export [OF demo_fresh demo_export]])

theorem vkbd_write_then_cat_witness:
  "\<exists>s'. vinput_write demo_sys 9 (''-30'' @ [LF]) 0 = Some (s', 4) \<and>
    cat_main 2 [] vinput_sys_read (Inr (s', 9, zeros (VINPUT_MAX_LEN + 1), 0)) =
      Some (''-30'' @ [LF], EXIT_SUCCESS)"
proof -
  have "v_input demo_kbd \<noteq> None" by (simp add: demo_kbd_def)
  then obtain inp where inp: "v_input demo_kbd = Some inp" by auto
  have dec: "dec_int (- 30) = ''-30''" "dec_int_plus (- 30) = ''-30''"
    by (simp_all add: dec_int_plus_def dec_int_def dec_nat.simps digit_def char_of_def
        bit_Suc_0_iff)
  show ?thesis
    using vkbd_write_then_cat [OF demo_sys_keyboard kstrtol_dec_ok inp, of "- 30" "[LF]"]
    by (auto simp: dec)
qed

text \<open>
  A read of a virtual keyboard that asks for at most 128 bytes is always given all of them: after
  the text and its NUL it hands out what the buffer on the handler's stack held before.
\<close>

theorem vkbd_short_read_leaks_stack:
  assumes "is_keyboard kstrtol s a v" and "length stack = VINPUT_MAX_LEN + 1"
    and "count \<le> VINPUT_MAX_LEN" and "length (vkbd_text (v_last_entry v)) < count"
  shows "vinput_read s a stack count 0 0 =
    Some (int count, int count, vkbd_text (v_last_entry v) @ NUL #
      take (count - Suc (length (vkbd_text (v_last_entry v))))
        (drop (Suc (length (vkbd_text (v_last_entry v)))) stack))"
proof -
  from assms(1) obtain km where km: "ops_of s v = Some (vkbd_ops km kstrtol)" "v_heap s a = Some v"
    by (auto simp: is_keyboard_def)
  have le: "count \<le> MAX_RW_COUNT" using assms(3) by (simp add: VINPUT_MAX_LEN_def MAX_RW_COUNT_def)
  have "op_read (vkbd_ops km kstrtol) v stack (size_to_int count) =
      Some (vkbd_text (v_last_entry v) @ NUL # drop (Suc (length (vkbd_text (v_last_entry v)))) stack,
        int (length (vkbd_text (v_last_entry v))))"
    using vkbd_read_eq [OF assms(2) le] assms(4) le by (simp add: vkbd_ops_def min_absorb2)
  then show ?thesis
    using km assms by (simp add: vinput_read_def Let_def take_Cons')
qed

theorem vkbd_short_read_leaks_stack_witness:
  "vinput_read demo_sys 9 (replicate 129 CHR ''s'') 8 0 0 = Some (8, 8, ''+0'' @ [LF, NUL] @ ''ssss'')"
proof -
  have t: "vkbd_text (v_last_entry demo_kbd) = ''+0'' @ [LF]"
    by (simp add: vkbd_text_def demo_kbd_def dec_int_plus_def dec_int_def dec_nat.simps digit_def char_of_def
        bit_Suc_0_iff)
  show ?thesis
    using vkbd_short_read_leaks_stack [OF demo_sys_keyboard, of "replicate 129 CHR ''s''" 8]
    by (simp add: t VINPUT_MAX_LEN_def numeral_eq_Suc)
qed

text \<open>
  A read of a device that exists stays inside the 129 bytes of the handler's buffer and hands out
  at most 128 of them, whatever the registered driver, the offset and the count.
\<close>

theorem vinput_read_bounded:
  assumes "vinput_reach kstrtol drivers s" and "v_heap s a = Some v"
    and "length stack = VINPUT_MAX_LEN + 1" and "count \<le> MAX_RW_COUNT" and "0 \<le> off"
  shows "\<exists>ret off' data. vinput_read s a stack count off uncopied = Some (ret, off', data) \<and>
    length data \<le> VINPUT_MAX_LEN"
  using vinv_read [OF vinput_reach_inv [OF assms(1)] _ assms(3-5)] assms(2) by blast

theorem vinput_read_bounded_witness:
  "\<exists>ret off' data. vinput_read demo_sys 9 (zeros 129) 4096 1000 0 = Some (ret, off', data) \<and>
    length data \<le> VINPUT_MAX_LEN"
  by (rule vinput_read_bounded [OF demo_sys_reach, of _ demo_kbd])
    (simp_all add: demo_sys_def added_def VINPUT_MAX_LEN_def MAX_RW_COUNT_def)

text \<open>
  A file that was opened before its device was unexported keeps the address of the freed object:
  the next read or write through it follows a dangling pointer.
\<close>

theorem vinput_use_after_unexport:
  assumes "vinput_reach kstrtol drivers s" and "vinput_open s minor = Some (0, Some a)"
    and "kstrtol buf = Inr (int minor)"
  shows "\<exists>s'. unexport_store kstrtol s buf len = Some (s', int len) \<and>
    vinput_read s' a stack count off uncopied = None \<and>
    vinput_write s' a data 0 = None"
proof -
  have I: "vinv s" using vinput_reach_inv [OF assms(1)] .
  from assms(2) obtain v where v: "v_heap s a = Some v" "v_id v = minor"
    using vinput_open_found [OF I] by blast
  have "v_heap (gone s a v) a = None" by (simp add: gone_def)
  then show ?thesis
    using unexport_found [OF I v(1), of kstrtol buf len] assms(3) v(2)
    by (simp add: vinput_read_def vinput_write_def Let_def)
qed

theorem vinput_use_after_unexport_witness:
  "\<exists>s'. unexport_store kstrtol_dec demo_sys ''0'' 1 = Some (s', int 1) \<and>
    vinput_read s' 9 (zeros 129) 16 0 0 = None"
proof -
  have "\<exists>v. v_heap demo_sys 9 = Some v \<and> v_id v = 0"
    by (simp add: demo_sys_def added_def demo_kbd_def)
  then have "vinput_open demo_sys 0 = Some (0, Some 9)"
    using vinput_open_found [OF vinput_reach_inv [OF demo_sys_reach]] by blast
  moreover have "kstrtol_dec ''0'' = Inr (int 0)" by (simp add: kstrtol_dec_def in_long_def)
  ultimately show ?thesis
    using vinput_use_after_unexport [OF demo_sys_reach] by blast
qed

end
