(* ===== verification/Vinput_Spec.thy ===== *)
theory Vinput_Spec
  imports Vinput_Props Transition
begin

text \<open>
  What vinput.c promises, without its pointers, lists and bitmap: a table of devices by id. The registry
  of theory \<open>Vinput\<close> is shown to do, in every run, only what this table may do.
\<close>

subsection \<open>The table\<close>

text \<open>
  The registered drivers, the devices by id, and the ids that failed exports have lost. The drivers'
  structures, \<open>D\<close>, do not change.
\<close>

record registry =
  reg_drivers :: "nat list"
  reg_devs :: "nat \<rightharpoonup> vinput"
  reg_lost :: "nat set"

definition registry_start :: registry where
  "registry_start = \<lparr>reg_drivers = [], reg_devs = Map.empty, reg_lost = {}\<rparr>"

text \<open>The id of the next device: the least that is neither a device's nor lost.\<close>

definition reg_used :: "registry \<Rightarrow> nat set" where
  "reg_used r = dom (reg_devs r) \<union> reg_lost r"

definition reg_next :: "registry \<Rightarrow> nat \<Rightarrow> bool" where
  "reg_next r i \<longleftrightarrow> i < VINPUT_MINORS \<and> i \<notin> reg_used r \<and> (\<forall>j<i. j \<in> reg_used r)"

text \<open>A new device, before its driver sets it up.\<close>

definition new_device :: "nat \<Rightarrow> nat \<Rightarrow> string \<Rightarrow> vinput" where
  "new_device i d name = \<lparr>v_id = i, v_last_entry = 0, v_input = Some (new_input_dev\<lparr>i_name := name\<rparr>), v_type = Some d\<rparr>"

inductive registry_step ::
    "(string \<Rightarrow> int + int) \<Rightarrow> (nat \<rightharpoonup> vinput_device) \<Rightarrow> registry \<Rightarrow> vinput_event \<times> int \<Rightarrow> registry \<Rightarrow> bool"
  for kstrtol :: "string \<Rightarrow> int + int" and D :: "nat \<rightharpoonup> vinput_device"
where
  export_unknown: "find_device D buf (reg_drivers r) = Some None \<Longrightarrow>
    registry_step kstrtol D r (Ev_Export buf len, - ENODEV) r"
| export_refused: "find_device D buf (reg_drivers r) = Some (Some d) \<Longrightarrow> ret < 0 \<Longrightarrow>
    registry_step kstrtol D r (Ev_Export buf len, ret) r"
| export_lost: "find_device D buf (reg_drivers r) = Some (Some d) \<Longrightarrow> reg_next r i \<Longrightarrow>
    registry_step kstrtol D r (Ev_Export buf len, - ENOMEM) (r\<lparr>reg_lost := insert i (reg_lost r)\<rparr>)"
| export_done: "find_device D buf (reg_drivers r) = Some (Some d) \<Longrightarrow> D d = Some dev \<Longrightarrow> reg_next r i \<Longrightarrow>
    op_init (vd_ops dev) (new_device i d (vd_name dev)) reg_ret = Some (v, e) \<Longrightarrow> 0 \<le> e \<Longrightarrow>
    registry_step kstrtol D r (Ev_Export buf len, int len) (r\<lparr>reg_devs := (reg_devs r)(i \<mapsto> v)\<rparr>)"
| unexport_bad: "kstrtol buf = Inl e \<Longrightarrow> registry_step kstrtol D r (Ev_Unexport buf len, - EINVAL) r"
| unexport_none: "kstrtol buf = Inr k \<Longrightarrow> \<forall>i\<in>dom (reg_devs r). int i \<noteq> k \<Longrightarrow>
    registry_step kstrtol D r (Ev_Unexport buf len, - ENODEV) r"
| unexport_done: "kstrtol buf = Inr (int i) \<Longrightarrow> i \<in> dom (reg_devs r) \<Longrightarrow>
    registry_step kstrtol D r (Ev_Unexport buf len, int len) (r\<lparr>reg_devs := (reg_devs r)(i := None)\<rparr>)"
| open_done: "i \<in> dom (reg_devs r) \<Longrightarrow> registry_step kstrtol D r (Ev_Open i, 0) r"
| open_none: "i \<notin> dom (reg_devs r) \<Longrightarrow> registry_step kstrtol D r (Ev_Open i, - ENODEV) r"
| write_long: "VINPUT_MAX_LEN < length data \<Longrightarrow> registry_step kstrtol D r (Ev_Write i data uncopied, - EINVAL) r"
| write_fault: "length data \<le> VINPUT_MAX_LEN \<Longrightarrow> uncopied \<noteq> 0 \<Longrightarrow>
    registry_step kstrtol D r (Ev_Write i data uncopied, - EFAULT) r"
| write_done: "length data \<le> VINPUT_MAX_LEN \<Longrightarrow> reg_devs r i = Some v \<Longrightarrow> v_type v = Some d \<Longrightarrow> D d = Some dev \<Longrightarrow>
    op_send (vd_ops dev) v (data @ zeros (VINPUT_MAX_LEN + 1 - length data)) (int (length data)) = Some (v', ret) \<Longrightarrow>
    registry_step kstrtol D r (Ev_Write i data 0, ret) (r\<lparr>reg_devs := (reg_devs r)(i \<mapsto> v')\<rparr>)"
| register: "d \<notin> set (reg_drivers r) \<Longrightarrow> D d \<noteq> None \<Longrightarrow>
    registry_step kstrtol D r (Ev_Register d, 0) (r\<lparr>reg_drivers := d # reg_drivers r\<rparr>)"
| unregister: "registry_step kstrtol D r (Ev_Unregister d, 0)
    (r\<lparr>reg_drivers := remove1 d (reg_drivers r),
       reg_devs := (\<lambda>i. case reg_devs r i of None \<Rightarrow> None | Some v \<Rightarrow> if v_type v = Some d then None else Some v)\<rparr>)"

subsection \<open>The relation\<close>

definition reg_rel :: "(nat \<rightharpoonup> vinput_device) \<Rightarrow> vstate \<Rightarrow> registry \<Rightarrow> bool" where
  "reg_rel D s r \<longleftrightarrow> vinv s \<and> v_drivers s = D \<and> reg_drivers r = vinput_devices s \<and>
     (\<forall>i v. reg_devs r i = Some v \<longleftrightarrow> (\<exists>a. v_heap s a = Some v \<and> v_id v = i)) \<and>
     reg_lost r = {i. i < VINPUT_MINORS \<and> id_lost i s}"

lemma reg_relD:
  assumes "reg_rel D s r"
  shows "vinv s" and "v_drivers s = D" and "reg_drivers r = vinput_devices s"
    and "reg_devs r i = Some v \<longleftrightarrow> (\<exists>a. v_heap s a = Some v \<and> v_id v = i)"
    and "reg_lost r = {i. i < VINPUT_MINORS \<and> id_lost i s}"
  using assms by (auto simp: reg_rel_def)

lemma reg_rel_start: "reg_rel D (vinput_start D) registry_start"
  using vinv_start [of D]
  by (auto simp: reg_rel_def registry_start_def vinput_start_def id_lost_def)

lemma reg_dom: "reg_rel D s r \<Longrightarrow> i \<in> dom (reg_devs r) \<longleftrightarrow> (\<exists>a v. v_heap s a = Some v \<and> v_id v = i)"
  unfolding dom_def mem_Collect_eq not_None_eq using reg_relD(4) [of D s r i] by blast

text \<open>An id is used exactly when its bit is set, so the first zero bit is the next id.\<close>

lemma reg_used_iff:
  assumes "reg_rel D s r" and "i < VINPUT_MINORS"
  shows "i \<in> reg_used r \<longleftrightarrow> vinput_ids s ! i"
proof -
  have "vinput_ids s ! v_id v" if "v_heap s a = Some v" for a v
    using vinvD(3) [OF reg_relD(1) [OF assms(1)] that] .
  then show ?thesis
    unfolding reg_used_def Un_iff reg_dom [OF assms(1)] reg_relD(5) [OF assms(1)]
    using assms(2) by (auto simp: id_lost_def)
qed

lemma reg_next_ffz:
  assumes "reg_rel D s r" and "find_first_zero_bit (vinput_ids s) < VINPUT_MINORS"
  shows "reg_next r (find_first_zero_bit (vinput_ids s))"
proof -
  let ?i = "find_first_zero_bit (vinput_ids s)"
  have "length (vinput_ids s) = VINPUT_MINORS" using reg_relD(1) [OF assms(1)] by (simp add: vinv_def)
  then have "\<not> vinput_ids s ! ?i" using ffz_free [of "vinput_ids s"] assms(2) by simp
  moreover have "j \<in> reg_used r" if "j < ?i" for j
    using reg_used_iff [OF assms(1), of j] ffz_least [OF that] that assms(2) by simp
  ultimately show ?thesis using reg_used_iff [OF assms(1), of ?i] assms(2) by (simp add: reg_next_def)
qed

lemma reg_find:
  "reg_rel D s r \<Longrightarrow> find_device D buf (reg_drivers r) =
    map_option (\<lambda>p. case p of Ptr d \<Rightarrow> Some d | ERR_PTR e \<Rightarrow> None) (vinput_get_device_by_type s buf)"
  by (cases "find_device D buf (reg_drivers r)")
    (auto simp: vinput_get_device_by_type_def reg_rel_def split: option.split)

subsection \<open>The steps that change the table\<close>

lemma nth_update: "xs[i := x] ! j = (if i = j \<and> j < length xs then x else xs ! j)"
  by (cases "i < length xs") (auto simp: list_update_beyond)

lemma rel_lost:
  assumes "reg_rel D s r" and "i = find_first_zero_bit (vinput_ids s)" and "i < VINPUT_MINORS"
  shows "reg_rel D (id_marked s i) (r\<lparr>reg_lost := insert i (reg_lost r)\<rparr>)"
proof -
  note I = reg_relD(1) [OF assms(1)]
  have len: "length (vinput_ids s) = VINPUT_MINORS" using I by (simp add: vinv_def)
  then have "\<not> vinput_ids s ! i" using ffz_free [of "vinput_ids s"] assms(2,3) by simp
  then have "v_id v \<noteq> i" if "v_heap s a = Some v" for a v using vinvD(3) [OF I that] by auto
  then have "id_lost j (id_marked s i) \<longleftrightarrow> j = i \<or> id_lost j s" if "j < VINPUT_MINORS" for j
    using len that by (auto simp: id_lost_def id_marked_def nth_update)
  then show ?thesis
    using assms vinv_id_marked [OF I] by (auto simp: reg_rel_def id_marked_def)
qed

lemma rel_added:
  assumes "reg_rel D s r" and "vinv (added s a v)" and "v_heap s a = None" and "\<not> vinput_ids s ! v_id v"
    and "v_id v < VINPUT_MINORS"
  shows "reg_rel D (added s a v) (r\<lparr>reg_devs := (reg_devs r)(v_id v \<mapsto> v)\<rparr>)"
proof -
  note I = reg_relD(1) [OF assms(1)]
  have len: "length (vinput_ids s) = VINPUT_MINORS" using I by (simp add: vinv_def)
  have other: "v_id w \<noteq> v_id v" if "v_heap s b = Some w" for b w
    using vinvD(3) [OF I that] assms(4) by auto
  have "id_lost j (added s a v) \<longleftrightarrow> id_lost j s" if "j < VINPUT_MINORS" for j
    using len that assms(3,4) by (auto simp: id_lost_def added_def nth_update) (metis option.distinct(1))
  moreover have "((reg_devs r)(v_id v \<mapsto> v)) i = Some w \<longleftrightarrow> (\<exists>b. v_heap (added s a v) b = Some w \<and> v_id w = i)" for i w
    using reg_relD(4) [OF assms(1), of i w] assms(3) other by (auto simp: added_def) (metis option.distinct(1))
  ultimately show ?thesis using assms(1,2) by (auto simp: reg_rel_def added_def)
qed

lemma rel_gone:
  assumes "reg_rel D s r" and "v_heap s a = Some v"
  shows "reg_rel D (gone s a v) (r\<lparr>reg_devs := (reg_devs r)(v_id v := None)\<rparr>)"
proof -
  note I = reg_relD(1) [OF assms(1)]
  have other: "v_id w \<noteq> v_id v" if "v_heap s b = Some w" "b \<noteq> a" for b w
    using I assms(2) that unfolding vinv_def by blast
  have len: "length (vinput_ids s) = VINPUT_MINORS" using I by (simp add: vinv_def)
  have "id_lost j (gone s a v) \<longleftrightarrow> id_lost j s" if "j < VINPUT_MINORS" for j
    using len that assms(2) by (auto simp: id_lost_def gone_def nth_update) (metis option.inject)
  moreover have "((reg_devs r)(v_id v := None)) i = Some w \<longleftrightarrow> (\<exists>b. v_heap (gone s a v) b = Some w \<and> v_id w = i)" for i w
    using reg_relD(4) [OF assms(1), of i w] other assms(2) by (auto simp: gone_def) (metis option.inject)
  ultimately show ?thesis using assms(1) vinv_gone [OF I assms(2)] by (auto simp: reg_rel_def gone_def)
qed

lemma rel_write:
  assumes "reg_rel D s r" and "v_heap s a = Some v" and "vinv (s\<lparr>v_heap := (v_heap s)(a \<mapsto> v')\<rparr>)"
    and "v_id v' = v_id v"
  shows "reg_rel D (s\<lparr>v_heap := (v_heap s)(a \<mapsto> v')\<rparr>) (r\<lparr>reg_devs := (reg_devs r)(v_id v \<mapsto> v')\<rparr>)"
proof -
  note I = reg_relD(1) [OF assms(1)]
  have other: "v_id w \<noteq> v_id v" if "v_heap s b = Some w" "b \<noteq> a" for b w
    using I assms(2) that unfolding vinv_def by blast
  have "id_lost j (s\<lparr>v_heap := (v_heap s)(a \<mapsto> v')\<rparr>) \<longleftrightarrow> id_lost j s" for j
    using assms(2,4) by (auto simp: id_lost_def)
  moreover have "((reg_devs r)(v_id v \<mapsto> v')) i = Some w \<longleftrightarrow>
      (\<exists>b. ((v_heap s)(a \<mapsto> v')) b = Some w \<and> v_id w = i)" for i w
  proof (cases "i = v_id v")
    case True
    with other assms(4) show ?thesis by auto
  next
    case False
    with assms(2,4) have "(\<exists>b. ((v_heap s)(a \<mapsto> v')) b = Some w \<and> v_id w = i) \<longleftrightarrow> (\<exists>b. v_heap s b = Some w \<and> v_id w = i)"
      by (metis fun_upd_apply option.inject)
    with False reg_relD(4) [OF assms(1), of i w] show ?thesis by simp
  qed
  ultimately show ?thesis using assms(1,3) by (auto simp: reg_rel_def)
qed

lemma rel_unregister:
  assumes "reg_rel D s r" and "vinput_unregister s d = Some s'"
  shows "reg_rel D s' (r\<lparr>reg_drivers := remove1 d (reg_drivers r),
    reg_devs := (\<lambda>i. case reg_devs r i of None \<Rightarrow> None | Some v \<Rightarrow> if v_type v = Some d then None else Some v)\<rparr>)"
proof -
  have "d \<in> set (vinput_devices s)" using assms(2) by (auto simp: vinput_unregister_def split: if_splits)
  from unregister_eq [OF reg_relD(1) [OF assms(1)] this] assms(2) have s': "vinv s'"
    "vinput_devices s' = remove1 d (vinput_devices s)" "v_drivers s' = v_drivers s"
    and heap: "\<And>b. v_heap s' b = (case v_heap s b of None \<Rightarrow> None
       | Some v \<Rightarrow> if v_type v = Some d then None else Some v)"
    and ids: "\<And>i. vinput_ids s' ! i \<longleftrightarrow> vinput_ids s ! i \<and>
       (\<forall>b v. v_heap s b = Some v \<longrightarrow> v_type v = Some d \<longrightarrow> v_id v \<noteq> i)"
    by auto
  have heap': "v_heap s' b = Some v \<longleftrightarrow> v_heap s b = Some v \<and> v_type v \<noteq> Some d" for b v
    using heap [of b] by (auto split: option.splits)
  have "id_lost j s' \<longleftrightarrow> id_lost j s" for j
    unfolding id_lost_def ids heap' by blast
  moreover have "(case reg_devs r i of None \<Rightarrow> None | Some v \<Rightarrow> if v_type v = Some d then None else Some v) = Some w \<longleftrightarrow>
      (\<exists>b. v_heap s' b = Some w \<and> v_id w = i)" for i w
    using reg_relD(4) [OF assms(1), of i w] by (auto simp: heap' split: option.splits)
  ultimately show ?thesis using assms(1) s' by (auto simp: reg_rel_def)
qed

subsection \<open>The registry implements the table\<close>

lemma sim_export:
  assumes R: "reg_rel D s r" and "fresh_env e s" and "export_store e s buf len = Some (s', ret)"
  shows "\<exists>r'. registry_step kstrtol D r (Ev_Export buf len, ret) r' \<and> reg_rel D s' r'"
proof -
  let ?i = "find_first_zero_bit (vinput_ids s)"
  note find = reg_find [OF R, of buf]
  from export_cases [OF reg_relD(1) [OF R] assms(2), of buf len] assms(3)
  consider (same) "s' = s" "ret < 0" "\<forall>err. vinput_get_device_by_type s buf = Some (ERR_PTR err) \<longrightarrow> ret = - ENODEV"
    | (lost) d where "s' = id_marked s ?i" "ret = - ENOMEM" "?i < VINPUT_MINORS"
        "vinput_get_device_by_type s buf = Some (Ptr d)"
    | (added) a v d dev q where "s' = added s a v" "ret = int len" "kzalloc_ret e = Some a" "v_id v = ?i"
        "v_id v < VINPUT_MINORS" "vinput_get_device_by_type s buf = Some (Ptr d)" "v_drivers s d = Some dev"
        "op_init (vd_ops dev) (fresh_vinput s d dev) (input_register_ret e) = Some (v, q)" "0 \<le> q" "vinv s'"
    by auto
  then show ?thesis
  proof cases
    case same
    obtain p where "vinput_get_device_by_type s buf = Some p"
      using get_device_total [of s buf] reg_relD(1) [OF R] unfolding vinv_def by blast
    with same R find show ?thesis
      by (cases p) (auto intro: registry_step.export_unknown registry_step.export_refused)
  next
    case lost
    from lost find have "find_device D buf (reg_drivers r) = Some (Some d)" by simp
    from registry_step.export_lost [OF this reg_next_ffz [OF R lost(3)]] rel_lost [OF R refl lost(3)] lost(1,2)
    show ?thesis by blast
  next
    case added
    from added find have f: "find_device D buf (reg_drivers r) = Some (Some d)" by simp
    have dev: "D d = Some dev" using added(7) reg_relD(2) [OF R] by simp
    have nxt: "reg_next r ?i" using reg_next_ffz [OF R] added(4,5) by simp
    have init: "op_init (vd_ops dev) (new_device ?i d (vd_name dev)) (input_register_ret e) = Some (v, q)"
      using added(8) by (simp add: fresh_vinput_def new_device_def)
    have "v_heap s a = None" using assms(2) added(3) by (simp add: fresh_env_def)
    moreover have "\<not> vinput_ids s ! v_id v"
      using ffz_free [of "vinput_ids s"] added(4,5) reg_relD(1) [OF R] by (simp add: vinv_def)
    ultimately have "reg_rel D s' (r\<lparr>reg_devs := (reg_devs r)(v_id v \<mapsto> v)\<rparr>)"
      using rel_added [OF R] added(1,5,10) by simp
    with registry_step.export_done [OF f dev nxt init added(9)] added(2,4) show ?thesis by auto
  qed
qed

lemma sim_unexport:
  assumes R: "reg_rel D s r" and "unexport_store kstrtol s buf len = Some (s', ret)"
  shows "\<exists>r'. registry_step kstrtol D r (Ev_Unexport buf len, ret) r' \<and> reg_rel D s' r'"
proof -
  from unexport_cases [OF reg_relD(1) [OF R], of kstrtol buf len] assms(2)
  consider (bad) e where "kstrtol buf = Inl e" "s' = s" "ret = - EINVAL"
    | (none) k where "kstrtol buf = Inr k" "\<forall>a v. v_heap s a = Some v \<longrightarrow> int (v_id v) \<noteq> k" "s' = s" "ret = - ENODEV"
    | (removed) a v where "kstrtol buf = Inr (int (v_id v))" "v_heap s a = Some v" "s' = gone s a v" "ret = int len"
    by auto
  then show ?thesis
  proof cases
    case bad
    with R show ?thesis by (blast intro: registry_step.unexport_bad)
  next
    case none
    have "\<forall>i\<in>dom (reg_devs r). int i \<noteq> k"
    proof
      fix i
      assume "i \<in> dom (reg_devs r)"
      then obtain a v where "v_heap s a = Some v" "v_id v = i" using reg_dom [OF R] by blast
      with none(2) show "int i \<noteq> k" by auto
    qed
    with none R show ?thesis by (blast intro: registry_step.unexport_none)
  next
    case removed
    then have "v_id v \<in> dom (reg_devs r)" using reg_dom [OF R] by blast
    from registry_step.unexport_done [of kstrtol buf "v_id v" r D len, OF removed(1) this] rel_gone [OF R removed(2)] removed(3,4) show ?thesis by blast
  qed
qed

lemma sim_open:
  assumes R: "reg_rel D s r" and "vinput_open s minor = Some (ret, p)"
  shows "\<exists>r'. registry_step kstrtol D r (Ev_Open minor, ret) r' \<and> reg_rel D s r'"
proof (cases "minor \<in> dom (reg_devs r)")
  case True
  then obtain a v where "v_heap s a = Some v" "v_id v = minor" using reg_dom [OF R] by blast
  then have "vinput_open s minor = Some (0, Some a)" using vinput_open_found [OF reg_relD(1) [OF R]] by blast
  with assms True show ?thesis by (auto intro: registry_step.open_done)
next
  case False
  then have "\<forall>a v. v_heap s a = Some v \<longrightarrow> int (v_id v) \<noteq> int minor" using reg_dom [OF R] by auto
  from get_vdevice_by_id_eq(2) [OF reg_relD(1) [OF R] this] assms(2) have "ret = - ENODEV"
    by (simp add: vinput_open_def)
  with False R show ?thesis by (blast intro: registry_step.open_none)
qed

lemma sim_write:
  assumes R: "reg_rel D s r" and v: "v_heap s a = Some v" and "vinput_write s a data uncopied = Some (s', ret)"
  shows "\<exists>r'. registry_step kstrtol D r (Ev_Write (v_id v) data uncopied, ret) r' \<and> reg_rel D s' r'"
proof -
  note I = reg_relD(1) [OF R]
  consider (long) "VINPUT_MAX_LEN < length data" | (fault) "length data \<le> VINPUT_MAX_LEN" "uncopied \<noteq> 0"
    | (ok) "length data \<le> VINPUT_MAX_LEN" "uncopied = 0" by linarith
  then show ?thesis
  proof cases
    case long
    with assms(3) R v show ?thesis by (auto simp: vinput_write_def Let_def intro: registry_step.write_long)
  next
    case fault
    with assms(3) R show ?thesis by (auto simp: vinput_write_def Let_def intro: registry_step.write_fault)
  next
    case ok
    obtain d where d: "v_type v = Some d" "d \<in> set (vinput_devices s)"
      using I v unfolding vinv_def vdev_ok_def by blast
    then obtain dev where dev: "v_drivers s d = Some dev" using I unfolding vinv_def drivers_ok_def by blast
    then have ops: "ops_of s v = Some (vd_ops dev)" using d by (simp add: ops_of_def)
    from ok assms(3) v ops obtain v' where
      send: "op_send (vd_ops dev) v (data @ zeros (VINPUT_MAX_LEN + 1 - length data)) (int (length data)) = Some (v', ret)"
      and s': "s' = s\<lparr>v_heap := (v_heap s)(a \<mapsto> v')\<rparr>"
      by (auto simp: vinput_write_def Let_def split: option.splits)
    from vinv_write [OF I v, of data uncopied] assms(3) obtain v'' where
      "vinv s'" "s' = s\<lparr>v_heap := (v_heap s)(a \<mapsto> v'')\<rparr>" "v_id v'' = v_id v" by auto
    moreover have "v'' = v'"
    proof -
      have "v_heap s' a = Some v'" using s' by simp
      moreover have "v_heap s' a = Some v''" using \<open>s' = s\<lparr>v_heap := (v_heap s)(a \<mapsto> v'')\<rparr>\<close> by simp
      ultimately show ?thesis by simp
    qed
    ultimately have "reg_rel D s' (r\<lparr>reg_devs := (reg_devs r)(v_id v \<mapsto> v')\<rparr>)"
      using rel_write [OF R v, of v'] by simp
    moreover have "reg_devs r (v_id v) = Some v" using reg_relD(4) [OF R] v by blast
    moreover have "D d = Some dev" using dev reg_relD(2) [OF R] by simp
    ultimately show ?thesis
      using registry_step.write_done [OF ok(1) _ d(1) _ send] ok(2) by blast
  qed
qed

interpretation vinput_sim: simulation "vinput_step kstrtol" "registry_step kstrtol D" "reg_rel D"
  for kstrtol D
proof unfold_locales
  fix s r l s'
  assume R: "reg_rel D s r" and "vinput_step kstrtol s l s'"
  from this(2) show "\<exists>r'. registry_step kstrtol D r l r' \<and> reg_rel D s' r'"
  proof cases
    case (export e buf len ret)
    with sim_export [OF R] show ?thesis by blast
  next
    case (unexport buf len ret)
    with sim_unexport [OF R] show ?thesis by blast
  next
    case (dev_open minor ret p)
    with sim_open [OF R] show ?thesis by blast
  next
    case (dev_write a v data uncopied ret)
    with sim_write [OF R] show ?thesis by blast
  next
    case (register d dev ret)
    have "d \<notin> set (reg_drivers r)" "D d \<noteq> None"
      using register(2,3) reg_relD(2,3) [OF R] by simp_all
    moreover have "vinv s'" using vinv_register [OF reg_relD(1) [OF R] register(2-4)] register(5) by simp
    moreover have s': "s' = s\<lparr>vinput_devices := d # vinput_devices s\<rparr>" "ret = 0"
      using register(5) by (simp_all add: vinput_register_def)
    ultimately have "reg_rel D s' (r\<lparr>reg_drivers := d # reg_drivers r\<rparr>)"
      using R by (simp add: reg_rel_def id_lost_def)
    with registry_step.register [of d r D kstrtol] register(1) s'(2)
      \<open>d \<notin> set (reg_drivers r)\<close> \<open>D d \<noteq> None\<close> show ?thesis by blast
  next
    case (unregister d)
    with rel_unregister [OF R] registry_step.unregister [of kstrtol D r d] show ?thesis by blast
  qed
qed

subsection \<open>Properties\<close>

text \<open>
  C2: whatever is written to \<open>export\<close>, \<open>unexport\<close> and the devices, and whatever drivers come and go, the
  module answers, with the same return values, as a table of devices by id would: an export takes the
  least id that is neither in use nor lost to an earlier failure, an unexport or the departure of a driver
  removes entries and changes no other, a write changes one entry as its driver says. The devices of the
  table are those of the module, and there are at most 32.
\<close>

theorem vinput_refines_registry:
  assumes "trace (vinput_step kstrtol) (vinput_start D) ls s"
  shows "\<exists>r. trace (registry_step kstrtol D) registry_start ls r \<and> reg_drivers r = vinput_devices s \<and>
    (\<forall>i v. reg_devs r i = Some v \<longleftrightarrow> (\<exists>a. v_heap s a = Some v \<and> v_id v = i)) \<and>
    (\<forall>i<VINPUT_MINORS. i \<in> reg_used r \<longleftrightarrow> vinput_ids s ! i) \<and> dom (reg_devs r) \<subseteq> {..<VINPUT_MINORS}"
proof -
  from vinput_sim.trace_sim [OF assms reg_rel_start] obtain r where
    r: "trace (registry_step kstrtol D) registry_start ls r" "reg_rel D s r" by blast
  have "dom (reg_devs r) \<subseteq> {..<VINPUT_MINORS}"
  proof
    fix i
    assume "i \<in> dom (reg_devs r)"
    then obtain a v where "v_heap s a = Some v" "v_id v = i" using reg_dom [OF r(2)] by blast
    then show "i \<in> {..<VINPUT_MINORS}" using vinvD(2) [OF reg_relD(1) [OF r(2)]] by auto
  qed
  then show ?thesis
    using r(1) reg_relD(3,4) [OF r(2)] reg_used_iff [OF r(2)] by (intro exI [of _ r] conjI allI impI)
qed

lemma demo_trace:
  "trace (vinput_step kstrtol_dec) (vinput_start [5 \<mapsto> vkbd_dev [0..<KEY_MAX] kstrtol_dec])
     [(Ev_Register 5, 0), (Ev_Export ''vkbd'' 4, 4)] demo_sys"
proof -
  let ?step = "vinput_step kstrtol_dec" and ?D = "[5 \<mapsto> vkbd_dev [0..<KEY_MAX] kstrtol_dec]"
  have reg: "?step (vinput_start ?D) (Ev_Register 5, 0) demo_registry"
    by (rule vinput_step.register [of 5 _ "vkbd_dev [0..<KEY_MAX] kstrtol_dec"])
      (simp_all add: vinput_start_def vkbd_dev_def vkbd_is_driver vinput_register_def demo_registry_eq)
  have exp: "?step demo_registry (Ev_Export ''vkbd'' 4, int 4) demo_sys"
    unfolding demo_sys_def by (rule vinput_step.export [OF demo_fresh demo_export])
  have one: "trace ?step (vinput_start ?D) ([] @ [(Ev_Register 5, 0)]) demo_registry"
    using trace.nil reg by (rule trace.snoc)
  have "trace ?step (vinput_start ?D) (([] @ [(Ev_Register 5, 0)]) @ [(Ev_Export ''vkbd'' 4, int 4)]) demo_sys"
    using one exp by (rule trace.snoc)
  then show ?thesis by (simp only: append_Nil append_Cons of_nat_numeral)
qed

theorem vinput_refines_registry_witness:
  "\<exists>r. trace (registry_step kstrtol_dec [5 \<mapsto> vkbd_dev [0..<KEY_MAX] kstrtol_dec]) registry_start
      [(Ev_Register 5, 0), (Ev_Export ''vkbd'' 4, 4)] r \<and> reg_devs r 0 = Some demo_kbd"
proof -
  have "v_heap demo_sys 9 = Some demo_kbd \<and> v_id demo_kbd = 0"
    by (simp add: demo_sys_def added_def demo_kbd_def)
  with vinput_refines_registry [OF demo_trace] show ?thesis by blast
qed

end
