(* ===== verification/Vinput_Threads.thy ===== *)
theory Vinput_Threads
  imports Vinput_Props Transition
begin

text \<open>
  vinput.c with several processes in it at once. The functions of \<open>Vinput\<close> run \<open>export_store\<close> and
  \<open>unexport_store\<close> to their end; here both are cut where the module gives up its lock or calls another
  subsystem, and any number of threads take turns. Shown are that a thread alone does what these
  functions do, that concurrent exports are safe, and that unexports are not.
\<close>

subsection \<open>The threads\<close>

text \<open>
  Where a thread is. In \<open>export_store\<close>, with the driver found, the object on the list, the object with
  an input device, with its type, and with its device registered; in \<open>unexport_store\<close>, with the object
  found and with its input device gone; or out of both, with the last return value.
\<close>

datatype vplace =
    Out int
  | Ex_Driver nat nat
  | Ex_Listed nat nat nat
  | Ex_Input nat nat nat
  | Ex_Typed nat nat nat
  | Ex_Device nat nat nat
  | Un_Found nat nat
  | Un_Input nat nat

text \<open>
  What a thread is asked to do: enter one of the functions, or go on, with the kernel's answer to
  the call it makes there.
\<close>

datatype vaction = Do_Export string nat | Do_Unexport string nat | Go_Alloc "nat option" | Go_Input bool | Go_Ret int | Go

text \<open>
  One step of a thread. \<open>None\<close> is a dangling pointer or a wrong use of the input subsystem; an action
  that does not belong to the place has no effect.
\<close>

fun vthread :: "(string \<Rightarrow> int + int) \<Rightarrow> vaction \<Rightarrow> vplace \<Rightarrow> vstate \<Rightarrow> (vstate \<times> vplace) option" where
  "vthread kstrtol (Do_Export buf len) (Out r) s =
     (case vinput_get_device_by_type s buf of
        None \<Rightarrow> None
      | Some (ERR_PTR err) \<Rightarrow> Some (s, Out err)
      | Some (Ptr d) \<Rightarrow> Some (s, Ex_Driver d len))"
| "vthread kstrtol (Go_Alloc mem) (Ex_Driver d len) s =
     Some (case mem of
             None \<Rightarrow> (s, Out (- ENOMEM))
           | Some a \<Rightarrow>
               (let i = find_first_zero_bit (vinput_ids s)
                in if i \<ge> VINPUT_MINORS then (s, Out (- ENOBUFS))
                   else (s\<lparr>vinput_ids := (vinput_ids s)[i := True], vinput_vdevices := a # vinput_vdevices s,
                           v_heap := (v_heap s)(a \<mapsto> \<lparr>v_id = i, v_last_entry = 0, v_input = None, v_type = None\<rparr>)\<rparr>,
                         Ex_Listed a d len)))"
| "vthread kstrtol (Go_Input ok) (Ex_Listed a d len) s =
     (case v_heap s a of
        None \<Rightarrow> None
      | Some v \<Rightarrow>
          if \<not> ok then
            Some (s\<lparr>vinput_vdevices := remove1 a (vinput_vdevices s), v_heap := (v_heap s)(a := None)\<rparr>, Out (- ENOMEM))
          else Some (s\<lparr>v_heap := (v_heap s)(a \<mapsto> v\<lparr>v_input := Some new_input_dev\<rparr>)\<rparr>, Ex_Input a d len))"
| "vthread kstrtol Go (Ex_Input a d len) s =
     (case v_heap s a of
        None \<Rightarrow> None
      | Some v \<Rightarrow> Some (s\<lparr>v_heap := (v_heap s)(a \<mapsto> v\<lparr>v_type := Some d\<rparr>)\<rparr>, Ex_Typed a d len))"
| "vthread kstrtol (Go_Ret err) (Ex_Typed a d len) s =
     (if err < 0 then
        map_option (\<lambda>s. (s, Out err)) (Option.bind (input_free_device s a) (\<lambda>s. vinput_destroy_vdevice s a))
      else Some (s, Ex_Device a d len))"
| "vthread kstrtol (Go_Ret reg_ret) (Ex_Device a d len) s =
     (case vinput_register_vdevice s a reg_ret of
        None \<Rightarrow> None
      | Some (s, err) \<Rightarrow>
          if err < 0 then
            map_option (\<lambda>s. (s, Out err)) (Option.bind (input_free_device s a) (\<lambda>s. vinput_release_dev s a))
          else Some (s, Out (int len)))"
| "vthread kstrtol (Do_Unexport buf len) (Out r) s =
     (case kstrtol buf of
        Inl _ \<Rightarrow> Some (s, Out (- EINVAL))
      | Inr i \<Rightarrow>
          (case vinput_get_vdevice_by_id s i of
             None \<Rightarrow> None
           | Some (ERR_PTR err) \<Rightarrow> Some (s, Out err)
           | Some (Ptr a) \<Rightarrow> Some (s, Un_Found a len)))"
| "vthread kstrtol Go (Un_Found a len) s =
     map_option (\<lambda>s. (s, Un_Input a len)) (vinput_unregister_vdevice s a)"
| "vthread kstrtol Go (Un_Input a len) s = map_option (\<lambda>s. (s, Out (int len))) (vinput_release_dev s a)"
| "vthread kstrtol act pl s = Some (s, pl)"

text \<open>A thread that runs alone.\<close>

fun vrun :: "(string \<Rightarrow> int + int) \<Rightarrow> vaction list \<Rightarrow> vplace \<times> vstate \<Rightarrow> (vplace \<times> vstate) option" where
  "vrun kstrtol [] ps = Some ps"
| "vrun kstrtol (act # acts) (pl, s) =
     Option.bind (vthread kstrtol act pl s) (\<lambda>(s, pl). vrun kstrtol acts (pl, s))"

definition export_actions :: "export_env \<Rightarrow> string \<Rightarrow> nat \<Rightarrow> vaction list" where
  "export_actions e buf len =
     [Do_Export buf len, Go_Alloc (kzalloc_ret e), Go_Input (input_alloc_ok e), Go, Go_Ret (device_register_ret e),
      Go_Ret (input_register_ret e)]"

lemma export_alone:
  "vrun kstrtol (export_actions e buf len) (Out r, s) =
    map_option (\<lambda>(s, ret). (Out ret, s)) (export_store e s buf len)"
  by (auto simp: export_actions_def export_store_def vinput_alloc_vdevice_def Let_def map_option_case
      split: err_ptr.splits option.splits)

lemma unexport_alone:
  "vrun kstrtol [Do_Unexport buf len, Go, Go] (Out r, s) =
    map_option (\<lambda>(s, ret). (Out ret, s)) (unexport_store kstrtol s buf len)"
  by (auto simp: unexport_store_def split: sum.splits err_ptr.splits option.splits Option.bind_splits)

subsection \<open>Threads that export\<close>

record vsys =
  vs_reg :: vstate
  vs_at :: "nat \<Rightarrow> vplace"

definition vs_set :: "vsys \<Rightarrow> nat \<Rightarrow> vstate \<Rightarrow> vplace \<Rightarrow> vsys" where
  "vs_set S p s pl = S\<lparr>vs_reg := s, vs_at := (vs_at S)(p := pl)\<rparr>"

lemma vs_set_sel [simp]:
  "vs_reg (vs_set S p s pl) = s" "vs_at (vs_set S p s pl) = (vs_at S)(p := pl)"
  by (simp_all add: vs_set_def)

text \<open>The actions of exporting threads; memory that is allocated is not in use.\<close>

fun export_action :: "vstate \<Rightarrow> vaction \<Rightarrow> bool" where
  "export_action s (Do_Unexport buf len) \<longleftrightarrow> False"
| "export_action s (Go_Alloc (Some a)) \<longleftrightarrow> v_heap s a = None"
| "export_action s act \<longleftrightarrow> True"

inductive export_turn :: "vsys \<Rightarrow> vsys \<Rightarrow> bool" where
  turn: "export_action (vs_reg S) act \<Longrightarrow> vthread kstrtol act (vs_at S p) (vs_reg S) = Some (s', pl') \<Longrightarrow>
    export_turn S (vs_set S p s' pl')"

text \<open>The object a thread is making, and what it knows of it.\<close>

fun makes :: "vplace \<Rightarrow> nat option" where
  "makes (Ex_Listed a d len) = Some a"
| "makes (Ex_Input a d len) = Some a"
| "makes (Ex_Typed a d len) = Some a"
| "makes (Ex_Device a d len) = Some a"
| "makes _ = None"

definition raw_input :: "vinput \<Rightarrow> bool" where
  "raw_input v \<longleftrightarrow> (\<exists>inp. v_input v = Some inp \<and> i_status inp = Input_Allocated)"

fun place_ok :: "vstate \<Rightarrow> vplace \<Rightarrow> bool" where
  "place_ok s (Out r) \<longleftrightarrow> True"
| "place_ok s (Ex_Driver d len) \<longleftrightarrow> d \<in> set (vinput_devices s)"
| "place_ok s (Ex_Listed a d len) \<longleftrightarrow> d \<in> set (vinput_devices s) \<and> v_heap s a \<noteq> None"
| "place_ok s (Ex_Input a d len) \<longleftrightarrow> d \<in> set (vinput_devices s) \<and> (\<exists>v. v_heap s a = Some v \<and> raw_input v)"
| "place_ok s (Ex_Typed a d len) \<longleftrightarrow>
     d \<in> set (vinput_devices s) \<and> (\<exists>v. v_heap s a = Some v \<and> raw_input v \<and> v_type v = Some d)"
| "place_ok s (Ex_Device a d len) \<longleftrightarrow>
     d \<in> set (vinput_devices s) \<and> (\<exists>v. v_heap s a = Some v \<and> raw_input v \<and> v_type v = Some d)"
| "place_ok s (Un_Found a len) \<longleftrightarrow> False"
| "place_ok s (Un_Input a len) \<longleftrightarrow> False"

text \<open>What holds of the lists and the bitmap at every moment.\<close>

definition lists_ok :: "vstate \<Rightarrow> bool" where
  "lists_ok s \<longleftrightarrow> length (vinput_ids s) = VINPUT_MINORS \<and> distinct (vinput_vdevices s) \<and>
     set (vinput_vdevices s) = dom (v_heap s) \<and> drivers_ok s \<and>
     (\<forall>a v. v_heap s a = Some v \<longrightarrow> v_id v < VINPUT_MINORS \<and> vinput_ids s ! v_id v) \<and>
     (\<forall>a b v w. v_heap s a = Some v \<longrightarrow> v_heap s b = Some w \<longrightarrow> v_id v = v_id w \<longrightarrow> a = b)"

text \<open>Every object is being made by one thread, or finished.\<close>

definition threads_inv :: "vsys \<Rightarrow> bool" where
  "threads_inv S \<longleftrightarrow> lists_ok (vs_reg S) \<and> (\<forall>p. place_ok (vs_reg S) (vs_at S p)) \<and>
     (\<forall>p q a. makes (vs_at S p) = Some a \<longrightarrow> makes (vs_at S q) = Some a \<longrightarrow> p = q) \<and>
     (\<forall>a v. v_heap (vs_reg S) a = Some v \<longrightarrow> (\<exists>p. makes (vs_at S p) = Some a) \<or> vdev_ok (vs_reg S) v)"

lemma threads_quiet:
  assumes "threads_inv S" and "\<And>p. makes (vs_at S p) = None"
  shows "vinv (vs_reg S)"
  using assms unfolding threads_inv_def lists_ok_def vinv_def by simp

lemma place_ok_made: "place_ok s pl \<Longrightarrow> makes pl = Some a \<Longrightarrow> v_heap s a \<noteq> None"
  by (cases pl) auto

lemma place_ok_cong:
  assumes "place_ok s pl" and "vinput_devices s' = vinput_devices s"
    and "\<And>b. makes pl = Some b \<Longrightarrow> v_heap s' b = v_heap s b"
  shows "place_ok s' pl"
  using assms by (cases pl) auto

text \<open>A thread that changes nothing but the object it makes, and the lists, keeps the invariant.\<close>

lemma threads_inv_set:
  assumes I: "threads_inv S" and "lists_ok s'" and "vinput_devices s' = vinput_devices (vs_reg S)"
    and frame: "\<And>b. b \<noteq> a \<Longrightarrow> v_heap s' b = v_heap (vs_reg S) b"
    and mine: "\<And>q. q \<noteq> p \<Longrightarrow> makes (vs_at S q) \<noteq> Some a"
    and old: "makes (vs_at S p) = None \<or> makes (vs_at S p) = Some a" and new: "makes pl' = None \<or> makes pl' = Some a"
    and "place_ok s' pl'"
    and fin: "\<And>v. makes pl' = None \<Longrightarrow> v_heap s' a = Some v \<Longrightarrow> vdev_ok s' v"
  shows "threads_inv (vs_set S p s' pl')"
proof -
  have "place_ok s' (vs_at S q)" if "q \<noteq> p" for q
  proof (rule place_ok_cong)
    show "place_ok (vs_reg S) (vs_at S q)" using I by (simp add: threads_inv_def)
    show "v_heap s' b = v_heap (vs_reg S) b" if "makes (vs_at S q) = Some b" for b
      using that mine [OF \<open>q \<noteq> p\<close>] frame by metis
  qed fact
  then have "place_ok s' (((vs_at S)(p := pl')) q)" for q using assms(8) by simp
  moreover have "(\<exists>q. makes (((vs_at S)(p := pl')) q) = Some b) \<or> vdev_ok s' v" if v: "v_heap s' b = Some v" for b v
  proof (cases "b = a")
    case True
    show ?thesis
    proof (cases "makes pl' = None")
      case True
      with fin v \<open>b = a\<close> show ?thesis by simp
    next
      case False
      with new \<open>b = a\<close> show ?thesis by (intro disjI1 exI [of _ p]) auto
    qed
  next
    case False
    with frame v have v0: "v_heap (vs_reg S) b = Some v" by simp
    with I consider q where "makes (vs_at S q) = Some b" | "vdev_ok (vs_reg S) v" unfolding threads_inv_def by blast
    then show ?thesis
    proof cases
      case 1
      with old False have "q \<noteq> p" by auto
      with 1 show ?thesis by (intro disjI1 exI [of _ q]) simp
    next
      case 2
      moreover have "v_id v < VINPUT_MINORS \<and> vinput_ids s' ! v_id v"
        using assms(2) v by (simp add: lists_ok_def)
      ultimately show ?thesis using assms(3) by (simp add: vdev_ok_def)
    qed
  qed
  moreover have "q = r" if "makes (((vs_at S)(p := pl')) q) = Some b" "makes (((vs_at S)(p := pl')) r) = Some b" for q r b
  proof -
    have I': "makes (vs_at S q) = Some b \<Longrightarrow> makes (vs_at S r) = Some b \<Longrightarrow> q = r"
      using I unfolding threads_inv_def by blast
    show ?thesis using that new mine I' by (cases "q = p"; cases "r = p") auto
  qed
  ultimately show ?thesis
    using assms(2) unfolding threads_inv_def vs_set_sel by blast
qed

subsection \<open>The lists and the bitmap\<close>

lemma lists_okI:
  assumes "length (vinput_ids s) = VINPUT_MINORS" and "distinct (vinput_vdevices s)"
    and "set (vinput_vdevices s) = dom (v_heap s)" and "drivers_ok s"
    and "\<And>a v. v_heap s a = Some v \<Longrightarrow> v_id v < VINPUT_MINORS \<and> vinput_ids s ! v_id v"
    and "\<And>a b v w. v_heap s a = Some v \<Longrightarrow> v_heap s b = Some w \<Longrightarrow> v_id v = v_id w \<Longrightarrow> a = b"
  shows "lists_ok s"
  using assms unfolding lists_ok_def by blast

lemma lists_okD:
  assumes "lists_ok s"
  shows "length (vinput_ids s) = VINPUT_MINORS" and "distinct (vinput_vdevices s)"
    and "set (vinput_vdevices s) = dom (v_heap s)" and "drivers_ok s"
    and "v_heap s a = Some v \<Longrightarrow> v_id v < VINPUT_MINORS \<and> vinput_ids s ! v_id v"
    and "v_heap s a = Some v \<Longrightarrow> v_heap s b = Some w \<Longrightarrow> v_id v = v_id w \<Longrightarrow> a = b"
  using assms unfolding lists_ok_def by blast+

lemma listed: "lists_ok s \<Longrightarrow> v_heap s a = Some v \<Longrightarrow> a \<in> set (vinput_vdevices s)"
  using lists_okD(3) by blast

lemma drivers_ok_cong:
  "drivers_ok s \<Longrightarrow> vinput_devices s' = vinput_devices s \<Longrightarrow> v_drivers s' = v_drivers s \<Longrightarrow> drivers_ok s'"
  by (simp add: drivers_ok_def)

lemma lists_update:
  assumes "lists_ok s" and "v_heap s a = Some v" and "v_id v' = v_id v"
  shows "lists_ok (s\<lparr>v_heap := (v_heap s)(a \<mapsto> v')\<rparr>)" (is "lists_ok ?s")
proof (rule lists_okI)
  have old: "\<exists>x'. v_heap s b = Some x' \<and> v_id x' = v_id x" if "v_heap ?s b = Some x" for b x
    using that assms(2,3) by (cases "b = a") simp_all
  show "b = c" if "v_heap ?s b = Some x" "v_heap ?s c = Some y" "v_id x = v_id y" for b c x y
    using old [OF that(1)] old [OF that(2)] that(3) lists_okD(6) [OF assms(1)] by metis
  show "v_id x < VINPUT_MINORS \<and> vinput_ids ?s ! v_id x" if "v_heap ?s b = Some x" for b x
    using old [OF that] lists_okD(5) [OF assms(1)] by fastforce
  show "drivers_ok ?s" using lists_okD(4) [OF assms(1)] by (rule drivers_ok_cong) simp_all
  show "set (vinput_vdevices ?s) = dom (v_heap ?s)"
    using lists_okD(3) [OF assms(1)] assms(2) by (simp add: insert_absorb domI)
qed (use lists_okD [OF assms(1)] in simp_all)

lemma lists_alloc:
  assumes "lists_ok s" and "v_heap s a = None" and "v_id v = find_first_zero_bit (vinput_ids s)"
    and "v_id v < VINPUT_MINORS"
  shows "lists_ok (s\<lparr>vinput_ids := (vinput_ids s)[v_id v := True], vinput_vdevices := a # vinput_vdevices s,
    v_heap := (v_heap s)(a \<mapsto> v)\<rparr>)" (is "lists_ok ?s")
proof (rule lists_okI)
  note D = lists_okD [OF assms(1)]
  have len: "v_id v < length (vinput_ids s)" using D(1) assms(4) by simp
  then have bit: "\<not> vinput_ids s ! v_id v" using ffz_free [of "vinput_ids s"] assms(3) by simp
  have old: "v_id x \<noteq> v_id v" if "v_heap s b = Some x" for b x using D(5) [OF that] bit by metis
  show "b = c" if "v_heap ?s b = Some x" "v_heap ?s c = Some y" "v_id x = v_id y" for b c x y
    using that old [of b x] old [of c y] D(6) [of b x c y] by (cases "b = a"; cases "c = a") auto
  show "v_id x < VINPUT_MINORS \<and> vinput_ids ?s ! v_id x" if "v_heap ?s b = Some x" for b x
    using that assms(4) D(5) [of b x] len by (cases "b = a") (auto simp: set_bit_mono)
  show "drivers_ok ?s" using D(4) by (rule drivers_ok_cong) simp_all
  have "a \<notin> dom (v_heap s)" using assms(2) by auto
  then show "distinct (vinput_vdevices ?s)" "set (vinput_vdevices ?s) = dom (v_heap ?s)" using D(2,3) by simp_all
  show "length (vinput_ids ?s) = VINPUT_MINORS" using D(1) by simp
qed

lemma lists_remove:
  assumes "lists_ok s" and "v_heap s a = Some v"
  shows "lists_ok (s\<lparr>vinput_vdevices := remove1 a (vinput_vdevices s), v_heap := (v_heap s)(a := None)\<rparr>)" (is "lists_ok ?s")
    and "lists_ok (gone s a v)" (is "lists_ok ?t")
proof -
  note D = lists_okD [OF assms(1)]
  have heap: "v_heap s b = Some x" "v_id v \<noteq> v_id x" if "((v_heap s)(a := None)) b = Some x" for b x
    using that D(6) [OF assms(2), of b x] by (auto split: if_splits)
  have inj: "b = c" if "((v_heap s)(a := None)) b = Some x" "((v_heap s)(a := None)) c = Some y" "v_id x = v_id y" for b c x y
    using D(6) [OF heap(1) [OF that(1)] heap(1) [OF that(2)] that(3)] .
  have lists: "distinct (remove1 a (vinput_vdevices s))"
    "set (remove1 a (vinput_vdevices s)) = dom ((v_heap s)(a := None))" using D(2,3) by auto
  show "lists_ok ?s"
  proof (rule lists_okI)
    show "drivers_ok ?s" using D(4) by (rule drivers_ok_cong) simp_all
    show "v_id x < VINPUT_MINORS \<and> vinput_ids ?s ! v_id x" if "v_heap ?s b = Some x" for b x
      using D(5) [OF heap(1)] that by simp
    show "b = c" if "v_heap ?s b = Some x" "v_heap ?s c = Some y" "v_id x = v_id y" for b c x y
      using that by (intro inj [of b x c y]) simp_all
  qed (use lists D(1) in simp_all)
  show "lists_ok ?t"
  proof (rule lists_okI)
    show "drivers_ok ?t" using D(4) by (rule drivers_ok_cong) (simp_all add: gone_def)
    show "v_id x < VINPUT_MINORS \<and> vinput_ids ?t ! v_id x" if "v_heap ?t b = Some x" for b x
      using D(5) [OF heap(1)] heap(2) that by (simp add: gone_def)
    show "b = c" if "v_heap ?t b = Some x" "v_heap ?t c = Some y" "v_id x = v_id y" for b c x y
      using that by (intro inj [of b x c y]) (simp_all add: gone_def)
  qed (use lists D(1) in \<open>simp_all add: gone_def\<close>)
qed

subsection \<open>The steps of an exporting thread\<close>

definition turn_ok :: "(string \<Rightarrow> int + int) \<Rightarrow> vaction \<Rightarrow> vsys \<Rightarrow> nat \<Rightarrow> bool" where
  "turn_ok kstrtol act S p \<longleftrightarrow> (\<exists>s' pl'. vthread kstrtol act (vs_at S p) (vs_reg S) = Some (s', pl') \<and>
     threads_inv (vs_set S p s' pl'))"

lemma turn_okI:
  "vthread kstrtol act (vs_at S p) (vs_reg S) = Some (s', pl') \<Longrightarrow> threads_inv (vs_set S p s' pl') \<Longrightarrow>
    turn_ok kstrtol act S p"
  unfolding turn_ok_def by blast

text \<open>A step that only moves the thread.\<close>

lemma threads_inv_move:
  assumes "threads_inv S" and "makes pl' = makes (vs_at S p)" and "place_ok (vs_reg S) pl'"
  shows "threads_inv (vs_set S p (vs_reg S) pl')"
proof -
  have makes: "makes (((vs_at S)(p := pl')) q) = makes (vs_at S q)" for q using assms(2) by simp
  have "place_ok (vs_reg S) (((vs_at S)(p := pl')) q)" for q
    using assms(1,3) by (simp add: threads_inv_def)
  with assms(1) show ?thesis unfolding threads_inv_def vs_set_sel makes by blast
qed

lemma vs_set_same [simp]: "vs_set S p (vs_reg S) (vs_at S p) = S"
  by (simp add: vs_set_def)

lemma others_make:
  "threads_inv S \<Longrightarrow> makes (vs_at S p) = Some a \<Longrightarrow> q \<noteq> p \<Longrightarrow> makes (vs_at S q) \<noteq> Some a"
  unfolding threads_inv_def by blast

lemma others_make_fresh:
  "threads_inv S \<Longrightarrow> v_heap (vs_reg S) a = None \<Longrightarrow> makes (vs_at S q) \<noteq> Some a"
  unfolding threads_inv_def using place_ok_made by blast

lemma turn_alloc:
  assumes I: "threads_inv S" and p: "vs_at S p = Ex_Driver d len" and "v_heap (vs_reg S) a = None"
  shows "turn_ok kstrtol (Go_Alloc (Some a)) S p"
proof -
  let ?s = "vs_reg S" and ?i = "find_first_zero_bit (vinput_ids (vs_reg S))"
  let ?v = "\<lparr>v_id = ?i, v_last_entry = 0, v_input = None, v_type = None\<rparr>"
  let ?s' = "?s\<lparr>vinput_ids := (vinput_ids ?s)[?i := True], vinput_vdevices := a # vinput_vdevices ?s,
    v_heap := (v_heap ?s)(a \<mapsto> ?v)\<rparr>"
  have d: "place_ok ?s (Ex_Driver d len)" and L: "lists_ok ?s" using I p unfolding threads_inv_def by metis+
  show ?thesis
  proof (cases "?i \<ge> VINPUT_MINORS")
    case True
    with p have "vthread kstrtol (Go_Alloc (Some a)) (vs_at S p) ?s = Some (?s, Out (- ENOBUFS))" by simp
    moreover have "threads_inv (vs_set S p ?s (Out (- ENOBUFS)))" using I p by (intro threads_inv_move) simp_all
    ultimately show ?thesis by (rule turn_okI)
  next
    case False
    with p have "vthread kstrtol (Go_Alloc (Some a)) (vs_at S p) ?s = Some (?s', Ex_Listed a d len)"
      by (simp add: Let_def)
    moreover have "lists_ok ?s'" using lists_alloc [OF L assms(3), of ?v] False by simp
    then have "threads_inv (vs_set S p ?s' (Ex_Listed a d len))"
      using d p others_make_fresh [OF I assms(3)] by (intro threads_inv_set [OF I]) simp_all
    ultimately show ?thesis by (rule turn_okI)
  qed
qed

text \<open>A thread that gives its object up, or changes it.\<close>

lemma threads_inv_drop:
  assumes I: "threads_inv S" and p: "makes (vs_at S p) = Some a" and "lists_ok s'"
    and "vinput_devices s' = vinput_devices (vs_reg S)" and "v_heap s' = (v_heap (vs_reg S))(a := None)"
  shows "threads_inv (vs_set S p s' (Out r))"
  using assms others_make [OF I p] by (intro threads_inv_set [OF I, of _ a]) simp_all

lemma threads_inv_change:
  assumes I: "threads_inv S" and p: "makes (vs_at S p) = Some a" and v: "v_heap (vs_reg S) a = Some v"
    and "v_id v' = v_id v" and "s' = (vs_reg S)\<lparr>v_heap := (v_heap (vs_reg S))(a \<mapsto> v')\<rparr>"
    and "makes pl' = None \<or> makes pl' = Some a" and "place_ok s' pl'" and "makes pl' = None \<Longrightarrow> vdev_ok s' v'"
  shows "threads_inv (vs_set S p s' pl')"
proof -
  have "lists_ok s'" using lists_update [OF _ v assms(4)] I assms(5) by (simp add: threads_inv_def)
  then show ?thesis
    using assms(5-8) p others_make [OF I p] by (intro threads_inv_set [OF I, of _ a]) simp_all
qed

lemma turn_input:
  assumes I: "threads_inv S" and p: "vs_at S p = Ex_Listed a d len"
  shows "turn_ok kstrtol (Go_Input ok) S p"
proof -
  let ?s = "vs_reg S"
  have d: "place_ok ?s (Ex_Listed a d len)" and L: "lists_ok ?s" using I p unfolding threads_inv_def by metis+
  then obtain v where v: "v_heap ?s a = Some v" by auto
  have m: "makes (vs_at S p) = Some a" using p by simp
  show ?thesis
  proof (cases ok)
    case True
    let ?s' = "?s\<lparr>v_heap := (v_heap ?s)(a \<mapsto> v\<lparr>v_input := Some new_input_dev\<rparr>)\<rparr>"
    have "vthread kstrtol (Go_Input ok) (vs_at S p) ?s = Some (?s', Ex_Input a d len)" using True p v by simp
    moreover have "threads_inv (vs_set S p ?s' (Ex_Input a d len))"
      using d by (intro threads_inv_change [OF I m v]) (simp_all add: raw_input_def new_input_dev_def)
    ultimately show ?thesis by (rule turn_okI)
  next
    case False
    let ?s' = "?s\<lparr>vinput_vdevices := remove1 a (vinput_vdevices ?s), v_heap := (v_heap ?s)(a := None)\<rparr>"
    have "vthread kstrtol (Go_Input ok) (vs_at S p) ?s = Some (?s', Out (- ENOMEM))" using False p v by simp
    moreover have "threads_inv (vs_set S p ?s' (Out (- ENOMEM)))"
      using lists_remove(1) [OF L v] by (intro threads_inv_drop [OF I m]) simp_all
    ultimately show ?thesis by (rule turn_okI)
  qed
qed

lemma turn_type:
  assumes I: "threads_inv S" and p: "vs_at S p = Ex_Input a d len"
  shows "turn_ok kstrtol Go S p"
proof -
  let ?s = "vs_reg S"
  have d: "place_ok ?s (Ex_Input a d len)" using I p unfolding threads_inv_def by metis
  then obtain v where v: "v_heap ?s a = Some v" "raw_input v" by auto
  let ?s' = "?s\<lparr>v_heap := (v_heap ?s)(a \<mapsto> v\<lparr>v_type := Some d\<rparr>)\<rparr>"
  have "vthread kstrtol Go (vs_at S p) ?s = Some (?s', Ex_Typed a d len)" using p v by simp
  moreover have "threads_inv (vs_set S p ?s' (Ex_Typed a d len))"
    using d v(2) p by (intro threads_inv_change [OF I _ v(1)]) (simp_all add: raw_input_def)
  ultimately show ?thesis by (rule turn_okI)
qed

text \<open>Freeing the input device of an object and then the object.\<close>

lemma free_destroy:
  assumes "v_heap s a = Some v" and "raw_input v" and "a \<in> set (vinput_vdevices s)"
  shows "Option.bind (input_free_device s a) (\<lambda>s. vinput_destroy_vdevice s a) = Some (gone s a v)"
    and "Option.bind (input_free_device s a) (\<lambda>s. vinput_release_dev s a) = Some (gone s a v)"
  using assms
  by (auto simp: input_free_device_def vinput_destroy_vdevice_def vinput_release_dev_def gone_def raw_input_def)

lemma gone_sel:
  "vinput_devices (gone s a v) = vinput_devices s" "v_heap (gone s a v) = (v_heap s)(a := None)"
  by (simp_all add: gone_def)

lemma turn_device:
  assumes I: "threads_inv S" and p: "vs_at S p = Ex_Typed a d len"
  shows "turn_ok kstrtol (Go_Ret err) S p"
proof -
  let ?s = "vs_reg S"
  have d: "place_ok ?s (Ex_Typed a d len)" and L: "lists_ok ?s" using I p unfolding threads_inv_def by metis+
  then obtain v where v: "v_heap ?s a = Some v" "raw_input v" by auto
  show ?thesis
  proof (cases "err < 0")
    case True
    with p free_destroy(1) [OF v listed [OF L v(1)]] have "vthread kstrtol (Go_Ret err) (vs_at S p) ?s = Some (gone ?s a v, Out err)"
      by simp
    moreover have "threads_inv (vs_set S p (gone ?s a v) (Out err))"
      using lists_remove(2) [OF L v(1)] p by (intro threads_inv_drop [OF I]) (simp_all add: gone_sel)
    ultimately show ?thesis by (rule turn_okI)
  next
    case False
    with p have "vthread kstrtol (Go_Ret err) (vs_at S p) ?s = Some (?s, Ex_Device a d len)" by simp
    moreover have "threads_inv (vs_set S p ?s (Ex_Device a d len))"
      using d p by (intro threads_inv_move [OF I]) simp_all
    ultimately show ?thesis by (rule turn_okI)
  qed
qed

lemma turn_register:
  assumes I: "threads_inv S" and p: "vs_at S p = Ex_Device a d len"
  shows "turn_ok kstrtol (Go_Ret r) S p"
proof -
  let ?s = "vs_reg S"
  have P: "place_ok ?s (Ex_Device a d len)" and L: "lists_ok ?s" using I p unfolding threads_inv_def by metis+
  then obtain v inp where v: "v_heap ?s a = Some v" "v_input v = Some inp" "i_status inp = Input_Allocated"
    "v_type v = Some d" and d: "d \<in> set (vinput_devices ?s)" by (auto simp: raw_input_def)
  from d lists_okD(4) [OF L] obtain dev where dev: "v_drivers ?s d = Some dev" "vinput_driver (vd_ops dev)"
    unfolding drivers_ok_def by blast
  let ?v = "v\<lparr>v_input := Some (inp\<lparr>i_name := vd_name dev\<rparr>)\<rparr>"
  have "v_input ?v = Some (inp\<lparr>i_name := vd_name dev\<rparr>)" "i_status (inp\<lparr>i_name := vd_name dev\<rparr>) = Input_Allocated"
    using v(3) by simp_all
  from vinput_driver.init_ok [OF dev(2) this, of r] obtain v' e inp' where
    init: "op_init (vd_ops dev) ?v r = Some (v', e)" and v': "v_id v' = v_id v" "v_type v' = Some d"
      "v_input v' = Some inp'" "i_status inp' = (if e < 0 then Input_Allocated else Input_Registered)"
    using v(4) by auto
  let ?t = "?s\<lparr>v_heap := (v_heap ?s)(a \<mapsto> v')\<rparr>"
  have reg: "vinput_register_vdevice ?s a r = Some (?t, e)"
    using v dev(1) init by (simp add: vinput_register_vdevice_def)
  have Lt: "lists_ok ?t" using lists_update [OF L v(1) v'(1)] .
  have m: "makes (vs_at S p) = Some a" using p by simp
  show ?thesis
  proof (cases "e < 0")
    case True
    have at: "v_heap ?t a = Some v'" by simp
    have "raw_input v'" using True v' by (simp add: raw_input_def)
    from free_destroy(2) [OF at this listed [OF Lt at]] True reg p
    have "vthread kstrtol (Go_Ret r) (vs_at S p) ?s = Some (gone ?t a v', Out e)" by simp
    moreover have "threads_inv (vs_set S p (gone ?t a v') (Out e))"
      using lists_remove(2) [OF Lt at] by (intro threads_inv_drop [OF I m]) (simp_all add: gone_sel)
    ultimately show ?thesis by (rule turn_okI)
  next
    case False
    with reg p have "vthread kstrtol (Go_Ret r) (vs_at S p) ?s = Some (?t, Out (int len))" by simp
    moreover have "v_id v' < VINPUT_MINORS \<and> vinput_ids ?t ! v_id v'" using lists_okD(5) [OF Lt, of a v'] by simp
    then have "vdev_ok ?t v'" using v' d False by (simp add: vdev_ok_def)
    then have "threads_inv (vs_set S p ?t (Out (int len)))"
      using v'(1) by (intro threads_inv_change [OF I m v(1)]) simp_all
    ultimately show ?thesis by (rule turn_okI)
  qed
qed

lemma turn_move:
  assumes "threads_inv S" and "vthread kstrtol act (vs_at S p) (vs_reg S) = Some (vs_reg S, pl')"
    and "makes pl' = makes (vs_at S p)" and "place_ok (vs_reg S) pl'"
  shows "turn_ok kstrtol act S p"
  by (rule turn_okI [OF assms(2) threads_inv_move [OF assms(1,3,4)]])

lemma turn_lookup:
  assumes I: "threads_inv S" and p: "vs_at S p = Out r"
  shows "turn_ok kstrtol (Do_Export buf len) S p"
proof -
  have "drivers_ok (vs_reg S)" using I by (simp add: threads_inv_def lists_ok_def)
  then have "set (vinput_devices (vs_reg S)) \<subseteq> dom (v_drivers (vs_reg S))" by (auto simp: drivers_ok_def)
  from find_device_total [OF this, of buf]
  consider "find_device (v_drivers (vs_reg S)) buf (vinput_devices (vs_reg S)) = Some None"
    | d where "find_device (v_drivers (vs_reg S)) buf (vinput_devices (vs_reg S)) = Some (Some d)"
    by (metis option.exhaust)
  then show ?thesis
  proof cases
    case 1
    with p show ?thesis
      by (intro turn_move [OF I, where pl' = "Out (- ENODEV)"]) (simp_all add: vinput_get_device_by_type_def)
  next
    case (2 d)
    with find_device_sound [OF 2] p show ?thesis
      by (intro turn_move [OF I, where pl' = "Ex_Driver d len"]) (simp_all add: vinput_get_device_by_type_def)
  qed
qed

text \<open>Whatever an exporting thread is asked to do is well defined, and keeps the invariant.\<close>

lemma turn_any:
  assumes I: "threads_inv S" and "export_action (vs_reg S) act"
  shows "turn_ok kstrtol act S p"
proof -
  have ok: "place_ok (vs_reg S) (vs_at S p)" using I unfolding threads_inv_def by blast
  have same: "turn_ok kstrtol act S p" if "vthread kstrtol act (vs_at S p) (vs_reg S) = Some (vs_reg S, vs_at S p)"
    using turn_move [OF I that refl ok] .
  show ?thesis
  proof (cases act)
    case (Do_Export buf len)
    with same turn_lookup [OF I] show ?thesis by (cases "vs_at S p") simp_all
  next
    case (Do_Unexport buf len)
    with assms(2) show ?thesis by simp
  next
    case (Go_Alloc mem)
    show ?thesis
    proof (cases "vs_at S p")
      case (Ex_Driver d len)
      show ?thesis
      proof (cases mem)
        case None
        with Go_Alloc Ex_Driver show ?thesis
          by (intro turn_move [OF I, where pl' = "Out (- ENOMEM)"]) simp_all
      next
        case (Some a)
        with Go_Alloc assms(2) turn_alloc [OF I Ex_Driver, of a] show ?thesis by simp
      qed
    qed (use Go_Alloc same in simp_all)
  next
    case (Go_Input ok)
    with same turn_input [OF I] show ?thesis by (cases "vs_at S p") simp_all
  next
    case (Go_Ret r)
    with same turn_device [OF I] turn_register [OF I] show ?thesis by (cases "vs_at S p") simp_all
  next
    case Go
    with same turn_type [OF I] ok show ?thesis by (cases "vs_at S p") simp_all
  qed
qed

definition vs_start :: "vstate \<Rightarrow> vsys" where
  "vs_start s = \<lparr>vs_reg = s, vs_at = (\<lambda>p. Out 0)\<rparr>"

lemma threads_inv_start: "vinv s \<Longrightarrow> threads_inv (vs_start s)"
  unfolding threads_inv_def vinv_def lists_ok_def vs_start_def by (simp add: vdev_ok_def)

lemma export_turn_inv: "export_turn S T \<Longrightarrow> threads_inv S \<Longrightarrow> threads_inv T"
proof (induction rule: export_turn.induct)
  case (turn S act kstrtol p s' pl')
  from turn_any [OF turn.prems turn.hyps(1), of kstrtol p] turn.hyps(2) show ?case
    by (auto simp: turn_ok_def)
qed

interpretation exporting: invariant_system export_turn "vs_start (vinput_start Map.empty)" threads_inv
  by unfold_locales (auto intro: threads_inv_start vinv_start export_turn_inv)

lemma exporting_inv: "vinv s \<Longrightarrow> reachable export_turn (vs_start s) S \<Longrightarrow> threads_inv S"
  using exporting.reachable_from_inv threads_inv_start by blast

text \<open>
  C3: any number of processes may write to \<open>export\<close> at once. However their steps interleave and whatever
  the kernel answers, the next step of every one of them follows no dangling pointer and does not misuse
  the input subsystem; the objects have different ids, each marked in the bitmap; and once no process is
  inside, every device is complete, as after exports that ran one after the other.
\<close>

theorem vinput_exports_concurrent:
  assumes "vinput_reach kstrtol drivers s" and "reachable export_turn (vs_start s) S"
  shows "(\<forall>act p kstrtol. export_action (vs_reg S) act \<longrightarrow> vthread kstrtol act (vs_at S p) (vs_reg S) \<noteq> None) \<and>
    (\<forall>a b v w. v_heap (vs_reg S) a = Some v \<longrightarrow> v_heap (vs_reg S) b = Some w \<longrightarrow> v_id v = v_id w \<longrightarrow> a = b) \<and>
    (\<forall>a v. v_heap (vs_reg S) a = Some v \<longrightarrow> v_id v < VINPUT_MINORS \<and> vinput_ids (vs_reg S) ! v_id v) \<and>
    ((\<forall>p. \<exists>r. vs_at S p = Out r) \<longrightarrow> vinv (vs_reg S))"
proof -
  have I: "threads_inv S" using exporting_inv [OF vinput_reach_inv [OF assms(1)] assms(2)] .
  then have L: "lists_ok (vs_reg S)" unfolding threads_inv_def by blast
  have "vinv (vs_reg S)" if "\<forall>p. \<exists>r. vs_at S p = Out r"
  proof (rule threads_quiet [OF I])
    fix p
    from that obtain r where "vs_at S p = Out r" by blast
    then show "makes (vs_at S p) = None" by simp
  qed
  moreover have "vthread kstrtol act (vs_at S p) (vs_reg S) \<noteq> None" if "export_action (vs_reg S) act" for act p kstrtol
    using turn_any [OF I that, of kstrtol p] by (auto simp: turn_ok_def)
  ultimately show ?thesis using lists_okD(5,6) [OF L] by blast
qed

text \<open>Two processes are making a keyboard each.\<close>

definition demo_alloc :: "nat \<Rightarrow> nat \<Rightarrow> vstate \<Rightarrow> vstate" where
  "demo_alloc a i s = s\<lparr>vinput_ids := (vinput_ids s)[i := True], vinput_vdevices := a # vinput_vdevices s,
     v_heap := (v_heap s)(a \<mapsto> \<lparr>v_id = i, v_last_entry = 0, v_input = None, v_type = None\<rparr>)\<rparr>"

lemma find_first_zero_bit_bits [simp]:
  "find_first_zero_bit (replicate (Suc n) False) = 0"
  "find_first_zero_bit (True # bits) = Suc (find_first_zero_bit bits)"
  "find_first_zero_bit (False # bits) = 0"
  by (simp_all add: find_first_zero_bit_def)

definition demo_threads :: vsys where
  "demo_threads = vs_set (vs_set (vs_set (vs_set (vs_start demo_registry)
     1 demo_registry (Ex_Driver 5 4)) 2 demo_registry (Ex_Driver 5 4))
     1 (demo_alloc 9 0 demo_registry) (Ex_Listed 9 5 4))
     2 (demo_alloc 8 1 (demo_alloc 9 0 demo_registry)) (Ex_Listed 8 5 4)"

lemma demo_ids: "vinput_ids demo_registry = False # False # replicate 30 False"
  by (simp add: demo_registry_eq VINPUT_MINORS_def eval_nat_numeral)

lemma demo_threads_reach: "reachable export_turn (vs_start demo_registry) demo_threads"
proof -
  let ?S0 = "vs_start demo_registry"
  let ?S1 = "vs_set ?S0 1 demo_registry (Ex_Driver 5 4)"
  let ?S2 = "vs_set ?S1 2 demo_registry (Ex_Driver 5 4)"
  let ?S3 = "vs_set ?S2 1 (demo_alloc 9 0 demo_registry) (Ex_Listed 9 5 4)"
  have look: "vinput_get_device_by_type demo_registry ''vkbd'' = Some (Ptr 5)" using demo_lookup [of "[]"] by simp
  have "export_turn ?S0 ?S1"
    by (rule export_turn.turn [where act = "Do_Export ''vkbd'' 4"]) (simp_all add: vs_start_def look)
  moreover have "export_turn ?S1 ?S2"
    by (rule export_turn.turn [where act = "Do_Export ''vkbd'' 4"]) (simp_all add: vs_start_def look)
  moreover have "export_turn ?S2 ?S3"
    by (rule export_turn.turn [where act = "Go_Alloc (Some 9)"])
      (simp_all add: demo_ids demo_alloc_def VINPUT_MINORS_def, simp_all add: demo_registry_eq)
  moreover have "export_turn ?S3 demo_threads" unfolding demo_threads_def
    by (rule export_turn.turn [where act = "Go_Alloc (Some 8)"])
      (simp_all add: demo_ids demo_alloc_def VINPUT_MINORS_def, simp_all add: demo_registry_eq)
  ultimately have "step_path export_turn ?S0 [?S1, ?S2, ?S3, demo_threads]" unfolding step_path.simps by blast
  from reachable_path [OF this] show ?thesis unfolding last.simps by simp
qed

theorem vinput_exports_concurrent_witness:
  "vthread kstrtol_dec (Go_Input True) (Ex_Listed 9 5 4) (vs_reg demo_threads) \<noteq> None"
proof -
  have "vthread kstrtol_dec (Go_Input True) (vs_at demo_threads 1) (vs_reg demo_threads) \<noteq> None"
    using vinput_exports_concurrent [OF demo_registry_reach demo_threads_reach, THEN conjunct1, rule_format,
        of "Go_Input True"] by simp
  then show ?thesis by (simp only: demo_threads_def vs_set_sel fun_upd_same fun_upd_other) simp
qed

subsection \<open>Unexports that race\<close>

lemma unexport_twice:
  assumes I: "vinv s" and v: "v_heap s a = Some v" and "kstrtol buf = Inr (int (v_id v))"
  shows "vthread kstrtol (Do_Unexport buf len) (Out r) s = Some (s, Un_Found a len)"
    and "\<exists>s1. vthread kstrtol Go (Un_Found a len) s = Some (s1, Un_Input a len) \<and>
      vthread kstrtol Go (Un_Input a len) s1 = Some (gone s a v, Out (int len))"
    and "vthread kstrtol Go (Un_Found a len') (gone s a v) = None"
proof -
  have "vinput_get_vdevice_by_id s (int (v_id v)) = Some (Ptr a)"
    using get_vdevice_by_id_eq(1) [OF I] v by blast
  with assms(3) show "vthread kstrtol (Do_Unexport buf len) (Out r) s = Some (s, Un_Found a len)" by simp
  from unregister_release_eq [OF I v] obtain s1 where "vinput_unregister_vdevice s a = Some s1"
    "vinput_release_dev s1 a = Some (gone s a v)" by (auto simp: bind_eq_Some_conv)
  then show "\<exists>s1. vthread kstrtol Go (Un_Found a len) s = Some (s1, Un_Input a len) \<and>
      vthread kstrtol Go (Un_Input a len) s1 = Some (gone s a v, Out (int len))" by simp
  show "vthread kstrtol Go (Un_Found a len') (gone s a v) = None"
    by (simp add: vinput_unregister_vdevice_def gone_sel)
qed

lemma unexport_half_made:
  assumes "v_heap s a = Some v" and "vinput_vdevices s = a # as" and "v_input v = None"
    and "kstrtol buf = Inr (int (v_id v))"
  shows "vthread kstrtol (Do_Unexport buf len) (Out r) s = Some (s, Un_Found a len)"
    and "vthread kstrtol Go (Un_Found a len) s = None"
  using assms by (simp_all add: vinput_get_vdevice_by_id_def vinput_unregister_vdevice_def)

text \<open>
  C37: \<open>vinput_get_vdevice_by_id\<close> gives the lock up before its caller uses what it found, and an object is
  on the list before it is complete. Two processes that write the id of one device to \<open>unexport\<close> can both
  find it; once the first is through, the second follows a dangling pointer. And an id can be unexported
  as soon as \<open>export\<close> has put the object on the list, when there is no input device to unregister.
\<close>

theorem vinput_unexport_races:
  assumes "vinput_reach kstrtol drivers s" and "kstrtol buf = Inr (int i)"
  shows "(\<forall>a v. v_heap s a = Some v \<and> v_id v = i \<longrightarrow>
      vthread kstrtol (Do_Unexport buf len) (Out r) s = Some (s, Un_Found a len) \<and>
      (\<exists>s1 s2. vthread kstrtol Go (Un_Found a len) s = Some (s1, Un_Input a len) \<and>
         vthread kstrtol Go (Un_Input a len) s1 = Some (s2, Out (int len)) \<and>
         vthread kstrtol Go (Un_Found a len) s2 = None)) \<and>
    (\<forall>a d. v_heap s a = None \<and> find_first_zero_bit (vinput_ids s) = i \<and> i < VINPUT_MINORS \<longrightarrow>
      (\<exists>s1. vthread kstrtol (Go_Alloc (Some a)) (Ex_Driver d len) s = Some (s1, Ex_Listed a d len) \<and>
         vthread kstrtol (Do_Unexport buf len) (Out r) s1 = Some (s1, Un_Found a len) \<and>
         vthread kstrtol Go (Un_Found a len) s1 = None))" (is "(\<forall>a v. ?A a v) \<and> (\<forall>a d. ?B a d)")
proof -
  have I: "vinv s" using vinput_reach_inv [OF assms(1)] .
  have "?A a v" for a v
    using unexport_twice [OF I, of a v kstrtol buf len] assms(2) by blast
  moreover have "?B a d" for a d
  proof (intro impI, elim conjE)
    assume i: "find_first_zero_bit (vinput_ids s) = i" "i < VINPUT_MINORS"
    let ?v = "\<lparr>v_id = i, v_last_entry = 0, v_input = None, v_type = None\<rparr>"
    let ?t = "s\<lparr>vinput_ids := (vinput_ids s)[i := True], vinput_vdevices := a # vinput_vdevices s,
      v_heap := (v_heap s)(a \<mapsto> ?v)\<rparr>"
    have "vthread kstrtol (Go_Alloc (Some a)) (Ex_Driver d len) s = Some (?t, Ex_Listed a d len)"
      using i by (simp add: Let_def)
    moreover have "v_heap ?t a = Some ?v" "vinput_vdevices ?t = a # vinput_vdevices s" "v_input ?v = None"
      "kstrtol buf = Inr (int (v_id ?v))" using assms(2) by simp_all
    note unexport_half_made [where s = ?t and a = a and v = ?v and as = "vinput_vdevices s" and
        kstrtol = kstrtol and buf = buf, OF this]
    ultimately show "\<exists>s1. vthread kstrtol (Go_Alloc (Some a)) (Ex_Driver d len) s = Some (s1, Ex_Listed a d len) \<and>
         vthread kstrtol (Do_Unexport buf len) (Out r) s1 = Some (s1, Un_Found a len) \<and>
         vthread kstrtol Go (Un_Found a len) s1 = None" by blast
  qed
  ultimately show ?thesis by blast
qed

text \<open>The registry with one keyboard, of id 0.\<close>

theorem vinput_unexport_races_witness:
  "\<exists>s1 s2. vthread kstrtol_dec Go (Un_Found 9 1) demo_sys = Some (s1, Un_Input 9 1) \<and>
     vthread kstrtol_dec Go (Un_Input 9 1) s1 = Some (s2, Out 1) \<and>
     vthread kstrtol_dec Go (Un_Found 9 1) s2 = None"
proof -
  have "kstrtol_dec ''0'' = Inr (int 0)"
    using kstrtol_dec_int [of "[]" 0] by (simp add: dec_int_def dec_nat.simps digit_def char_of_def bit_Suc_0_iff)
  moreover have "v_heap demo_sys 9 = Some demo_kbd" "v_id demo_kbd = 0"
    by (simp_all add: demo_sys_def added_def demo_kbd_def)
  ultimately show ?thesis
    using vinput_unexport_races [OF demo_sys_reach, of "''0''" 0 1 0] by (metis of_nat_1)
qed

end
