(* ===== verification/Vinput_Files.thy ===== *)
theory Vinput_Files
  imports Vinput_Props Vfs Transition
begin

text \<open>
  The devices of vinput.c as user space meets them: the table of file operations, the class with its two
  attributes, and any number of open files beside exports, unexports, drivers that come and go and the
  removal of vinput itself. Files keep the address of a device and hold no reference on it, so the one
  thing user space has to take care of is not to remove a device under an open file; both directions of
  this are shown.
\<close>

subsection \<open>The tables\<close>

record vinput_file_operations =
  vf_owner :: file_owner
  vf_open :: "vstate \<Rightarrow> nat \<Rightarrow> (int \<times> nat option) option"
  vf_release :: "vstate \<Rightarrow> vstate \<times> int"
  vf_read :: "vstate \<Rightarrow> nat \<Rightarrow> char list \<Rightarrow> nat \<Rightarrow> int \<Rightarrow> nat \<Rightarrow> (int \<times> int \<times> char list) option"
  vf_write :: "vstate \<Rightarrow> nat \<Rightarrow> char list \<Rightarrow> nat \<Rightarrow> (vstate \<times> int) option"

definition vinput_fops :: vinput_file_operations where
  "vinput_fops =
     \<lparr>vf_owner = THIS_MODULE, vf_open = vinput_open, vf_release = vinput_release,
      vf_read = vinput_read, vf_write = vinput_write\<rparr>"

text \<open>An attribute that can only be written (\<open>CLASS_ATTR_WO\<close>) is its name and its store function.\<close>

record class_attribute =
  ca_name :: string
  ca_store :: "(string \<Rightarrow> int + int) \<Rightarrow> export_env \<Rightarrow> vstate \<Rightarrow> string \<Rightarrow> nat \<Rightarrow> (vstate \<times> int) option"

definition class_attr_export :: class_attribute where
  "class_attr_export = \<lparr>ca_name = ''export'', ca_store = (\<lambda>_ e s buf len. export_store e s buf len)\<rparr>"

definition class_attr_unexport :: class_attribute where
  "class_attr_unexport =
     \<lparr>ca_name = ''unexport'', ca_store = (\<lambda>kstrtol _ s buf len. unexport_store kstrtol s buf len)\<rparr>"

definition vinput_class_attrs :: "class_attribute list" where
  "vinput_class_attrs = [class_attr_export, class_attr_unexport]"

record class_desc =
  cl_name :: string
  cl_groups :: "class_attribute list"

definition vinput_class :: class_desc where
  "vinput_class = \<lparr>cl_name = ''vinput'', cl_groups = vinput_class_attrs\<rparr>"

text \<open>Writing to the file of an attribute, with the kernel's answers in case it allocates.\<close>

definition class_store ::
    "(string \<Rightarrow> int + int) \<Rightarrow> class_desc \<Rightarrow> string \<Rightarrow> export_env \<Rightarrow> vstate \<Rightarrow> string \<Rightarrow> (vstate \<times> int) option" where
  "class_store kstrtol cls attr e s buf =
     (case find (\<lambda>a. ca_name a = attr) (cl_groups cls) of
        None \<Rightarrow> Some (s, - ENOENT)
      | Some a \<Rightarrow> ca_store a kstrtol e s buf (length buf))"

lemma class_store_simps [simp]:
  "class_store kstrtol vinput_class ''export'' e s buf = export_store e s buf (length buf)"
  "class_store kstrtol vinput_class ''unexport'' e s buf = unexport_store kstrtol s buf (length buf)"
  "attr \<noteq> ''export'' \<Longrightarrow> attr \<noteq> ''unexport'' \<Longrightarrow> class_store kstrtol vinput_class attr e s buf = Some (s, - ENOENT)"
  by (auto simp: class_store_def vinput_class_def vinput_class_attrs_def class_attr_export_def
      class_attr_unexport_def)

subsection \<open>Open files\<close>

text \<open>An open file: the minor number it was opened by, \<open>private_data\<close> and the position.\<close>

record vinput_handle =
  vh_minor :: nat
  vh_data :: nat
  vh_pos :: int

record vworld =
  vw_reg :: vstate
  vw_files :: "vinput_handle option list"
  vw_loaded :: bool

definition vworld_start :: "(nat \<rightharpoonup> vinput_device) \<Rightarrow> vworld" where
  "vworld_start drivers = \<lparr>vw_reg = vinput_start drivers, vw_files = [], vw_loaded = True\<rparr>"

text \<open>
  Reads and writes carry what the kernel adds: the contents of the handler's stack array, and how many
  bytes of the copy to or from user space failed.
\<close>

datatype vcall =
    V_Open nat
  | V_Read nat "char list" nat nat
  | V_Pread nat "char list" nat int nat
  | V_Write nat "char list" nat
  | V_Close nat
  | V_Store string string export_env
  | V_Load nat
  | V_Unload nat
  | V_Rmmod

definition file_at :: "vworld \<Rightarrow> nat \<Rightarrow> vinput_handle option" where
  "file_at w fd = (if fd < length (vw_files w) then vw_files w ! fd else None)"

definition any_open :: "(vinput_handle \<Rightarrow> bool) \<Rightarrow> vworld \<Rightarrow> bool" where
  "any_open P w \<longleftrightarrow> list_ex (\<lambda>f. case f of None \<Rightarrow> False | Some h \<Rightarrow> P h) (vw_files w)"

definition put_file :: "vworld \<Rightarrow> nat \<Rightarrow> vinput_handle option \<Rightarrow> vworld" where
  "put_file w fd f = w\<lparr>vw_files := (vw_files w)[fd := f]\<rparr>"

text \<open>
  A call: the world after it, its return value and the bytes that reach the caller. Module vinput cannot
  be removed while a file is open (its table has an owner) or a driver, which uses its functions, is
  loaded; a driver is loaded once and its init and exit functions register and unregister it.
\<close>

fun vinput_call :: "(string \<Rightarrow> int + int) \<Rightarrow> vcall \<Rightarrow> vworld \<Rightarrow> (vworld \<times> int \<times> char list) option" where
  "vinput_call kstrtol (V_Open minor) w =
     (if \<not> vw_loaded w then Some (w, - ENOENT, [])
      else (case vf_open vinput_fops (vw_reg w) minor of
              None \<Rightarrow> None
            | Some (ret, None) \<Rightarrow> Some (w, ret, [])
            | Some (ret, Some a) \<Rightarrow>
                Some (w\<lparr>vw_files := vw_files w @ [Some \<lparr>vh_minor = minor, vh_data = a, vh_pos = 0\<rparr>]\<rparr>,
                  int (length (vw_files w)), [])))"
| "vinput_call kstrtol (V_Read fd stack count uncopied) w =
     (case file_at w fd of
        None \<Rightarrow> Some (w, - EBADF, [])
      | Some h \<Rightarrow>
          map_option (\<lambda>(ret, pos, out). (put_file w fd (Some (h\<lparr>vh_pos := pos\<rparr>)), ret, out))
            (vf_read vinput_fops (vw_reg w) (vh_data h) stack count (vh_pos h) uncopied))"
| "vinput_call kstrtol (V_Pread fd stack count pos uncopied) w =
     (if pos < 0 then Some (w, - EINVAL, [])
      else (case file_at w fd of
              None \<Rightarrow> Some (w, - EBADF, [])
            | Some h \<Rightarrow>
                map_option (\<lambda>(ret, _, out). (w, ret, out))
                  (vf_read vinput_fops (vw_reg w) (vh_data h) stack count pos uncopied)))"
| "vinput_call kstrtol (V_Write fd data uncopied) w =
     (case file_at w fd of
        None \<Rightarrow> Some (w, - EBADF, [])
      | Some h \<Rightarrow>
          map_option (\<lambda>(reg, ret). (w\<lparr>vw_reg := reg\<rparr>, ret, []))
            (vf_write vinput_fops (vw_reg w) (vh_data h) data uncopied))"
| "vinput_call kstrtol (V_Close fd) w =
     (case file_at w fd of
        None \<Rightarrow> Some (w, - EBADF, [])
      | Some h \<Rightarrow>
          (case vf_release vinput_fops (vw_reg w) of
             (reg, ret) \<Rightarrow> Some ((put_file w fd None)\<lparr>vw_reg := reg\<rparr>, 0, [])))"
| "vinput_call kstrtol (V_Store attr buf e) w =
     (if \<not> vw_loaded w then Some (w, - ENOENT, [])
      else map_option (\<lambda>(reg, ret). (w\<lparr>vw_reg := reg\<rparr>, ret, []))
             (class_store kstrtol vinput_class attr e (vw_reg w) buf))"
| "vinput_call kstrtol (V_Load d) w =
     (if \<not> vw_loaded w then Some (w, - ENOENT, [])
      else if d \<in> set (vinput_devices (vw_reg w)) then Some (w, - EEXIST, [])
      else (case vinput_register (vw_reg w) d of (reg, ret) \<Rightarrow> Some (w\<lparr>vw_reg := reg\<rparr>, ret, [])))"
| "vinput_call kstrtol (V_Unload d) w =
     (if d \<notin> set (vinput_devices (vw_reg w)) then Some (w, - ENOENT, [])
      else map_option (\<lambda>reg. (w\<lparr>vw_reg := reg\<rparr>, 0, [])) (vinput_unregister (vw_reg w) d))"
| "vinput_call kstrtol V_Rmmod w =
     (if \<not> vw_loaded w then Some (w, - ENOENT, [])
      else if vf_owner vinput_fops = THIS_MODULE \<and> any_open (\<lambda>_. True) w \<or> vinput_devices (vw_reg w) \<noteq> []
      then Some (w, - EAGAIN, [])
      else Some (w\<lparr>vw_loaded := False\<rparr>, 0, []))"

text \<open>
  What the kernel promises for a call: new objects have free addresses, the stack array has its length,
  counts are bounded; a driver that is loaded is one of those there are and keeps its contract.
\<close>

fun vcall_ok :: "vworld \<Rightarrow> vcall \<Rightarrow> bool" where
  "vcall_ok w (V_Read fd stack count uncopied) \<longleftrightarrow>
     length stack = VINPUT_MAX_LEN + 1 \<and> count \<le> MAX_RW_COUNT"
| "vcall_ok w (V_Pread fd stack count pos uncopied) \<longleftrightarrow>
     length stack = VINPUT_MAX_LEN + 1 \<and> count \<le> MAX_RW_COUNT"
| "vcall_ok w (V_Store attr buf e) \<longleftrightarrow> fresh_env e (vw_reg w)"
| "vcall_ok w (V_Load d) \<longleftrightarrow> (\<exists>dev. v_drivers (vw_reg w) d = Some dev \<and> vinput_driver (vd_ops dev))"
| "vcall_ok w c \<longleftrightarrow> True"

text \<open>The calls that take a device away from an open file: its unexport, and unloading its driver.\<close>

fun disturbs :: "(string \<Rightarrow> int + int) \<Rightarrow> vworld \<Rightarrow> vcall \<Rightarrow> bool" where
  "disturbs kstrtol w (V_Store attr buf e) \<longleftrightarrow> attr = ''unexport'' \<and>
     (case kstrtol buf of Inl _ \<Rightarrow> False | Inr i \<Rightarrow> any_open (\<lambda>h. int (vh_minor h) = i) w)"
| "disturbs kstrtol w (V_Unload d) \<longleftrightarrow>
     any_open (\<lambda>h. case v_heap (vw_reg w) (vh_data h) of None \<Rightarrow> False | Some v \<Rightarrow> v_type v = Some d) w"
| "disturbs kstrtol w c \<longleftrightarrow> False"

definition vworld_step :: "(string \<Rightarrow> int + int) \<Rightarrow> vworld \<Rightarrow> vworld \<Rightarrow> bool" where
  "vworld_step kstrtol w w' \<longleftrightarrow>
     (\<exists>c ret out. vcall_ok w c \<and> \<not> disturbs kstrtol w c \<and> vinput_call kstrtol c w = Some (w', ret, out))"

subsection \<open>The invariant\<close>

definition attached :: "vstate \<Rightarrow> vinput_handle \<Rightarrow> bool" where
  "attached s h \<longleftrightarrow> 0 \<le> vh_pos h \<and> (\<exists>v. v_heap s (vh_data h) = Some v \<and> v_id v = vh_minor h)"

definition winv :: "vworld \<Rightarrow> bool" where
  "winv w \<longleftrightarrow> vinv (vw_reg w) \<and> (\<not> vw_loaded w \<longrightarrow> vinput_devices (vw_reg w) = []) \<and>
     (\<forall>h. Some h \<in> set (vw_files w) \<longrightarrow> attached (vw_reg w) h)"

text \<open>What a call may return: a read no more than it was asked for, the others no bytes.\<close>

fun vcall_returns :: "vcall \<Rightarrow> int \<Rightarrow> char list \<Rightarrow> bool" where
  "vcall_returns (V_Read fd stack count uncopied) ret out \<longleftrightarrow> ret \<le> int count \<and> length out \<le> count"
| "vcall_returns (V_Pread fd stack count pos uncopied) ret out \<longleftrightarrow> ret \<le> int count \<and> length out \<le> count"
| "vcall_returns c ret out \<longleftrightarrow> out = []"

definition served :: "(string \<Rightarrow> int + int) \<Rightarrow> vcall \<Rightarrow> vworld \<Rightarrow> bool" where
  "served kstrtol c w \<longleftrightarrow>
     (\<exists>w' ret out. vinput_call kstrtol c w = Some (w', ret, out) \<and> winv w' \<and> vcall_returns c ret out)"

lemma any_open_iff: "any_open P w \<longleftrightarrow> (\<exists>h. Some h \<in> set (vw_files w) \<and> P h)"
  unfolding any_open_def list_ex_iff by (metis (no_types, lifting) option.case_eq_if option.collapse option.simps(5))

lemma file_at_open: "file_at w fd = Some h \<Longrightarrow> Some h \<in> set (vw_files w)"
  by (auto simp: file_at_def in_set_conv_nth split: if_splits)

lemma file_at_reg [simp]: "file_at (w\<lparr>vw_reg := s\<rparr>) fd = file_at w fd"
  by (simp add: file_at_def)

lemma winv_start: "winv (vworld_start drivers)"
  by (simp add: winv_def vworld_start_def vinv_start)

lemma winvI_reg:
  assumes "winv w" and "vinv s" and "\<not> vw_loaded w \<Longrightarrow> vinput_devices s = []"
    and "\<And>h. Some h \<in> set (vw_files w) \<Longrightarrow> attached (vw_reg w) h \<Longrightarrow> attached s h"
  shows "winv (w\<lparr>vw_reg := s\<rparr>)"
  using assms by (simp add: winv_def)

lemma winv_put_file:
  assumes "winv w" and "\<And>h. f = Some h \<Longrightarrow> attached (vw_reg w) h"
  shows "winv (put_file w fd f)"
  using assms set_update_subset_insert [of "vw_files w" fd f] by (auto simp: winv_def put_file_def)

text \<open>Reading a device that exists, at any position, for any count.\<close>

lemma attached_read:
  assumes "vinv s" and "v_heap s a = Some v" and "length stack = VINPUT_MAX_LEN + 1"
    and "count \<le> MAX_RW_COUNT" and "0 \<le> pos"
  shows "\<exists>ret pos' out. vinput_read s a stack count pos uncopied = Some (ret, pos', out) \<and>
    0 \<le> pos' \<and> ret \<le> int count \<and> length out \<le> count"
proof -
  obtain ops where o: "ops_of s v = Some ops" "vinput_driver ops"
    using vinv_ops [OF assms(1,2)] by blast
  obtain b len where "op_read ops v stack (int count) = Some (b, len)"
    "length b = VINPUT_MAX_LEN + 1" "0 \<le> len" "len \<le> int VINPUT_MAX_LEN"
    using vinput_driver.read_bounds [OF o(2) assms(3,4)] by blast
  with o(1) assms show ?thesis by (auto simp: vinput_read_def Let_def)
qed

text \<open>A change to a device that keeps its id, a new device and a device that goes.\<close>

lemma attached_update:
  "attached s h \<Longrightarrow> v_heap s a = Some v \<Longrightarrow> v_id v' = v_id v \<Longrightarrow>
    attached (s\<lparr>v_heap := (v_heap s)(a \<mapsto> v')\<rparr>) h"
  by (auto simp: attached_def)

lemma attached_added: "attached s h \<Longrightarrow> v_heap s a = None \<Longrightarrow> attached (added s a v) h"
  by (auto simp: attached_def added_def)

lemma attached_gone:
  "attached s h \<Longrightarrow> v_heap s a = Some v \<Longrightarrow> vh_minor h \<noteq> v_id v \<Longrightarrow> attached (gone s a v) h"
  by (auto simp: attached_def gone_def)

subsection \<open>The calls\<close>

lemma served_open:
  assumes "winv w"
  shows "served kstrtol (V_Open minor) w"
proof -
  have I: "vinv (vw_reg w)" using assms by (simp add: winv_def)
  obtain p where p: "vinput_get_vdevice_by_id (vw_reg w) (int minor) = Some p"
    using get_vdevice_by_id_eq(3) [OF I] by blast
  show ?thesis
  proof (cases p)
    case (ERR_PTR err)
    with p assms show ?thesis by (simp add: served_def vinput_fops_def vinput_open_def)
  next
    case (Ptr a)
    with p have "vinput_open (vw_reg w) minor = Some (0, Some a)" by (simp add: vinput_open_def)
    moreover from this obtain v where "v_heap (vw_reg w) a = Some v" "v_id v = minor"
      using vinput_open_found [OF I] by blast
    ultimately show ?thesis using assms
      by (auto simp: served_def vinput_fops_def winv_def attached_def)
  qed
qed

lemma served_read:
  assumes "winv w" and "length stack = VINPUT_MAX_LEN + 1" and "count \<le> MAX_RW_COUNT"
  shows "served kstrtol (V_Read fd stack count uncopied) w"
    and "served kstrtol (V_Pread fd stack count pos uncopied) w"
proof -
  have I: "vinv (vw_reg w)" using assms(1) by (simp add: winv_def)
  have read: "\<exists>ret pos' out. vinput_read (vw_reg w) (vh_data h) stack count pos uncopied = Some (ret, pos', out) \<and>
      0 \<le> pos' \<and> ret \<le> int count \<and> length out \<le> count"
    if "file_at w fd = Some h" "0 \<le> pos" for h pos
    using file_at_open [OF that(1)] that(2) assms(1) attached_read [OF I _ assms(2,3)]
    by (auto simp: winv_def attached_def)
  show "served kstrtol (V_Read fd stack count uncopied) w"
  proof (cases "file_at w fd")
    case None
    with assms(1) show ?thesis by (simp add: served_def)
  next
    case (Some h)
    then have h: "attached (vw_reg w) h" using file_at_open assms(1) by (auto simp: winv_def)
    then obtain ret pos' out where r:
      "vinput_read (vw_reg w) (vh_data h) stack count (vh_pos h) uncopied = Some (ret, pos', out)"
      "0 \<le> pos'" "ret \<le> int count" "length out \<le> count"
      using read [OF Some, of "vh_pos h"] by (auto simp: attached_def)
    with h have "winv (put_file w fd (Some (h\<lparr>vh_pos := pos'\<rparr>)))"
      by (intro winv_put_file [OF assms(1)]) (auto simp: attached_def)
    with r Some show ?thesis by (simp add: served_def vinput_fops_def)
  qed
  show "served kstrtol (V_Pread fd stack count pos uncopied) w"
  proof (cases "file_at w fd")
    case None
    with assms(1) show ?thesis by (simp add: served_def)
  next
    case (Some h)
    show ?thesis
    proof (cases "pos < 0")
      case True
      with assms(1) show ?thesis by (simp add: served_def)
    next
      case False
      with read [OF Some, of pos] Some assms(1) show ?thesis by (auto simp: served_def vinput_fops_def)
    qed
  qed
qed

lemma served_write:
  assumes "winv w"
  shows "served kstrtol (V_Write fd data uncopied) w"
proof (cases "file_at w fd")
  case None
  with assms show ?thesis by (simp add: served_def)
next
  case (Some h)
  have I: "vinv (vw_reg w)" using assms by (simp add: winv_def)
  from Some assms obtain v where v: "v_heap (vw_reg w) (vh_data h) = Some v"
    using file_at_open by (fastforce simp: winv_def attached_def)
  from vinv_write [OF I v, of data uncopied] obtain s' ret v' where s':
    "vinput_write (vw_reg w) (vh_data h) data uncopied = Some (s', ret)" "vinv s'"
    "s' = (vw_reg w)\<lparr>v_heap := (v_heap (vw_reg w))(vh_data h \<mapsto> v')\<rparr>" "v_id v' = v_id v"
    by blast
  have "winv (w\<lparr>vw_reg := s'\<rparr>)"
    using assms s'(2,4) attached_update [OF _ v s'(4)] unfolding s'(3)
    by (intro winvI_reg) (auto simp: winv_def)
  with s'(1) Some show ?thesis by (simp add: served_def vinput_fops_def)
qed

lemma served_store:
  assumes "winv w" and "fresh_env e (vw_reg w)" and "\<not> disturbs kstrtol w (V_Store attr buf e)"
  shows "served kstrtol (V_Store attr buf e) w"
proof (cases "vw_loaded w")
  case False
  with assms(1) show ?thesis by (simp add: served_def)
next
  case loaded: True
  have I: "vinv (vw_reg w)" using assms(1) by (simp add: winv_def)
  have kept: "served kstrtol (V_Store attr buf e) w"
    if "class_store kstrtol vinput_class attr e (vw_reg w) buf = Some (s', ret)" "vinv s'"
      "\<And>h. Some h \<in> set (vw_files w) \<Longrightarrow> attached (vw_reg w) h \<Longrightarrow> attached s' h" for s' ret
    using that loaded winvI_reg [OF assms(1) that(2)] by (simp add: served_def)
  consider "attr = ''export''" | "attr = ''unexport''" | "attr \<noteq> ''export''" "attr \<noteq> ''unexport''" by blast
  then show ?thesis
  proof cases
    case 1
    from export_cases [OF I assms(2), of buf "length buf"] obtain s' ret where s':
      "export_store e (vw_reg w) buf (length buf) = Some (s', ret)" "vinv s'"
      "s' = vw_reg w \<or> s' = id_marked (vw_reg w) (find_first_zero_bit (vinput_ids (vw_reg w))) \<or>
        (\<exists>a v. s' = added (vw_reg w) a v \<and> kzalloc_ret e = Some a)" by blast
    have "attached s' h" if "attached (vw_reg w) h" for h
      using s'(3) that assms(2) attached_added [OF that]
      by (auto simp: fresh_env_def) (simp add: attached_def id_marked_def)
    with 1 s'(1,2) show ?thesis by (intro kept [of s' ret]) simp_all
  next
    case 2
    from unexport_cases [OF I, of kstrtol buf "length buf"] consider
      (same) ret where "unexport_store kstrtol (vw_reg w) buf (length buf) = Some (vw_reg w, ret)"
      | (gone) i a v where "kstrtol buf = Inr i" "v_heap (vw_reg w) a = Some v" "int (v_id v) = i"
          "unexport_store kstrtol (vw_reg w) buf (length buf) = Some (gone (vw_reg w) a v, int (length buf))"
      by blast
    then show ?thesis
    proof cases
      case same
      with 2 I show ?thesis by (intro kept) simp_all
    next
      case gone
      have "vh_minor h \<noteq> v_id v" if "Some h \<in> set (vw_files w)" for h
        using assms(3) 2 gone(1,3) that by (auto simp: any_open_iff)
      with 2 gone vinv_gone [OF I gone(2)] show ?thesis
        by (intro kept [of "gone (vw_reg w) a v"]) (simp_all add: attached_gone)
    qed
  next
    case 3
    with I show ?thesis by (intro kept) simp_all
  qed
qed

lemma served_load:
  assumes "winv w" and "vcall_ok w (V_Load d)"
  shows "served kstrtol (V_Load d) w"
proof (cases "\<not> vw_loaded w \<or> d \<in> set (vinput_devices (vw_reg w))")
  case True
  with assms(1) show ?thesis by (auto simp: served_def)
next
  case False
  from assms(2) obtain dev where dev: "v_drivers (vw_reg w) d = Some dev" "vinput_driver (vd_ops dev)"
    by auto
  have "vinv (fst (vinput_register (vw_reg w) d))"
    using assms(1) False dev by (intro vinv_register) (auto simp: winv_def)
  with False show ?thesis
    using winvI_reg [OF assms(1)] by (simp add: served_def vinput_register_def attached_def)
qed

lemma served_unload:
  assumes "winv w" and "\<not> disturbs kstrtol w (V_Unload d)"
  shows "served kstrtol (V_Unload d) w"
proof (cases "d \<in> set (vinput_devices (vw_reg w))")
  case False
  with assms(1) show ?thesis by (simp add: served_def)
next
  case True
  have I: "vinv (vw_reg w)" using assms(1) by (simp add: winv_def)
  from unregister_eq [OF I True] obtain s' where s': "vinput_unregister (vw_reg w) d = Some s'" "vinv s'"
    "vinput_devices s' = remove1 d (vinput_devices (vw_reg w))"
    "\<And>b. v_heap s' b = (case v_heap (vw_reg w) b of None \<Rightarrow> None
       | Some v \<Rightarrow> if v_type v = Some d then None else Some v)"
    by auto
  have "attached s' h" if "Some h \<in> set (vw_files w)" "attached (vw_reg w) h" for h
    using assms(2) that s'(4) [of "vh_data h"] by (auto simp: any_open_iff attached_def)
  then have "winv (w\<lparr>vw_reg := s'\<rparr>)"
    using assms(1) s'(2,3) by (intro winvI_reg) (auto simp: winv_def)
  with s'(1) True show ?thesis by (simp add: served_def)
qed

lemma served_rmmod: "winv w \<Longrightarrow> served kstrtol V_Rmmod w"
  by (auto simp: served_def winv_def)

lemma served_close: "winv w \<Longrightarrow> served kstrtol (V_Close fd) w"
  using winv_put_file [of w None fd]
  by (auto simp: served_def vinput_fops_def vinput_release_def put_file_def split: option.split)

lemma vinput_call_served:
  assumes "winv w" and "vcall_ok w c" and "\<not> disturbs kstrtol w c"
  shows "served kstrtol c w"
proof (cases c)
  case (V_Open minor)
  with assms show ?thesis by (simp add: served_open)
next
  case (V_Read fd stack count uncopied)
  with assms show ?thesis by (simp add: served_read)
next
  case (V_Pread fd stack count pos uncopied)
  with assms show ?thesis by (simp add: served_read)
next
  case (V_Write fd data uncopied)
  with assms show ?thesis by (simp add: served_write)
next
  case (V_Close fd)
  with assms show ?thesis by (simp add: served_close)
next
  case (V_Store attr buf e)
  with served_store [OF assms(1), of e kstrtol attr buf] assms(2,3) show ?thesis by simp
next
  case (V_Load d)
  with served_load [OF assms(1), of d] assms(2) show ?thesis by simp
next
  case (V_Unload d)
  with served_unload [OF assms(1), of kstrtol d] assms(3) show ?thesis by simp
next
  case V_Rmmod
  with assms show ?thesis by (simp add: served_rmmod)
qed

interpretation vfiles: invariant_system "vworld_step kstrtol" "vworld_start drivers" winv for kstrtol drivers
proof unfold_locales
  show "winv (vworld_start drivers)" by (rule winv_start)
  show "winv w'" if "vworld_step kstrtol w w'" "winv w" for w w'
    using that vinput_call_served [of w _ kstrtol] by (fastforce simp: vworld_step_def served_def)
qed

subsection \<open>Files that lose their device\<close>

text \<open>The device of an open file belongs to a driver, so vinput is still loaded.\<close>

lemma attached_loaded:
  assumes "winv w" and "Some h \<in> set (vw_files w)"
  obtains v where "v_heap (vw_reg w) (vh_data h) = Some v" and "v_id v = vh_minor h" and "vw_loaded w"
    and "v_type v \<noteq> None" and "\<And>d. v_type v = Some d \<Longrightarrow> d \<in> set (vinput_devices (vw_reg w))"
proof -
  from assms obtain v where v: "v_heap (vw_reg w) (vh_data h) = Some v" "v_id v = vh_minor h"
    by (auto simp: winv_def attached_def)
  with assms(1) have "vdev_ok (vw_reg w) v" by (simp add: winv_def vinv_def)
  then obtain d where "v_type v = Some d" "d \<in> set (vinput_devices (vw_reg w))" by (auto simp: vdev_ok_def)
  with v assms(1) show ?thesis by (intro that [of v]) (auto simp: winv_def)
qed

lemma dangling:
  assumes "file_at w fd = Some h" and "v_heap (vw_reg w) (vh_data h) = None"
  shows "vinput_call kstrtol (V_Read fd stack count uncopied) w = None"
    and "vinput_call kstrtol (V_Write fd data 0) w = None"
  using assms by (simp_all add: vinput_fops_def vinput_read_def vinput_write_def Let_def)

lemma disturbed:
  assumes "winv w" and "disturbs kstrtol w c"
  shows "\<exists>w' ret fd h. vinput_call kstrtol c w = Some (w', ret, []) \<and> 0 \<le> ret \<and>
    file_at w fd = Some h \<and> file_at w' fd = Some h \<and> v_heap (vw_reg w') (vh_data h) = None"
proof -
  have I: "vinv (vw_reg w)" using assms(1) by (simp add: winv_def)
  have fd: "\<exists>fd. file_at w fd = Some h" if "Some h \<in> set (vw_files w)" for h
    using that by (auto simp: file_at_def in_set_conv_nth)
  consider (unexport) buf e i where "c = V_Store ''unexport'' buf e" "kstrtol buf = Inr i"
      "any_open (\<lambda>h. int (vh_minor h) = i) w"
    | (unload) d where "c = V_Unload d" "any_open (\<lambda>h. case v_heap (vw_reg w) (vh_data h) of
        None \<Rightarrow> False | Some v \<Rightarrow> v_type v = Some d) w"
    using assms(2) by (cases c) (auto split: sum.splits)
  then show ?thesis
  proof cases
    case unexport
    then obtain h where h: "Some h \<in> set (vw_files w)" "int (vh_minor h) = i" by (auto simp: any_open_iff)
    obtain v where v: "v_heap (vw_reg w) (vh_data h) = Some v" "v_id v = vh_minor h" "vw_loaded w"
      using attached_loaded [OF assms(1) h(1)] by blast
    have "unexport_store kstrtol (vw_reg w) buf (length buf) = Some (gone (vw_reg w) (vh_data h) v, int (length buf))"
      using unexport_found [OF I v(1), of kstrtol buf] unexport(2) h(2) v(2) by simp
    then have "vinput_call kstrtol c w =
        Some (w\<lparr>vw_reg := gone (vw_reg w) (vh_data h) v\<rparr>, int (length buf), [])"
      using unexport(1) v(3) by simp
    moreover obtain fd where "file_at w fd = Some h" using fd [OF h(1)] by blast
    ultimately show ?thesis
      by (intro exI [of _ "w\<lparr>vw_reg := gone (vw_reg w) (vh_data h) v\<rparr>"] exI [of _ "int (length buf)"]
          exI [of _ fd] exI [of _ h]) (simp add: gone_def)
  next
    case unload
    then obtain h v where h: "Some h \<in> set (vw_files w)" "v_heap (vw_reg w) (vh_data h) = Some v"
      "v_type v = Some d" by (auto simp: any_open_iff split: option.splits)
    have d: "d \<in> set (vinput_devices (vw_reg w))"
      using attached_loaded [OF assms(1) h(1)] h(2,3) by (metis option.inject)
    moreover obtain s' where "vinput_unregister (vw_reg w) d = Some s'" "v_heap s' (vh_data h) = None"
      using unregister_eq [OF I d] h(2,3) by fastforce
    ultimately have "vinput_call kstrtol c w = Some (w\<lparr>vw_reg := s'\<rparr>, 0, [])" "v_heap s' (vh_data h) = None"
      using unload(1) by simp_all
    moreover obtain fd where "file_at w fd = Some h" using fd [OF h(1)] by blast
    ultimately show ?thesis
      by (intro exI [of _ "w\<lparr>vw_reg := s'\<rparr>"] exI [of _ 0] exI [of _ fd] exI [of _ h]) simp
  qed
qed

subsection \<open>Properties\<close>

text \<open>
  C4: any number of processes may open, read, write and close virtual devices while others export and
  unexport devices, load and unload drivers and try to remove vinput, as long as no device is taken away
  from an open file (by unexporting it or unloading its driver). Then every call is served, a read stays
  inside the handler's array and returns no more than was asked for, and every open file stays with the
  device whose number it was opened by. The condition is needed: a call that takes a device away from an
  open file succeeds, and the next read or write through that file follows a freed pointer.
\<close>

theorem vinput_files_safe:
  assumes "reachable (vworld_step kstrtol) (vworld_start drivers) w" and "vcall_ok w c"
  shows "(\<not> disturbs kstrtol w c \<longrightarrow> (\<exists>w' ret out. vinput_call kstrtol c w = Some (w', ret, out) \<and>
      vcall_returns c ret out \<and> (\<forall>fd h. file_at w' fd = Some h \<longrightarrow>
        (\<exists>v. v_heap (vw_reg w') (vh_data h) = Some v \<and> v_id v = vh_minor h)))) \<and>
    (disturbs kstrtol w c \<longrightarrow> (\<exists>w' ret fd h. vinput_call kstrtol c w = Some (w', ret, []) \<and> 0 \<le> ret \<and>
      file_at w fd = Some h \<and> (\<forall>stack count uncopied.
        vinput_call kstrtol (V_Read fd stack count uncopied) w' = None) \<and>
      (\<forall>data. vinput_call kstrtol (V_Write fd data 0) w' = None)))"
proof -
  have I: "winv w" using vfiles.reachable_inv [OF assms(1)] .
  have "\<exists>v. v_heap (vw_reg w') (vh_data h) = Some v \<and> v_id v = vh_minor h"
    if "winv w'" "file_at w' fd = Some h" for w' fd h
    using attached_loaded [OF that(1) file_at_open [OF that(2)]] by blast
  then have "\<exists>w' ret out. vinput_call kstrtol c w = Some (w', ret, out) \<and> vcall_returns c ret out \<and>
      (\<forall>fd h. file_at w' fd = Some h \<longrightarrow> (\<exists>v. v_heap (vw_reg w') (vh_data h) = Some v \<and> v_id v = vh_minor h))"
    if "\<not> disturbs kstrtol w c"
    using vinput_call_served [OF I assms(2) that] unfolding served_def by blast
  moreover have "\<exists>w' ret fd h. vinput_call kstrtol c w = Some (w', ret, []) \<and> 0 \<le> ret \<and>
      file_at w fd = Some h \<and> (\<forall>stack count uncopied.
        vinput_call kstrtol (V_Read fd stack count uncopied) w' = None) \<and>
      (\<forall>data. vinput_call kstrtol (V_Write fd data 0) w' = None)"
    if "disturbs kstrtol w c"
    using disturbed [OF I that] dangling by blast
  ultimately show ?thesis by blast
qed

text \<open>A world with one keyboard, opened once.\<close>

definition demo_world :: "vstate \<Rightarrow> vinput_handle option list \<Rightarrow> vworld" where
  "demo_world reg files = \<lparr>vw_reg = reg, vw_files = files, vw_loaded = True\<rparr>"

definition demo_handle :: vinput_handle where
  "demo_handle = \<lparr>vh_minor = 0, vh_data = 9, vh_pos = 0\<rparr>"

lemma demo_open: "vinput_open demo_sys 0 = Some (0, Some 9)"
proof -
  have "\<exists>v. v_heap demo_sys 9 = Some v \<and> v_id v = 0" by (simp add: demo_sys_def added_def demo_kbd_def)
  then show ?thesis using vinput_open_found [OF vinput_reach_inv [OF demo_sys_reach]] by blast
qed

lemma demo_world_reach:
  "reachable (vworld_step kstrtol_dec) (vworld_start [5 \<mapsto> vkbd_dev [0..<KEY_MAX] kstrtol_dec])
    (demo_world demo_sys [Some demo_handle])"
proof -
  let ?D = "[5 \<mapsto> vkbd_dev [0..<KEY_MAX] kstrtol_dec]"
  let ?w = "vworld_start ?D"
  have step: "vworld_step kstrtol_dec w w'"
    if "vcall_ok w c" "\<not> disturbs kstrtol_dec w c" "vinput_call kstrtol_dec c w = Some (w', ret, out)"
    for w c w' ret out using that by (auto simp: vworld_step_def)
  have "vinput_register (vinput_start ?D) 5 = (demo_registry, 0)"
    by (simp add: demo_registry_eq vinput_register_def vinput_start_def)
  then have load: "vworld_step kstrtol_dec ?w (demo_world demo_registry [])"
    by (intro step [of _ "V_Load 5" _ 0 "[]"])
      (auto simp: vworld_start_def demo_world_def vinput_start_def vkbd_dev_def vkbd_is_driver)
  have four: "Suc (Suc (Suc (Suc 0))) = 4" by simp
  have "export_store demo_env demo_registry ''vkbd'' (Suc (Suc (Suc (Suc 0)))) = Some (demo_sys, 4)"
    unfolding four demo_export demo_sys_def by simp
  then have "vworld_step kstrtol_dec (demo_world demo_registry []) (demo_world demo_sys [])"
    using demo_fresh
    by (intro step [of _ "V_Store ''export'' ''vkbd'' demo_env" _ 4 "[]"])
      (simp_all add: demo_world_def)
  moreover have "vworld_step kstrtol_dec (demo_world demo_sys []) (demo_world demo_sys [Some demo_handle])"
    using demo_open by (intro step [of _ "V_Open 0" _ 0 "[]"])
      (simp_all add: demo_world_def demo_handle_def vinput_fops_def)
  ultimately have "step_path (vworld_step kstrtol_dec) ?w [demo_world demo_registry [],
      demo_world demo_sys [], demo_world demo_sys [Some demo_handle]]"
    using load by simp
  from reachable_path [OF this] show ?thesis by simp
qed

theorem vinput_files_safe_witness:
  "\<exists>w' ret fd w'' ret'.
    vinput_call kstrtol_dec (V_Store ''unexport'' ''0'' (demo_env\<lparr>kzalloc_ret := None\<rparr>))
      (demo_world demo_sys [Some demo_handle]) = Some (w', ret, []) \<and>
    vinput_call kstrtol_dec (V_Write fd ''1'' 0) w' = None \<and>
    vinput_call kstrtol_dec (V_Write 0 ''1'' 0) (demo_world demo_sys [Some demo_handle]) = Some (w'', ret', [])"
proof -
  let ?w = "demo_world demo_sys [Some demo_handle]"
  let ?c = "V_Store ''unexport'' ''0'' (demo_env\<lparr>kzalloc_ret := None\<rparr>)"
  have "kstrtol_dec ''0'' = Inr 0" by (simp add: kstrtol_dec_def in_long_def)
  then have "disturbs kstrtol_dec ?w ?c" by (simp add: demo_world_def demo_handle_def any_open_def)
  moreover have "vcall_ok ?w ?c" by (simp add: fresh_env_def)
  ultimately obtain w' ret fd where "vinput_call kstrtol_dec ?c ?w = Some (w', ret, [])"
    "vinput_call kstrtol_dec (V_Write fd ''1'' 0) w' = None"
    using vinput_files_safe [OF demo_world_reach, of ?c] by blast
  moreover obtain w'' ret' where "vinput_call kstrtol_dec (V_Write 0 ''1'' 0) ?w = Some (w'', ret', [])"
    using vinput_files_safe [OF demo_world_reach, of "V_Write 0 ''1'' 0"] by auto
  ultimately show ?thesis by blast
qed

end
