(* ===== verification/Sleep.thy ===== *)
theory Sleep
  imports Lifecycle Userspace Vfs
begin

unbundle bit_operations_syntax

text \<open>
  examples/sleep.c: a /proc file that one process may have open at a time. A second opener sleeps
  until the file is closed, fails at once if it asked not to block, and gives up when it gets a
  signal. The first part models the read and write handlers, the second the processes that open and
  close the file, as a step relation over the flag \<open>already_open\<close> and the place each process is at in
  \<open>module_open\<close>.
\<close>

definition MESSAGE_LENGTH :: nat where "MESSAGE_LENGTH = 80"

subsection \<open>Reading and writing\<close>

text \<open>The array \<open>message\<close> and the variable \<open>finished\<close> that is static in \<open>module_output\<close>.\<close>

record sleep_file =
  sl_message :: "char list"
  sl_finished :: bool

definition sleep_file_start :: sleep_file where
  "sleep_file_start = \<lparr>sl_message = zeros MESSAGE_LENGTH, sl_finished = False\<rparr>"

definition output_text :: "char list \<Rightarrow> string" where
  "output_text message = ''Last input:'' @ cstr message @ [LF]"

text \<open>
  \<open>module_output\<close>. Formatting an unterminated message, or more than the local array holds, is
  undefined. The loop is the one of \<open>copy_out_loop\<close>; the file offset is not used.
\<close>

definition module_output :: "sleep_file read_handler" where
  "module_output s m buf len off =
     (if sl_finished s then Some (s\<lparr>sl_finished := False\<rparr>, m, off, 0)
      else if \<not> terminated (sl_message s) then None
      else (case c_sprintf (zeros (MESSAGE_LENGTH + 30)) (output_text (sl_message s)) of
              None \<Rightarrow> None
            | Some output_msg \<Rightarrow>
                (case copy_out_loop output_msg 0 m buf len 0 of
                   None \<Rightarrow> None
                 | Some (m', i) \<Rightarrow> Some (s\<lparr>sl_finished := True\<rparr>, m', off, int i))))"

definition module_input :: "sleep_file \<Rightarrow> umem \<Rightarrow> nat \<Rightarrow> nat \<Rightarrow> (sleep_file \<times> int) option" where
  "module_input s m buf len =
     (case copy_in_loop (MESSAGE_LENGTH - 1) (sl_message s) m buf len 0 of
        None \<Rightarrow> None
      | Some (message, i) \<Rightarrow>
          map_option (\<lambda>message. (s\<lparr>sl_message := message\<rparr>, int i)) (wr message (int i) NUL))"

definition sleep_inv :: "sleep_file \<Rightarrow> bool" where
  "sleep_inv s \<longleftrightarrow> length (sl_message s) = MESSAGE_LENGTH \<and> terminated (sl_message s)"

lemma sleep_start_inv: "sleep_inv sleep_file_start"
  by (simp add: sleep_inv_def sleep_file_start_def MESSAGE_LENGTH_def)

lemma module_input_eq:
  assumes "sleep_inv s"
  shows "\<exists>s'. module_input s m buf len = Some (s', int (min len (MESSAGE_LENGTH - 1))) \<and>
    sleep_inv s' \<and> sl_finished s' = sl_finished s \<and>
    cstr (sl_message s') = cstr (ustr m buf (min len (MESSAGE_LENGTH - 1)))"
proof -
  define n where "n = min len (MESSAGE_LENGTH - 1)"
  define u where "u = ustr m buf n"
  have n: "n < MESSAGE_LENGTH" by (simp add: n_def MESSAGE_LENGTH_def)
  have loop: "copy_in_loop (MESSAGE_LENGTH - 1) (sl_message s) m buf len 0 =
      Some (u @ drop n (sl_message s), n)"
    using assms copy_in_loop_eq [of "MESSAGE_LENGTH - 1" "sl_message s" m buf len]
    by (simp add: sleep_inv_def n_def u_def)
  have len_u: "length u = n" by (simp add: u_def)
  have "drop n (sl_message s) = sl_message s ! n # drop (Suc n) (sl_message s)"
    using n assms by (simp add: sleep_inv_def Cons_nth_drop_Suc)
  then have upd: "(u @ drop n (sl_message s))[n := NUL] = u @ NUL # drop (Suc n) (sl_message s)"
    by (simp add: len_u list_update_append)
  have cstr_u: "cstr (u @ NUL # t) = cstr u" for t
    by (induction u) (auto simp: cstr_def)
  show ?thesis
    using loop upd n assms unfolding n_def [symmetric] u_def [symmetric]
    by (simp add: module_input_def sleep_inv_def len_u cstr_u del: One_nat_def)
qed

lemma length_output_text:
  assumes "sleep_inv s"
  shows "length (output_text (sl_message s)) < MESSAGE_LENGTH + 30"
  using assms length_cstr_less [of "sl_message s"]
  by (simp add: output_text_def sleep_inv_def MESSAGE_LENGTH_def)

lemma module_output_eq:
  assumes "sleep_inv s" and "\<not> sl_finished s"
  shows "module_output s m buf len off =
    (let d = take len (output_text (sl_message s))
     in Some (s\<lparr>sl_finished := True\<rparr>, put_str m buf d, off, int (length d)))"
proof -
  let ?t = "output_text (sl_message s)"
  let ?o = "?t @ NUL # drop (Suc (length ?t)) (zeros (MESSAGE_LENGTH + 30))"
  have nul: "NUL \<notin> set ?t" by (simp add: output_text_def)
  have "c_sprintf (zeros (MESSAGE_LENGTH + 30)) ?t = Some ?o"
    using length_output_text [OF assms(1)] by (simp add: c_sprintf_Some)
  moreover have "copy_out_loop ?o 0 m buf len 0 =
      Some (put_str m buf (take len ?t), length (take len ?t))"
    using nul copy_out_loop_eq [of ?o 0 m buf len 0] by simp
  ultimately show ?thesis
    using assms by (simp add: module_output_def sleep_inv_def Let_def)
qed

text \<open>What an open file still has to give: the whole text, or nothing once it has been given.\<close>

definition sleep_rest :: "sleep_file open_file \<Rightarrow> string" where
  "sleep_rest f = (case f of (s, m, off) \<Rightarrow>
     if sl_finished s then [] else output_text (sl_message s))"

definition sleep_ok :: "nat \<Rightarrow> nat \<Rightarrow> sleep_file open_file \<Rightarrow> bool" where
  "sleep_ok buf maxlen f = (case f of (s, m, off) \<Rightarrow> sleep_inv s \<and> mapped m buf maxlen)"

interpretation sleep_reader: seq_reader "vfs_read module_output buf" sleep_rest
    "sleep_ok buf maxlen" "MESSAGE_LENGTH + 30" maxlen for buf maxlen
proof unfold_locales
  fix f n
  assume ok: "sleep_ok buf maxlen f" and rest: "sleep_rest f \<noteq> []"
    and n: "MESSAGE_LENGTH + 30 \<le> n" "n \<le> maxlen"
  obtain s m off where f: "f = (s, m, off)" by (cases f)
  let ?t = "output_text (sl_message s)"
  from ok rest have s: "sleep_inv s" "\<not> sl_finished s" "mapped m buf maxlen"
    by (auto simp: f sleep_ok_def sleep_rest_def split: if_splits)
  have len: "length ?t < n" using length_output_text [OF s(1)] n(1) by simp
  then have "ustr (put_str m buf ?t) buf (length ?t) = ?t"
    using s(3) n(2) by (intro ustr_put_str) (erule mapped_mono, simp)
  then have "vfs_read module_output buf f n =
      Some ((s\<lparr>sl_finished := True\<rparr>, put_str m buf ?t, off), Inr ?t)"
    using module_output_eq [OF s(1,2), of m buf n off] len
    by (simp add: f vfs_read_def Let_def)
  then show "\<exists>f' d. vfs_read module_output buf f n = Some (f', Inr d) \<and> d \<noteq> [] \<and>
      sleep_rest f = d @ sleep_rest f' \<and> sleep_ok buf maxlen f'"
    using s by (auto simp: f sleep_rest_def sleep_ok_def sleep_inv_def output_text_def)
next
  fix f n
  assume "sleep_ok buf maxlen f" and "sleep_rest f = []"
  then show "\<exists>f'. vfs_read module_output buf f n = Some (f', Inr [])"
    by (cases f) (auto simp: sleep_rest_def vfs_read_def module_output_def output_text_def ustr_def
        split: if_splits)
qed

subsection \<open>Opening and closing\<close>

text \<open>
  The signal test of \<open>module_open\<close>: a loop over the words of the pending and blocked masks, whose
  result is stored in an \<open>int\<close>, that is, in 32 bits.
\<close>

fun is_sig_loop :: "64 word list \<Rightarrow> 64 word list \<Rightarrow> 32 word" where
  "is_sig_loop (p # ps) (b # bs) =
     (let is_sig = ucast (p AND NOT b) in if is_sig = 0 then is_sig_loop ps bs else is_sig)"
| "is_sig_loop _ _ = 0"

text \<open>The signals a process has pending that it does not block: what ends an interruptible sleep.\<close>

definition signal_pending :: "64 word list \<Rightarrow> 64 word list \<Rightarrow> bool" where
  "signal_pending ps bs = list_ex (\<lambda>(p, b). p AND NOT b \<noteq> 0) (zip ps bs)"

text \<open>
  Where a process is: not in the file, at the \<open>while (atomic_cmpxchg(...))\<close> of \<open>module_open\<close>, in
  \<open>wait_event_interruptible\<close>, at the signal test after it, in possession of the open file, or in
  \<open>module_close\<close> between \<open>atomic_set\<close> and \<open>wake_up\<close>. The waiting itself has three places: queued and
  about to test the condition (\<open>Prepared\<close>), found it false and about to give up the processor
  (\<open>Scheduling\<close>), and asleep; the first two remember whether the process has been woken since it queued.
\<close>

datatype place = Outside | Trying | Prepared bool | Scheduling bool | Asleep | Awake | Inside | Closing

record sleep_sys =
  ss_already_open :: bool
  ss_place :: "nat \<Rightarrow> place"
  ss_pending :: "nat \<Rightarrow> 64 word list"
  ss_blocked :: "nat \<Rightarrow> 64 word list"

definition sleep_sys_start :: sleep_sys where
  "sleep_sys_start = \<lparr>ss_already_open = False, ss_place = (\<lambda>_. Outside),
     ss_pending = (\<lambda>_. []), ss_blocked = (\<lambda>_. [])\<rparr>"

text \<open>What a step shows: a return value of \<open>module_open\<close> or \<open>module_close\<close> in a process, or nothing.\<close>

datatype sleep_label = Open_Returns nat int | Close_Returns nat int | Silent

definition at :: "sleep_sys \<Rightarrow> nat \<Rightarrow> place \<Rightarrow> sleep_sys" where
  "at s p pl = s\<lparr>ss_place := (ss_place s)(p := pl)\<rparr>"

lemma at_sel [simp]:
  "ss_already_open (at s p pl) = ss_already_open s" "ss_place (at s p pl) = (ss_place s)(p := pl)"
  "ss_pending (at s p pl) = ss_pending s" "ss_blocked (at s p pl) = ss_blocked s"
  by (simp_all add: at_def)

text \<open>
  \<open>wake_up(&waitq)\<close>: everyone in the queue goes on. Who sleeps starts another round of its wait; who has
  not given up the processor yet will not sleep in this round.
\<close>

fun woken :: "place \<Rightarrow> place" where
  "woken Asleep = Prepared False"
| "woken (Prepared _) = Prepared True"
| "woken (Scheduling _) = Scheduling True"
| "woken pl = pl"

definition wake_up :: "sleep_sys \<Rightarrow> sleep_sys" where
  "wake_up s = s\<lparr>ss_place := \<lambda>q. woken (ss_place s q)\<rparr>"

lemma wake_up_sel [simp]:
  "ss_already_open (wake_up s) = ss_already_open s" "ss_place (wake_up s) q = woken (ss_place s q)"
  "ss_pending (wake_up s) = ss_pending s" "ss_blocked (wake_up s) = ss_blocked s"
  by (simp_all add: wake_up_def)

text \<open>
  The steps of the process \<open>p\<close>. \<open>O_NONBLOCK\<close> in the file's flags decides between \<open>open_nonblock\<close> and
  \<open>open_block\<close>. A process that finds the condition true, or a signal, leaves the wait; one that finds
  neither goes to sleep unless it has been woken in between. (The test that \<open>wait_event_interruptible\<close>
  makes before it queues the process is left to the first test after.)
\<close>

inductive module_step :: "nat \<Rightarrow> sleep_sys \<Rightarrow> sleep_label \<Rightarrow> sleep_sys \<Rightarrow> bool" for p where
  open_free: "ss_place s p = Outside \<Longrightarrow>
    atomic_cmpxchg (ss_already_open s) False True = (v, False) \<Longrightarrow>
    module_step p s (Open_Returns p 0) (at (s\<lparr>ss_already_open := v\<rparr>) p Inside)"
| open_nonblock: "ss_place s p = Outside \<Longrightarrow>
    atomic_cmpxchg (ss_already_open s) False True = (v, True) \<Longrightarrow>
    module_step p s (Open_Returns p (- EAGAIN)) (s\<lparr>ss_already_open := v\<rparr>)"
| open_block: "ss_place s p = Outside \<Longrightarrow>
    atomic_cmpxchg (ss_already_open s) False True = (v, True) \<Longrightarrow>
    module_step p s Silent (at (s\<lparr>ss_already_open := v\<rparr>) p Trying)"
| try_free: "ss_place s p = Trying \<Longrightarrow>
    atomic_cmpxchg (ss_already_open s) False True = (v, False) \<Longrightarrow>
    module_step p s (Open_Returns p 0) (at (s\<lparr>ss_already_open := v\<rparr>) p Inside)"
| try_busy: "ss_place s p = Trying \<Longrightarrow>
    atomic_cmpxchg (ss_already_open s) False True = (v, True) \<Longrightarrow>
    module_step p s Silent (at (s\<lparr>ss_already_open := v\<rparr>) p (Prepared False))"
| wait_ends: "ss_place s p = Prepared b \<Longrightarrow>
    \<not> ss_already_open s \<or> signal_pending (ss_pending s p) (ss_blocked s p) \<Longrightarrow>
    module_step p s Silent (at s p Awake)"
| wait_goes_on: "ss_place s p = Prepared b \<Longrightarrow> ss_already_open s \<Longrightarrow>
    \<not> signal_pending (ss_pending s p) (ss_blocked s p) \<Longrightarrow>
    module_step p s Silent (at s p (Scheduling b))"
| sleeps: "ss_place s p = Scheduling False \<Longrightarrow> module_step p s Silent (at s p Asleep)"
| was_woken: "ss_place s p = Scheduling True \<Longrightarrow> module_step p s Silent (at s p (Prepared False))"
| signalled: "ss_place s p = Asleep \<Longrightarrow> signal_pending (ss_pending s p) (ss_blocked s p) \<Longrightarrow>
    module_step p s Silent (at s p (Prepared False))"
| awake_signal: "ss_place s p = Awake \<Longrightarrow> is_sig_loop (ss_pending s p) (ss_blocked s p) \<noteq> 0 \<Longrightarrow>
    module_step p s (Open_Returns p (- EINTR)) (at s p Outside)"
| awake_again: "ss_place s p = Awake \<Longrightarrow> is_sig_loop (ss_pending s p) (ss_blocked s p) = 0 \<Longrightarrow>
    module_step p s Silent (at s p Trying)"
| close_clears: "ss_place s p = Inside \<Longrightarrow>
    module_step p s Silent (at (s\<lparr>ss_already_open := False\<rparr>) p Closing)"
| close_wakes: "ss_place s p = Closing \<Longrightarrow>
    module_step p s (Close_Returns p 0) (at (wake_up s) p Outside)"

text \<open>A step of the system is a step of a process, or a change of the signals of one.\<close>

definition set_signals :: "sleep_sys \<Rightarrow> nat \<Rightarrow> 64 word list \<Rightarrow> 64 word list \<Rightarrow> sleep_sys" where
  "set_signals s p ps bs = s\<lparr>ss_pending := (ss_pending s)(p := ps), ss_blocked := (ss_blocked s)(p := bs)\<rparr>"

lemma set_signals_sel [simp]:
  "ss_already_open (set_signals s p ps bs) = ss_already_open s" "ss_place (set_signals s p ps bs) = ss_place s"
  "ss_pending (set_signals s p ps bs) = (ss_pending s)(p := ps)"
  "ss_blocked (set_signals s p ps bs) = (ss_blocked s)(p := bs)"
  by (simp_all add: set_signals_def)

inductive sleep_step :: "sleep_sys \<Rightarrow> sleep_label \<Rightarrow> sleep_sys \<Rightarrow> bool" where
  process: "module_step p s l t \<Longrightarrow> sleep_step s l t"
| signal: "sleep_step s Silent (set_signals s p ps bs)"

inductive sleep_reach :: "sleep_sys \<Rightarrow> bool" where
  start: "sleep_reach sleep_sys_start"
| step: "sleep_reach s \<Longrightarrow> sleep_step s l t \<Longrightarrow> sleep_reach t"

lemmas sleep_move = sleep_reach.step [OF _ sleep_step.process]

text \<open>
  The flag is set exactly while some process has the file open, and only one has. No wake-up is lost:
  whoever sleeps, or is about to without having been woken, sleeps while the file is open or while
  the wake-up of a process that has closed it is still to come.
\<close>

definition closers :: "sleep_sys \<Rightarrow> nat set" where
  "closers s = {q. ss_place s q = Closing}"

definition sleep_sys_inv :: "sleep_sys \<Rightarrow> bool" where
  "sleep_sys_inv s \<longleftrightarrow> (ss_already_open s \<longleftrightarrow> (\<exists>p. ss_place s p = Inside)) \<and>
     (\<forall>p q. ss_place s p = Inside \<longrightarrow> ss_place s q = Inside \<longrightarrow> p = q)"

definition no_lost_wake_up :: "sleep_sys \<Rightarrow> bool" where
  "no_lost_wake_up s \<longleftrightarrow> finite (closers s) \<and>
     (\<forall>p. ss_place s p \<in> {Asleep, Scheduling False} \<longrightarrow> ss_already_open s \<or> closers s \<noteq> {})"

lemma cmpxchg_flag:
  "atomic_cmpxchg f False True = (v, False) \<longleftrightarrow> \<not> f \<and> v"
  "atomic_cmpxchg f False True = (v, True) \<longleftrightarrow> f \<and> v"
  by (auto simp: atomic_cmpxchg_def)

lemma woken_places [simp]:
  "woken pl = Inside \<longleftrightarrow> pl = Inside" "woken pl = Closing \<longleftrightarrow> pl = Closing"
  "woken pl \<noteq> Asleep" "woken pl \<noteq> Scheduling False"
  by (cases pl; simp)+

definition holders :: "sleep_sys \<Rightarrow> nat set" where
  "holders s = {q. ss_place s q = Inside}"

lemma holders_iff: "p \<in> holders s \<longleftrightarrow> ss_place s p = Inside"
  by (simp add: holders_def)

lemma holders_sel [simp]:
  "holders (at s p pl) = (if pl = Inside then insert p (holders s)
     else if ss_place s p = Inside then holders s - {p} else holders s)"
  "holders (wake_up s) = holders s" "holders (s\<lparr>ss_already_open := v\<rparr>) = holders s"
  "holders (set_signals s p ps bs) = holders s"
  by (auto simp: holders_def)

lemma sleep_sys_inv_holders:
  "sleep_sys_inv s \<longleftrightarrow> (if ss_already_open s then \<exists>p. holders s = {p} else holders s = {})"
proof (cases "ss_already_open s")
  case True
  have "(\<exists>p. ss_place s p = Inside) \<and> (\<forall>p q. ss_place s p = Inside \<longrightarrow> ss_place s q = Inside \<longrightarrow> p = q) \<longleftrightarrow>
      (\<exists>p. holders s = {p})"
  proof (intro iffI; elim conjE exE)
    fix p assume "ss_place s p = Inside" "\<forall>p q. ss_place s p = Inside \<longrightarrow> ss_place s q = Inside \<longrightarrow> p = q"
    then show "\<exists>p. holders s = {p}" by (intro exI [of _ p]) (auto simp: holders_def)
  next
    fix p assume "holders s = {p}"
    then have "ss_place s q = Inside \<longleftrightarrow> q = p" for q using holders_iff [of q s] by simp
    then show "(\<exists>p. ss_place s p = Inside) \<and> (\<forall>p q. ss_place s p = Inside \<longrightarrow> ss_place s q = Inside \<longrightarrow> p = q)"
      by simp
  qed
  with True show ?thesis by (simp add: sleep_sys_inv_def)
next
  case False
  then show ?thesis by (auto simp: sleep_sys_inv_def holders_def)
qed

lemma holders_Inside: "holders s = {q} \<Longrightarrow> ss_place s p = Inside \<Longrightarrow> q = p"
  using holders_iff [of p s] by simp

lemma module_step_inv: "module_step p s l t \<Longrightarrow> sleep_sys_inv s \<Longrightarrow> sleep_sys_inv t"
  unfolding sleep_sys_inv_holders
  by (induction rule: module_step.induct)
    (auto simp: cmpxchg_flag split: if_splits dest: holders_Inside)

lemma closers_sel [simp]:
  "closers (at s p pl) = (if pl = Closing then insert p (closers s) else closers s - {p})"
  "closers (wake_up s) = closers s" "closers (s\<lparr>ss_already_open := v\<rparr>) = closers s"
  "closers (set_signals s p ps bs) = closers s"
  by (auto simp: closers_def)

lemma closers_iff: "p \<in> closers s \<longleftrightarrow> ss_place s p = Closing"
  by (simp add: closers_def)

lemma module_step_no_lost: "module_step p s l t \<Longrightarrow> no_lost_wake_up s \<Longrightarrow> no_lost_wake_up t"
  by (induction rule: module_step.induct)
    (auto simp: no_lost_wake_up_def cmpxchg_flag closers_iff split: if_splits)

lemma sleep_reach_both: "sleep_reach s \<Longrightarrow> sleep_sys_inv s \<and> no_lost_wake_up s"
proof (induction rule: sleep_reach.induct)
  case start
  show ?case by (simp add: sleep_sys_inv_def sleep_sys_start_def no_lost_wake_up_def closers_def)
next
  case (step s l t)
  from step(2) show ?case
  proof cases
    case (process p)
    with step.IH show ?thesis by (blast intro: module_step_inv module_step_no_lost)
  next
    case (signal p ps bs)
    with step.IH show ?thesis by (simp add: sleep_sys_inv_holders no_lost_wake_up_def)
  qed
qed

lemmas sleep_reach_inv = sleep_reach_both [THEN conjunct1]
lemmas sleep_reach_wakes = sleep_reach_both [THEN conjunct2]


text \<open>
  \<open>module_open\<close> of a process that has asked not to wait, on its path to the first two returns; the
  system makes the step.
\<close>

definition module_open_nonblock :: "sleep_sys \<Rightarrow> nat \<Rightarrow> sleep_sys \<times> int" where
  "module_open_nonblock s p =
     (let (v, old) = atomic_cmpxchg (ss_already_open s) False True; s = s\<lparr>ss_already_open := v\<rparr>
      in if \<not> old then (at s p Inside, 0) else (s, - EAGAIN))"

lemma module_open_nonblock_step:
  "ss_place s p = Outside \<Longrightarrow> module_open_nonblock s p = (t, ret) \<Longrightarrow> module_step p s (Open_Returns p ret) t"
  by (cases "ss_already_open s")
    (auto simp: module_open_nonblock_def atomic_cmpxchg_def intro: module_step.open_free module_step.open_nonblock)

text \<open>The signal test reports no signal that is not there, and finds the first 32 signals.\<close>

lemma is_sig_no_signal:
  "\<not> signal_pending ps bs \<Longrightarrow> is_sig_loop ps bs = 0"
  by (induction ps bs rule: is_sig_loop.induct) (auto simp: signal_pending_def Let_def)


subsection \<open>Loading and unloading\<close>

text \<open>For whether \<open>proc_create\<close> made the entry.\<close>

definition sleep_init :: "bool \<Rightarrow> int \<times> kop list" where
  "sleep_init created = (if \<not> created then (- ENOMEM, []) else (0, [Acquire (Proc_Entry ''sleep'')]))"

definition sleep_exit :: "bool \<Rightarrow> kop list" where
  "sleep_exit created = [Release (Proc_Entry ''sleep'')]"

interpretation sleep_mod: module_lifecycle sleep_init sleep_exit "\<lambda>_. {Proc_Entry ''sleep''}" "\<lambda>_. True"
  by unfold_locales (auto simp: sleep_init_def sleep_exit_def split: if_splits)

subsection \<open>The file\<close>

text \<open>
  \<open>file_ops_4_our_proc_file\<close>, on the flag and the message. Among calls that follow one another an open
  that has to wait is the call at the moment it returns: with the file, if that has been closed, and
  otherwise only because of a signal. The table names no owner, and a process may wait inside
  \<open>module_open\<close>, as in \<open>demo_sleepers\<close> below, when \<open>sleep_exit\<close> runs, whose comment warns of it: nothing
  is taken to keep the module in place. The handlers do not use the offset.
\<close>

record sleep_dev =
  sd_already_open :: bool
  sd_file :: sleep_file

definition sleep_dev_start :: sleep_dev where
  "sleep_dev_start = \<lparr>sd_already_open = False, sd_file = sleep_file_start\<rparr>"

definition module_open :: "bool \<Rightarrow> sleep_dev \<Rightarrow> sleep_dev \<times> int" where
  "module_open nonblock d =
     (let (v, old) = atomic_cmpxchg (sd_already_open d) False True; d = d\<lparr>sd_already_open := v\<rparr>
      in if \<not> old then (d, 0) else if nonblock then (d, - EAGAIN) else (d, - EINTR))"

definition module_close :: "sleep_dev \<Rightarrow> sleep_dev \<times> int" where
  "module_close d = (d\<lparr>sd_already_open := False\<rparr>, 0)"

definition sleep_read :: "sleep_dev read_handler" where
  "sleep_read d m buf n off =
     map_option (\<lambda>(s, m, off, ret). (d\<lparr>sd_file := s\<rparr>, m, off, ret)) (module_output (sd_file d) m buf n off)"

definition sleep_write :: "sleep_dev write_handler" where
  "sleep_write d m buf n off =
     map_option (\<lambda>(s, ret). (d\<lparr>sd_file := s\<rparr>, off, ret)) (module_input (sd_file d) m buf n)"

definition sleep_fops :: "(bool, sleep_dev) file_operations" where
  "sleep_fops =
     \<lparr>fop_owner = NO_OWNER, fop_llseek = Some noop_llseek, fop_read = Some sleep_read, fop_write = Some sleep_write,
      fop_open = Some (\<lambda>nonblock d. Some (module_open nonblock d)), fop_release = Some module_close\<rparr>"

lemma sleep_calls [simp]:
  "call_read sleep_fops = sleep_read" "call_write sleep_fops = sleep_write"
  by (simp_all add: sleep_fops_def fop_calls)

lemma module_output_call:
  assumes s: "sleep_inv s"
  shows "\<exists>s' m' off' ret. module_output s m buf n off = Some (s', m', off', ret) \<and> sleep_inv s' \<and>
    confined m m' buf n \<and> ret \<le> int n"
proof (cases "sl_finished s")
  case True
  with s show ?thesis by (simp add: module_output_def sleep_inv_def)
next
  case False
  have len: "length (output_text (sl_message s)) < MESSAGE_LENGTH + 30"
    using length_output_text [OF s] by simp
  let ?t = "output_text (sl_message s)"
  let ?z = "zeros (MESSAGE_LENGTH + 30)"
  let ?o = "?t @ NUL # drop (Suc (length ?t)) ?z"
  have out: "c_sprintf ?z ?t = Some ?o"
    using len by (intro c_sprintf_Some) (simp add: zeros_def)
  obtain m' i where "copy_out_loop ?o 0 m buf n 0 = Some (m', i)" "i \<le> n" "confined m m' buf n"
    using copy_out_loop_confined [of 0 "length ?t" ?o m buf n 0] by auto
  with False s out show ?thesis by (simp add: module_output_def sleep_inv_def)
qed

interpretation sleep_io: io_device sleep_read sleep_write "\<lambda>d. sleep_inv (sd_file d)" "\<lambda>off s. True"
proof unfold_locales
  fix d :: sleep_dev and m buf n and off :: int
  assume "sleep_inv (sd_file d)"
  from module_output_call [OF this, of m buf n off] show "\<exists>d' m' off' ret. sleep_read d m buf n off =
      Some (d', m', off', ret) \<and> sleep_inv (sd_file d') \<and> True \<and> confined m m' buf n \<and> ret \<le> int n"
    by (auto simp: sleep_read_def)
next
  fix d :: sleep_dev and m buf n and off :: int
  assume "sleep_inv (sd_file d)"
  from module_input_eq [OF this, of m buf n] show "\<exists>d' off' ret. sleep_write d m buf n off =
      Some (d', off', ret) \<and> sleep_inv (sd_file d') \<and> True \<and> ret \<le> int n"
    by (auto simp: sleep_write_def)
qed simp

text \<open>The flag says whether the file is open, and it is open at most once.\<close>

interpretation sleep_dev: file_device sleep_fops "\<lambda>d. sleep_inv (sd_file d)" "\<lambda>off s. True"
    "\<lambda>k d. k \<le> 1 \<and> (sd_already_open d \<longleftrightarrow> k = 1)" True sleep_dev_start
  by (rule file_device.intro, simp only: sleep_calls, rule sleep_io.io_device_axioms, unfold_locales)
    (auto simp: sleep_fops_def fop_calls sleep_inv_def sleep_file_start_def MESSAGE_LENGTH_def sleep_dev_start_def
      module_open_def module_close_def atomic_cmpxchg_def sleep_read_def sleep_write_def Let_def)

subsection \<open>Properties\<close>

text \<open>
  C11: at any time at most one process has the file open and \<open>already_open\<close> says whether one has,
  whatever the interleaving of opens, waits, wake-ups, signals and closes.
\<close>

theorem sleep_mutual_exclusion:
  assumes "sleep_reach s"
  shows "(ss_already_open s \<longleftrightarrow> (\<exists>p. ss_place s p = Inside)) \<and>
    (ss_place s p = Inside \<longrightarrow> ss_place s q = Inside \<longrightarrow> p = q)"
  using sleep_reach_inv [OF assms] unfolding sleep_sys_inv_def by blast

text \<open>
  The state in which process 1 has the file and process 2 is asleep, inside \<open>module_open\<close>: nothing in
  \<open>sleep_exit\<close> looks for it.
\<close>

definition demo_sleepers :: sleep_sys where
  "demo_sleepers = at (at (sleep_sys_start\<lparr>ss_already_open := True\<rparr>) 1 Inside) 2 Asleep"

lemma demo_sleepers_sel [simp]:
  "ss_already_open demo_sleepers" "ss_place demo_sleepers (Suc 0) = Inside" "ss_place demo_sleepers 2 = Asleep"
  "ss_place demo_sleepers 3 = Outside" "ss_pending demo_sleepers = (\<lambda>_. [])" "ss_blocked demo_sleepers = (\<lambda>_. [])"
  by (simp_all add: demo_sleepers_def sleep_sys_start_def)

lemma flag_same: "ss_already_open s \<Longrightarrow> s\<lparr>ss_already_open := True\<rparr> = s"
  by (cases s) simp

lemma at_at: "at (at s p pl) p pl' = at s p pl'"
  by (cases s) (simp add: at_def)

lemma demo_sleepers_reach: "sleep_reach demo_sleepers"
proof -
  let ?a = "at (sleep_sys_start\<lparr>ss_already_open := True\<rparr>) 1 Inside"
  have open_a: "ss_already_open (at ?a 2 pl)" for pl by simp
  have "module_step 1 sleep_sys_start (Open_Returns 1 0) ?a"
    by (rule module_step.open_free) (simp_all add: sleep_sys_start_def)
  then have a: "sleep_reach ?a" by (rule sleep_move [OF sleep_reach.start])
  have "module_step 2 ?a Silent (at (?a\<lparr>ss_already_open := True\<rparr>) 2 Trying)"
    by (rule module_step.open_block) (simp_all add: sleep_sys_start_def)
  then have "sleep_reach (at ?a 2 Trying)" using sleep_move [OF a] by (simp add: flag_same)
  moreover have "module_step 2 (at ?a 2 Trying) Silent (at (at ?a 2 Trying\<lparr>ss_already_open := True\<rparr>) 2 (Prepared False))"
    by (rule module_step.try_busy) simp_all
  ultimately have "sleep_reach (at ?a 2 (Prepared False))" using sleep_move by (simp add: flag_same at_at)
  moreover have "module_step 2 (at ?a 2 (Prepared False)) Silent (at (at ?a 2 (Prepared False)) 2 (Scheduling False))"
    by (rule module_step.wait_goes_on) (simp_all add: sleep_sys_start_def signal_pending_def)
  ultimately have "sleep_reach (at ?a 2 (Scheduling False))" using sleep_move by (simp add: at_at)
  moreover have "module_step 2 (at ?a 2 (Scheduling False)) Silent (at (at ?a 2 (Scheduling False)) 2 Asleep)"
    by (rule module_step.sleeps) simp
  ultimately show ?thesis unfolding demo_sleepers_def using sleep_move by (simp add: at_at)
qed

theorem sleep_mutual_exclusion_witness:
  "ss_already_open demo_sleepers \<and> {q. ss_place demo_sleepers q = Inside} = {1}"
proof -
  have "q = 1" if "ss_place demo_sleepers q = Inside" for q
    using sleep_mutual_exclusion [OF demo_sleepers_reach, of q 1] that by simp
  moreover have "ss_already_open demo_sleepers"
    using sleep_mutual_exclusion [OF demo_sleepers_reach, of 1 1] by simp
  ultimately show ?thesis by auto
qed

text \<open>
  What happens between the close of the file and the return of a waiting open in the process \<open>p\<close>, as
  long as nobody takes the file and \<open>p\<close> gets no signal: steps that serve \<open>p\<close>, which are its own and the
  wake-ups of those that have closed the file, and any other steps of the other processes.
\<close>

definition serves :: "nat \<Rightarrow> nat \<Rightarrow> sleep_sys \<Rightarrow> bool" where
  "serves p q s \<longleftrightarrow> q = p \<or> ss_place s q = Closing"

definition waiting :: "place \<Rightarrow> bool" where
  "waiting pl \<longleftrightarrow> pl \<noteq> Outside \<and> pl \<noteq> Inside \<and> pl \<noteq> Closing"

inductive wait_run :: "nat \<Rightarrow> sleep_sys \<Rightarrow> nat \<Rightarrow> sleep_sys \<Rightarrow> bool" for p s where
  begins: "wait_run p s 0 s"
| served: "wait_run p s n t \<Longrightarrow> waiting (ss_place t p) \<Longrightarrow> serves p q t \<Longrightarrow> module_step q t l u \<Longrightarrow>
    wait_run p s (Suc n) u"
| others: "wait_run p s n t \<Longrightarrow> waiting (ss_place t p) \<Longrightarrow> \<not> serves p q t \<Longrightarrow> module_step q t l u \<Longrightarrow>
    \<not> ss_already_open u \<Longrightarrow> wait_run p s n u"
| signals: "wait_run p s n t \<Longrightarrow> q \<noteq> p \<Longrightarrow> wait_run p s n (set_signals t q ps bs)"

text \<open>How many steps that serve a process there can be before it has the file.\<close>

fun place_left :: "place \<Rightarrow> nat" where
  "place_left (Scheduling False) = 5"
| "place_left Asleep = 4"
| "place_left (Scheduling True) = 4"
| "place_left (Prepared _) = 3"
| "place_left Awake = 2"
| "place_left Trying = 1"
| "place_left _ = 0"

definition wait_left :: "nat \<Rightarrow> sleep_sys \<Rightarrow> nat" where
  "wait_left p s = place_left (ss_place s p) + card (closers s)"

text \<open>The file is free, and \<open>p\<close> waits for it without a signal; or it has got it.\<close>

definition wait_inv :: "nat \<Rightarrow> sleep_sys \<Rightarrow> bool" where
  "wait_inv p s \<longleftrightarrow> no_lost_wake_up s \<and> \<not> signal_pending (ss_pending s p) (ss_blocked s p) \<and>
     sleep_sys_inv s \<and> (ss_place s p = Inside \<or> waiting (ss_place s p) \<and> \<not> ss_already_open s)"

lemma place_left_woken: "place_left (woken pl) \<le> place_left pl"
  by (cases pl rule: place_left.cases) simp_all

lemma waiting_woken: "waiting (woken pl) \<longleftrightarrow> waiting pl"
  by (cases pl) (simp_all add: waiting_def)

lemma module_step_signals: "module_step q s l t \<Longrightarrow> ss_pending t = ss_pending s \<and> ss_blocked t = ss_blocked s"
  by (induction rule: module_step.induct) simp_all

text \<open>The own steps of the waiting process, and the wake-ups.\<close>

lemma own_step:
  assumes "module_step p s l t" and "wait_inv p s" and "waiting (ss_place s p)"
  shows "wait_left p t < wait_left p s \<and> (ss_place t p = Inside \<or> waiting (ss_place t p) \<and> \<not> ss_already_open t)"
proof -
  have free: "is_sig_loop (ss_pending s p) (ss_blocked s p) = 0" "\<not> ss_already_open s"
    "\<not> signal_pending (ss_pending s p) (ss_blocked s p)"
    using assms(2,3) is_sig_no_signal by (auto simp: wait_inv_def waiting_def)
  have "p \<notin> closers s" using assms(3) by (simp add: closers_iff waiting_def)
  with assms(1) free assms(3) show ?thesis
    by (induction rule: module_step.induct) (simp_all add: cmpxchg_flag wait_left_def waiting_def)
qed

lemma wake_step:
  assumes "module_step q s l t" and "wait_inv p s" and "ss_place s q = Closing" and "q \<noteq> p" and "waiting (ss_place s p)"
  shows "wait_left p t < wait_left p s \<and> waiting (ss_place t p) \<and> \<not> ss_already_open t"
proof -
  have q: "q \<in> closers s" "finite (closers s)" "\<not> ss_already_open s"
    using assms(2,3,5) by (simp_all add: closers_iff wait_inv_def no_lost_wake_up_def waiting_def)
  then have "card (closers s - {q}) < card (closers s)" by (intro psubset_card_mono) auto
  moreover from assms(1,3) have "t = at (wake_up s) q Outside" by cases simp_all
  ultimately show ?thesis using assms(4,5) q(3) place_left_woken [of "ss_place s p"]
    by (simp add: wait_left_def waiting_woken)
qed

lemma other_step:
  assumes "module_step q s l t" and "\<not> serves p q s" and "wait_inv p s" and "waiting (ss_place s p)"
    and "\<not> ss_already_open t"
  shows "wait_left p t \<le> wait_left p s \<and> waiting (ss_place t p) \<and> \<not> ss_already_open t"
proof -
  have "\<not> ss_already_open s" "holders s = {}" using assms(3,4)
    by (auto simp: wait_inv_def waiting_def sleep_sys_inv_holders split: if_splits)
  then have "ss_place s q \<noteq> Inside" "q \<noteq> p" "q \<notin> closers s"
    using assms(2) by (auto simp: serves_def holders_def closers_iff)
  with assms(1,4,5) show ?thesis
    by (induction rule: module_step.induct) (simp_all add: wait_left_def serves_def closers_iff)
qed

lemma wait_run_inv:
  assumes "wait_run p s n t" and "wait_inv p s"
  shows "wait_inv p t \<and> n + wait_left p t \<le> wait_left p s"
  using assms(1)
proof (induction rule: wait_run.induct)
  case begins
  with assms(2) show ?case by simp
next
  case (served n t q l u)
  have "ss_place u p = Inside \<or> waiting (ss_place u p) \<and> \<not> ss_already_open u" "wait_left p u < wait_left p t"
  proof -
    have "(ss_place u p = Inside \<or> waiting (ss_place u p) \<and> \<not> ss_already_open u) \<and> wait_left p u < wait_left p t"
    proof (cases "q = p")
      case True
      with own_step [of p t l u] served show ?thesis by simp
    next
      case False
      with wake_step [of q t l u p] served show ?thesis by (simp add: serves_def)
    qed
    then show "ss_place u p = Inside \<or> waiting (ss_place u p) \<and> \<not> ss_already_open u"
      "wait_left p u < wait_left p t" by blast+
  qed
  then show ?case
    using served module_step_inv [of q t l u] module_step_no_lost [of q t l u] module_step_signals [of q t l u]
    by (simp add: wait_inv_def)
next
  case (others n t q l u)
  with other_step [of q t l u p] show ?case
    using module_step_inv [of q t l u] module_step_no_lost [of q t l u] module_step_signals [of q t l u]
    by (simp add: wait_inv_def)
next
  case (signals n t q ps bs)
  then show ?case by (simp add: wait_inv_def no_lost_wake_up_def sleep_sys_inv_holders wait_left_def)
qed

text \<open>A waiting process, or someone who has closed the file, can always make a step.\<close>

lemma wait_progress:
  assumes "wait_inv p s" and "waiting (ss_place s p)"
  shows "\<exists>q l t. serves p q s \<and> module_step q s l t"
proof -
  have own: ?thesis if "module_step p s l t" for l t using that unfolding serves_def by blast
  have flag: "\<not> ss_already_open s" and sig: "is_sig_loop (ss_pending s p) (ss_blocked s p) = 0"
    using assms is_sig_no_signal by (auto simp: wait_inv_def waiting_def)
  show ?thesis
  proof (cases "ss_place s p")
    case Trying
    from own [OF module_step.try_free [OF this, of True]] flag show ?thesis by (simp add: cmpxchg_flag)
  next
    case (Prepared b)
    from own [OF module_step.wait_ends [OF this]] flag show ?thesis by blast
  next
    case (Scheduling b)
    with own [OF module_step.sleeps] own [OF module_step.was_woken] show ?thesis by (cases b) simp_all
  next
    case Asleep
    with assms(1) flag obtain q where "ss_place s q = Closing"
      by (auto simp: wait_inv_def no_lost_wake_up_def closers_def)
    with module_step.close_wakes [OF this] show ?thesis unfolding serves_def by blast
  next
    case Awake
    from own [OF module_step.awake_again [OF this sig]] show ?thesis .
  qed (use assms(2) in \<open>simp_all add: waiting_def\<close>)
qed

lemma wait_completes:
  "wait_inv p s \<Longrightarrow> \<exists>n t. wait_run p r (m + n) t \<and> ss_place t p = Inside" if "wait_run p r m s"
  using that
proof (induction "wait_left p s" arbitrary: s m rule: less_induct)
  case less
  show ?case
  proof (cases "waiting (ss_place s p)")
    case True
    from wait_progress [OF less.prems(1) True] obtain q l t where t: "serves p q s" "module_step q s l t" by blast
    have one: "wait_run p s 1 t" using wait_run.served [OF wait_run.begins True t] by simp
    have "wait_inv p t" "wait_left p t < wait_left p s" using wait_run_inv [OF one less.prems(1)] by simp_all
    from less.hyps [OF this(2) this(1) wait_run.served [OF less.prems(2) True t]] obtain n u where
      "wait_run p r (Suc m + n) u" "ss_place u p = Inside" by blast
    then show ?thesis by (intro exI [of _ "Suc n"] exI [of _ u]) simp
  next
    case False
    with less.prems show ?thesis by (intro exI [of _ 0] exI [of _ s]) (simp add: wait_inv_def)
  qed
qed

text \<open>
  C12: nobody waits for ever for a file that is closed. Let a process wait for the file, wherever in
  its wait it is, while the file is not open and the process has no signal, and let any steps of any
  processes follow, as long as nobody else takes the file. Then it has the file after at most five steps
  of its own and one, the wake-up, of each process that has cleared the flag and has not woken the others
  yet; until then there is always such a step to make; and making them leads to it.
\<close>

theorem sleep_waiter_served:
  assumes "sleep_reach s" and "\<not> ss_already_open s" and "waiting (ss_place s p)"
    and "\<not> signal_pending (ss_pending s p) (ss_blocked s p)"
  shows "(\<forall>n t. wait_run p s n t \<longrightarrow> n \<le> 5 + card (closers s) \<and>
      (ss_place t p = Inside \<or> (\<exists>q l u. serves p q t \<and> module_step q t l u \<and> wait_run p s (Suc n) u))) \<and>
    (\<exists>n t. wait_run p s n t \<and> ss_place t p = Inside)"
proof -
  have I: "wait_inv p s"
    using assms sleep_reach_both [OF assms(1)] by (simp add: wait_inv_def)
  have "place_left pl \<le> 5" for pl by (cases pl rule: place_left.cases) simp_all
  then have left: "wait_left p s \<le> 5 + card (closers s)" by (simp add: wait_left_def)
  have "n \<le> 5 + card (closers s) \<and>
      (ss_place t p = Inside \<or> (\<exists>q l u. serves p q t \<and> module_step q t l u \<and> wait_run p s (Suc n) u))"
    if run: "wait_run p s n t" for n t
  proof -
    from wait_run_inv [OF run I] have t: "wait_inv p t" "n \<le> wait_left p s" by simp_all
    have "\<exists>q l u. serves p q t \<and> module_step q t l u \<and> wait_run p s (Suc n) u" if "ss_place t p \<noteq> Inside"
    proof -
      have w: "waiting (ss_place t p)" using t(1) that by (simp add: wait_inv_def)
      with wait_progress [OF t(1) w] wait_run.served [OF run w] show ?thesis by blast
    qed
    with t(2) left show ?thesis by auto
  qed
  moreover have "\<exists>n t. wait_run p s n t \<and> ss_place t p = Inside"
    using wait_completes [OF wait_run.begins I] by simp
  ultimately show ?thesis by blast
qed

theorem sleep_waiter_served_witness:
  "\<exists>s n t. sleep_reach s \<and> closers s = {1} \<and> ss_place s 2 = Asleep \<and> wait_run 2 s n t \<and> ss_place t 2 = Inside"
proof -
  let ?s = "at (demo_sleepers\<lparr>ss_already_open := False\<rparr>) 1 Closing"
  have "module_step 1 demo_sleepers Silent ?s" by (rule module_step.close_clears) simp
  then have s: "sleep_reach ?s" by (rule sleep_move [OF demo_sleepers_reach])
  have "closers ?s = {1}" by (auto simp: closers_def demo_sleepers_def sleep_sys_start_def)
  moreover have "ss_place ?s 2 = Asleep" by simp
  moreover have "\<exists>n t. wait_run 2 ?s n t \<and> ss_place t 2 = Inside"
    using sleep_waiter_served [OF s, of 2] by (simp add: waiting_def signal_pending_def)
  ultimately show ?thesis using s by blast
qed



text \<open>
  What a process writes to the file (up to 79 bytes, no NUL) is what a reader sees, in one line
  after \<open>Last input:\<close>.
\<close>

theorem sleep_input_then_cat:
  assumes "sleep_inv s" and "\<not> sl_finished s" and "len < MESSAGE_LENGTH"
    and "NUL \<notin> set (ustr m buf len)" and "mapped m2 rbuf MAX_BYTES"
  shows "\<exists>s'. module_input s m buf len = Some (s', int len) \<and>
    cat_main 2 argv0 (vfs_read module_output rbuf) (Inr (s', m2, 0)) =
      Some (''Last input:'' @ ustr m buf len @ [LF], EXIT_SUCCESS)"
proof -
  from module_input_eq [OF assms(1), of m buf len] assms(3) obtain s' where s':
    "module_input s m buf len = Some (s', int len)" "sleep_inv s'" "sl_finished s' = sl_finished s"
    "cstr (sl_message s') = cstr (ustr m buf len)"
    by (auto simp: min_def MESSAGE_LENGTH_def split: if_splits)
  have "cstr (ustr m buf len) = ustr m buf len"
    using cstr_append [OF assms(4), of "[]"] by (simp add: cstr_def)
  then have "sleep_rest (s', m2, 0) = ''Last input:'' @ ustr m buf len @ [LF]"
    using s'(3,4) assms(2) by (simp add: sleep_rest_def output_text_def)
  moreover have "sleep_ok rbuf MAX_BYTES (s', m2, 0)"
    using s'(2) assms(5) by (simp add: sleep_ok_def)
  ultimately show ?thesis
    using sleep_reader.cat_main_prints [of rbuf MAX_BYTES "(s', m2, 0)" argv0] s'(1)
    by (simp add: MESSAGE_LENGTH_def MAX_BYTES_def)
qed

theorem sleep_input_then_cat_witness:
  "\<exists>s'. module_input sleep_file_start (demo_umem ''hello'') 0 5 = Some (s', 5) \<and>
    cat_main 2 [] (vfs_read module_output 0) (Inr (s', \<lambda>a. Some NUL, 0)) =
      Some (''Last input:hello'' @ [LF], EXIT_SUCCESS)"
proof -
  have u: "ustr (demo_umem ''hello'') 0 5 = ''hello''"
    using ustring_ustr [OF demo_umem_ustring [of "''hello''"], of 5] by (simp add: numeral_eq_Suc)
  show ?thesis
    using sleep_input_then_cat [OF sleep_start_inv, of 5 "demo_umem ''hello''" 0 "\<lambda>a. Some NUL" 0 "[]"]
    unfolding u by (simp add: sleep_file_start_def MESSAGE_LENGTH_def mapped_def)
qed

text \<open>
  C13: a process that runs cat_nonblock on the file never waits, whatever the others are doing. If none of
  them has the file open it gets it, prints the last input and succeeds; if one has, the open fails with
  \<open>EAGAIN\<close> and changes nothing, and the program says that it would block and fails. (The text is printed
  unless an earlier reader has left without reading to the end.)
\<close>

theorem sleep_cat_never_waits:
  assumes "sleep_reach s" and "ss_place s p = Outside" and "sleep_inv f" and "mapped m buf MAX_BYTES"
    and "module_open_nonblock s p = (t, ret)"
  shows "sleep_step s (Open_Returns p ret) t \<and>
    (if \<exists>q. ss_place s q = Inside
     then ret = - EAGAIN \<and> t = s \<and>
       cat_main 2 prog (vfs_read module_output buf) (Inl (- ret)) = Some (''Open would block'' @ [LF], EXIT_FAILURE)
     else ret = 0 \<and> ss_place t p = Inside \<and>
       cat_main 2 prog (vfs_read module_output buf) (Inr (f, m, 0)) =
         Some (if sl_finished f then [] else ''Last input:'' @ cstr (sl_message f) @ [LF], EXIT_SUCCESS))"
proof -
  have step: "sleep_step s (Open_Returns p ret) t"
    by (rule sleep_step.process [OF module_open_nonblock_step [OF assms(2,5)]])
  have flag: "ss_already_open s \<longleftrightarrow> (\<exists>q. ss_place s q = Inside)"
    using sleep_reach_inv [OF assms(1)] by (simp add: sleep_sys_inv_def)
  show ?thesis
  proof (cases "ss_already_open s")
    case True
    then have "ret = - EAGAIN" "t = s"
      using assms(5) by (auto simp: module_open_nonblock_def atomic_cmpxchg_def)
    with step flag True show ?thesis by (auto simp: cat_main_def puts_def)
  next
    case False
    then have t: "ret = 0" "t = at (s\<lparr>ss_already_open := True\<rparr>) p Inside"
      using assms(5) by (auto simp: module_open_nonblock_def atomic_cmpxchg_def)
    have "sleep_ok buf MAX_BYTES (f, m, 0)" using assms(3,4) by (simp add: sleep_ok_def)
    from sleep_reader.cat_main_prints [OF this, of prog] have
      "cat_main 2 prog (vfs_read module_output buf) (Inr (f, m, 0)) =
         Some (if sl_finished f then [] else ''Last input:'' @ cstr (sl_message f) @ [LF], EXIT_SUCCESS)"
      by (simp add: MESSAGE_LENGTH_def MAX_BYTES_def sleep_rest_def output_text_def)
    with step flag False t show ?thesis by (simp add: at_def)
  qed
qed

theorem sleep_cat_never_waits_witness:
  "\<exists>t ret. module_open_nonblock demo_sleepers 3 = (t, ret) \<and>
    cat_main 2 [] (vfs_read module_output 0) (Inl (- ret)) = Some (''Open would block'' @ [LF], EXIT_FAILURE)"
proof -
  obtain t ret where o: "module_open_nonblock demo_sleepers 3 = (t, ret)" by (cases "module_open_nonblock demo_sleepers 3")
  have "ss_place demo_sleepers 3 = Outside" "\<exists>q. ss_place demo_sleepers q = Inside"
    by (auto simp: demo_sleepers_def at_def sleep_sys_start_def)
  moreover have "mapped (\<lambda>a. Some NUL) 0 MAX_BYTES" by (simp add: mapped_def)
  ultimately show ?thesis
    using sleep_cat_never_waits [OF demo_sleepers_reach _ sleep_start_inv _ o, of "\<lambda>a. Some NUL" 0 "[]"] o by auto
qed

end
