(* ===== verification/Blkram.thy ===== *)
theory Blkram
  imports Lifecycle
begin

text \<open>
  examples/blkram.c: a block device kept in memory. A request has a direction, a first sector and a
  list of segments of pages; the driver copies each segment to or from its buffer at a running offset.
  Offsets are 64-bit and segment lengths 32-bit machine integers, as in the code. A copy that leaves
  the buffer or a page is the result \<open>None\<close>.
\<close>

definition BLKRAM_SECTOR_SIZE :: "64 word" where "BLKRAM_SECTOR_SIZE = 512"

subsection \<open>Requests\<close>

datatype blk_status = BLK_STS_OK | BLK_STS_IOERR

datatype rq_dir = READ | WRITE

text \<open>A \<open>struct bio_vec\<close>, with the contents of its page.\<close>

record bio_vec =
  bv_page :: "8 word list"
  bv_offset :: nat
  bv_len :: "32 word"

record request =
  rq_pos :: "64 word"
  rq_data_dir :: rq_dir
  rq_passthrough :: bool
  rq_segs :: "bio_vec list"

text \<open>The part of \<open>struct blkram_dev\<close> that requests use.\<close>

record blkram_dev =
  bd_data :: "8 word list"
  bd_size :: "64 word"

text \<open>Read \<open>n\<close> bytes from position \<open>i\<close>.\<close>

definition slice_at :: "'a list \<Rightarrow> nat \<Rightarrow> nat \<Rightarrow> 'a list option" where
  "slice_at xs i n = (if i + n \<le> length xs then Some (take n (drop i xs)) else None)"

definition memcpy_to :: "blkram_dev \<Rightarrow> nat \<Rightarrow> bio_vec \<Rightarrow> blkram_dev option" where
  "memcpy_to d off bv =
     (case slice_at (bv_page bv) (bv_offset bv) (unat (bv_len bv)) of
        None \<Rightarrow> None
      | Some bs \<Rightarrow> map_option (\<lambda>data. d\<lparr>bd_data := data\<rparr>) (blit (bd_data d) off bs))"

definition memcpy_from :: "blkram_dev \<Rightarrow> nat \<Rightarrow> bio_vec \<Rightarrow> bio_vec option" where
  "memcpy_from d off bv =
     (case slice_at (bd_data d) off (unat (bv_len bv)) of
        None \<Rightarrow> None
      | Some bs \<Rightarrow> map_option (\<lambda>page. bv\<lparr>bv_page := page\<rparr>) (blit (bv_page bv) (bv_offset bv) bs))"

text \<open>The loop of \<open>blkram_transfer\<close> over the request's segments.\<close>

fun transfer_loop ::
    "rq_dir \<Rightarrow> blkram_dev \<Rightarrow> 64 word \<Rightarrow> bio_vec list \<Rightarrow>
     (blkram_dev \<times> bio_vec list \<times> blk_status) option" where
  "transfer_loop dir d offset [] = Some (d, [], BLK_STS_OK)"
| "transfer_loop dir d offset (bv # bvs) =
     (let len = bv_len bv
      in if offset + ucast len > bd_size d then Some (d, bv # bvs, BLK_STS_IOERR)
         else
           (case (if dir = WRITE
                  then map_option (\<lambda>d. (d, bv)) (memcpy_to d (unat offset) bv)
                  else map_option (\<lambda>bv. (d, bv)) (memcpy_from d (unat offset) bv)) of
              None \<Rightarrow> None
            | Some (d, bv) \<Rightarrow>
                map_option (\<lambda>(d, bvs, st). (d, bv # bvs, st))
                  (transfer_loop dir d (offset + ucast len) bvs)))"

definition blkram_transfer ::
    "blkram_dev \<Rightarrow> request \<Rightarrow> (blkram_dev \<times> request \<times> blk_status) option" where
  "blkram_transfer d rq =
     map_option (\<lambda>(d, bvs, st). (d, rq\<lparr>rq_segs := bvs\<rparr>, st))
       (transfer_loop (rq_data_dir rq) d (rq_pos rq * BLKRAM_SECTOR_SIZE) (rq_segs rq))"

text \<open>
  \<open>blkram_queue_rq\<close>: what it tells the block layer about the request, and its own return value.
\<close>

datatype rq_event = Start_Request | End_Request blk_status

definition blkram_queue_rq ::
    "blkram_dev \<Rightarrow> request \<Rightarrow> (blkram_dev \<times> request \<times> rq_event list \<times> blk_status) option" where
  "blkram_queue_rq d rq =
     map_option (\<lambda>(d, rq, st). (d, rq, [Start_Request, End_Request st], BLK_STS_OK))
       (if rq_passthrough rq then Some (d, rq, BLK_STS_IOERR) else blkram_transfer d rq)"

subsection \<open>Loading and unloading\<close>

text \<open>The size in bytes and the capacity in sectors, for the module parameter \<open>blkram_mb\<close>.\<close>

definition blkram_size :: "64 word \<Rightarrow> 64 word" where
  "blkram_size mb = mb * 1024 * 1024"

definition blkram_sectors :: "64 word \<Rightarrow> 64 word" where
  "blkram_sectors mb = blkram_size mb div BLKRAM_SECTOR_SIZE"

definition blkram_start :: "64 word \<Rightarrow> blkram_dev" where
  "blkram_start mb = \<lparr>bd_data = replicate (unat (blkram_size mb)) 0, bd_size = blkram_size mb\<rparr>"

text \<open>
  The kernel's version and its answers. The fields for objects that a version does not create are not
  looked at.
\<close>

record blkram_env =
  br_ver :: nat
  br_major :: int
  br_kzalloc :: bool
  br_vzalloc :: bool
  br_tag_set :: int
  br_queue :: "unit err_ptr"
  br_alloc_disk :: bool
  br_disk :: "unit err_ptr"
  br_add_disk :: int

abbreviation "blkram_dev_r \<equiv> Heap ''blkram''"
abbreviation "blkram_data_r \<equiv> Heap ''blkram->data''"
abbreviation "blkram_tags_r \<equiv> Tag_Set ''blkram''"

text \<open>The labels at the end of \<open>blkram_init\<close>, each falling through to the next.\<close>

definition err_unreg :: "kop list" where
  "err_unreg = [Release (Blkdev ''blkram'')]"

definition err_free_dev :: "kop list" where
  "err_free_dev = Release blkram_dev_r # err_unreg"

definition err_free_data :: "kop list" where
  "err_free_data = Release blkram_data_r # err_free_dev"

definition err_tag_set :: "kop list" where
  "err_tag_set = Release blkram_tags_r # err_free_data"

definition err_cleanup_queue :: "nat \<Rightarrow> kop list" where
  "err_cleanup_queue ver =
     (if ver < KERNEL_VERSION 5 15 0 then [Release (Queue ''blkram'')] else []) @ err_tag_set"

definition err_put_disk :: "nat \<Rightarrow> kop list" where
  "err_put_disk ver = Release (Disk ''blkram0'') # err_cleanup_queue ver"

text \<open>Creating the disk, in the three ways the kernel versions know: a return value and the steps.\<close>

definition make_disk :: "blkram_env \<Rightarrow> int \<times> kop list" where
  "make_disk e =
     (if br_ver e \<ge> KERNEL_VERSION 6 9 0 then
        (case br_disk e of
           ERR_PTR err \<Rightarrow> (err, err_tag_set)
         | Ptr _ \<Rightarrow> (0, [Acquire (Disk ''blkram0'')]))
      else if br_ver e \<ge> KERNEL_VERSION 5 15 0 then
        (case br_disk e of
           ERR_PTR err \<Rightarrow> (err, err_tag_set)
         | Ptr _ \<Rightarrow> (0, [Acquire (Disk ''blkram0'')]))
      else
        (case br_queue e of
           ERR_PTR err \<Rightarrow> (err, err_tag_set)
         | Ptr _ \<Rightarrow>
             if \<not> br_alloc_disk e then
               (- ENOMEM, Acquire (Queue ''blkram'') # err_cleanup_queue (br_ver e))
             else (0, [Acquire (Queue ''blkram''), Acquire (Disk ''blkram0'')])))"

definition blkram_init :: "blkram_env \<Rightarrow> int \<times> kop list" where
  "blkram_init e =
     (let blkram_major = br_major e; ks = [Acquire (Blkdev ''blkram'')]
      in if blkram_major < 0 then (blkram_major, [])
         else if \<not> br_kzalloc e then (- ENOMEM, ks @ err_unreg)
         else (let ks = ks @ [Acquire blkram_dev_r]
      in if \<not> br_vzalloc e then (- ENOMEM, ks @ err_free_dev)
         else (let ks = ks @ [Acquire blkram_data_r]; ret = br_tag_set e
      in if ret \<noteq> 0 then (ret, ks @ err_free_data)
         else (let ks = ks @ [Acquire blkram_tags_r]; (ret, ks') = make_disk e
      in if ret \<noteq> 0 then (ret, ks @ ks')
         else (let ks = ks @ ks'
      in if br_ver e \<ge> KERNEL_VERSION 5 16 0 then
           (let ret = br_add_disk e
            in if ret \<noteq> 0 then (ret, ks @ err_put_disk (br_ver e))
               else (0, ks @ [Acquire (Live_Disk ''blkram0'')]))
         else (0, ks @ [Acquire (Live_Disk ''blkram0'')]))))))"

definition blkram_exit :: "blkram_env \<Rightarrow> kop list" where
  "blkram_exit e =
     [Release (Live_Disk ''blkram0''), Release (Disk ''blkram0'')]
     @ (if br_ver e < KERNEL_VERSION 5 15 0 then [Release (Queue ''blkram'')] else [])
     @ [Release blkram_tags_r, Release blkram_data_r, Release blkram_dev_r,
        Release (Blkdev ''blkram'')]"

definition blkram_owned :: "blkram_env \<Rightarrow> resource set" where
  "blkram_owned e =
     {Blkdev ''blkram'', blkram_dev_r, blkram_data_r, blkram_tags_r, Disk ''blkram0'',
      Live_Disk ''blkram0''}
     \<union> (if br_ver e < KERNEL_VERSION 5 15 0 then {Queue ''blkram''} else {})"

definition blkram_env_ok :: "blkram_env \<Rightarrow> bool" where
  "blkram_env_ok e \<longleftrightarrow> err_ptr_ok (br_queue e) \<and> err_ptr_ok (br_disk e)"

lemmas blkram_labels = err_put_disk_def err_cleanup_queue_def err_tag_set_def err_free_data_def
  err_free_dev_def err_unreg_def

lemma make_disk_cases:
  assumes "blkram_env_ok e"
  shows "(fst (make_disk e) = 0 \<and> snd (make_disk e) =
        (if br_ver e < KERNEL_VERSION 5 15 0 then [Acquire (Queue ''blkram'')] else [])
        @ [Acquire (Disk ''blkram0'')]) \<or>
    (fst (make_disk e) \<noteq> 0 \<and> (snd (make_disk e) = err_tag_set \<or>
       snd (make_disk e) = [Acquire (Queue ''blkram''), Release (Queue ''blkram'')] @ err_tag_set))"
  using assms
  by (auto simp: make_disk_def blkram_env_ok_def err_ptr_ok_def err_cleanup_queue_def KERNEL_VERSION_def
      split: err_ptr.splits)

interpretation blkram_mod: module_lifecycle blkram_init blkram_exit blkram_owned blkram_env_ok
proof unfold_locales
  fix e
  assume ok: "blkram_env_ok e"
  from make_disk_cases [OF ok]
  show "kops_run (snd (blkram_init e)) {} = Some (blkram_owned e)" if "fst (blkram_init e) = 0"
    using that
    by (auto simp: blkram_init_def blkram_owned_def Let_def KERNEL_VERSION_def
        split: if_splits prod.splits)
  from make_disk_cases [OF ok]
  show "kops_run (snd (blkram_init e)) {} = Some {}" if "fst (blkram_init e) \<noteq> 0"
    using that
    by (auto simp: blkram_init_def Let_def KERNEL_VERSION_def blkram_labels
        split: if_splits prod.splits)
  show "kops_run (blkram_exit e) (blkram_owned e) = Some {}"
    by (auto simp: blkram_exit_def blkram_owned_def)
qed

subsection \<open>What a request does\<close>

definition seg_bytes :: "bio_vec \<Rightarrow> 8 word list" where
  "seg_bytes bv = take (unat (bv_len bv)) (drop (bv_offset bv) (bv_page bv))"

text \<open>The segment lies inside its page.\<close>

definition seg_ok :: "bio_vec \<Rightarrow> bool" where
  "seg_ok bv \<longleftrightarrow> bv_offset bv + unat (bv_len bv) \<le> length (bv_page bv)"

definition segs_total :: "bio_vec list \<Rightarrow> nat" where
  "segs_total bvs = sum_list (map (\<lambda>bv. unat (bv_len bv)) bvs)"

definition blkram_inv :: "blkram_dev \<Rightarrow> bool" where
  "blkram_inv d \<longleftrightarrow> length (bd_data d) = unat (bd_size d)"

lemma blkram_start_inv: "blkram_inv (blkram_start mb)"
  by (simp add: blkram_inv_def blkram_start_def)

text \<open>The bytes of \<open>bs\<close> given to the segments in turn: what reading does to the pages.\<close>

fun fill_segs :: "8 word list \<Rightarrow> bio_vec list \<Rightarrow> bio_vec list" where
  "fill_segs bs [] = []"
| "fill_segs bs (bv # bvs) =
     (let n = unat (bv_len bv)
      in bv\<lparr>bv_page := take (bv_offset bv) (bv_page bv) @ take n bs
                        @ drop (bv_offset bv + n) (bv_page bv)\<rparr> # fill_segs (drop n bs) bvs)"

lemma length_seg_bytes: "seg_ok bv \<Longrightarrow> length (seg_bytes bv) = unat (bv_len bv)"
  by (simp add: seg_bytes_def seg_ok_def)

lemma segs_total_simps [simp]:
  "segs_total [] = 0" "segs_total (bv # bvs) = unat (bv_len bv) + segs_total bvs"
  by (simp_all add: segs_total_def)

lemma unat64_bound: "unat (w :: 64 word) < 2 ^ 64"
  using unsigned_less [where 'a = nat and w = w] by simp

lemma unat32_bound: "unat (w :: 32 word) < 2 ^ 32"
  using unsigned_less [where 'a = nat and w = w] by simp

text \<open>Adding a segment's length to the offset does not wrap around while the sum fits in 64 bits.\<close>

lemma unat_offset_add:
  assumes "unat offset + unat len < 2 ^ 64"
  shows "unat (offset + ucast (len :: 32 word) :: 64 word) = unat offset + unat len"
proof -
  have "unat (ucast len :: 64 word) = unat len"
    using unat32_bound [of len] by (simp add: unsigned_ucast_eq take_bit_nat_eq_self)
  then show ?thesis using assms by (simp add: unat_word_ariths)
qed

lemma offset_check:
  assumes "unat offset + unat len < 2 ^ 64"
  shows "offset + ucast (len :: 32 word) > (sz :: 64 word) \<longleftrightarrow> unat sz < unat offset + unat len"
  using unat_offset_add [OF assms] by (simp add: word_less_nat_alt)

lemma memcpy_to_eq:
  assumes "seg_ok bv" and "off + unat (bv_len bv) \<le> length (bd_data d)"
  shows "memcpy_to d off bv = Some (d\<lparr>bd_data := take off (bd_data d) @ seg_bytes bv
      @ drop (off + unat (bv_len bv)) (bd_data d)\<rparr>)"
  using assms
  by (simp add: memcpy_to_def slice_at_def blit_def seg_bytes_def [symmetric] seg_ok_def length_seg_bytes)

lemma memcpy_from_eq:
  assumes "seg_ok bv" and "off + unat (bv_len bv) \<le> length (bd_data d)"
  shows "memcpy_from d off bv = Some (bv\<lparr>bv_page := take (bv_offset bv) (bv_page bv)
      @ take (unat (bv_len bv)) (drop off (bd_data d))
      @ drop (bv_offset bv + unat (bv_len bv)) (bv_page bv)\<rparr>)"
  using assms by (simp add: memcpy_from_def slice_at_def blit_def seg_ok_def min_absorb2)

lemma transfer_write:
  assumes "blkram_inv d" and "list_all seg_ok bvs" and "unat off + segs_total bvs \<le> length (bd_data d)"
  shows "transfer_loop WRITE d off bvs =
    Some (d\<lparr>bd_data := take (unat off) (bd_data d) @ concat (map seg_bytes bvs)
        @ drop (unat off + segs_total bvs) (bd_data d)\<rparr>, bvs, BLK_STS_OK)"
  using assms
proof (induction bvs arbitrary: d off)
  case Nil
  then show ?case by simp
next
  case (Cons bv bvs)
  let ?n = "unat (bv_len bv)" and ?o = "unat off"
  let ?d = "d\<lparr>bd_data := take ?o (bd_data d) @ seg_bytes bv @ drop (?o + ?n) (bd_data d)\<rparr>"
  have len: "?o + ?n + segs_total bvs \<le> length (bd_data d)" "seg_ok bv" "length (seg_bytes bv) = ?n"
    using Cons.prems length_seg_bytes by simp_all
  have fits: "?o + ?n < 2 ^ 64" "\<not> unat (bd_size d) < ?o + ?n"
    using len Cons.prems(1) unat64_bound [of "bd_size d"] by (simp_all add: blkram_inv_def)
  note off' = unat_offset_add [OF fits(1)]
  have "blkram_inv ?d" using len Cons.prems(1) by (simp add: blkram_inv_def)
  then have "transfer_loop WRITE ?d (off + ucast (bv_len bv)) bvs =
    Some (?d\<lparr>bd_data := take (?o + ?n) (bd_data ?d) @ concat (map seg_bytes bvs)
        @ drop (?o + ?n + segs_total bvs) (bd_data ?d)\<rparr>, bvs, BLK_STS_OK)"
    using Cons.IH [of ?d "off + ucast (bv_len bv)"] Cons.prems(2) len by (simp add: off')
  then show ?case
    using len offset_check [OF fits(1), of "bd_size d"] fits(2) memcpy_to_eq [of bv ?o d]
    by (simp add: min_absorb2 ac_simps)
qed

lemma transfer_read:
  assumes "blkram_inv d" and "list_all seg_ok bvs" and "unat off + segs_total bvs \<le> length (bd_data d)"
  shows "transfer_loop READ d off bvs =
    Some (d, fill_segs (take (segs_total bvs) (drop (unat off) (bd_data d))) bvs, BLK_STS_OK)"
  using assms
proof (induction bvs arbitrary: off)
  case Nil
  then show ?case by simp
next
  case (Cons bv bvs)
  let ?n = "unat (bv_len bv)" and ?o = "unat off"
  have len: "?o + ?n + segs_total bvs \<le> length (bd_data d)" "seg_ok bv"
    using Cons.prems by simp_all
  have fits: "?o + ?n < 2 ^ 64" "\<not> unat (bd_size d) < ?o + ?n"
    using len Cons.prems(1) unat64_bound [of "bd_size d"] by (simp_all add: blkram_inv_def)
  have "transfer_loop READ d (off + ucast (bv_len bv)) bvs =
    Some (d, fill_segs (take (segs_total bvs) (drop (?o + ?n) (bd_data d))) bvs, BLK_STS_OK)"
    using Cons.IH [of "off + ucast (bv_len bv)"] Cons.prems len
    by (simp add: unat_offset_add [OF fits(1)])
  then show ?case
    using len offset_check [OF fits(1), of "bd_size d"] fits(2) memcpy_from_eq [of bv ?o d]
    by (simp add: Let_def min_absorb1 drop_take add.commute)
qed

text \<open>Filled segments hold the bytes they were given.\<close>

lemma seg_bytes_fill:
  "list_all seg_ok bvs \<Longrightarrow> length bs = segs_total bvs \<Longrightarrow>
    concat (map seg_bytes (fill_segs bs bvs)) = bs"
proof (induction bvs arbitrary: bs)
  case Nil
  then show ?case by simp
next
  case (Cons bv bvs)
  let ?n = "unat (bv_len bv)"
  have "seg_ok bv" "?n \<le> length bs" using Cons.prems by simp_all
  then have "seg_bytes (bv\<lparr>bv_page := take (bv_offset bv) (bv_page bv) @ take ?n bs
      @ drop (bv_offset bv + ?n) (bv_page bv)\<rparr>) = take ?n bs"
    by (simp add: seg_bytes_def seg_ok_def min_absorb2)
  with Cons show ?case by (simp add: Let_def)
qed

text \<open>
  Whatever the sector and the segments, a request whose end does not wrap around 64 bits stays inside
  the buffer and the pages, and keeps the buffer's size.
\<close>

lemma transfer_safe:
  assumes "blkram_inv d" and "list_all seg_ok bvs" and "unat off + segs_total bvs < 2 ^ 64"
  shows "\<exists>d' bvs' st. transfer_loop dir d off bvs = Some (d', bvs', st) \<and> blkram_inv d' \<and>
    bd_size d' = bd_size d \<and> (st = BLK_STS_OK \<longleftrightarrow> unat off + segs_total bvs \<le> unat (bd_size d) \<or> bvs = []) \<and>
    (dir = READ \<longrightarrow> d' = d)"
  using assms
proof (induction bvs arbitrary: d off)
  case Nil
  then show ?case by simp
next
  case (Cons bv bvs)
  let ?n = "unat (bv_len bv)" and ?o = "unat off"
  have fits: "?o + ?n < 2 ^ 64" using Cons.prems(3) by simp
  show ?case
  proof (cases "unat (bd_size d) < ?o + ?n")
    case True
    with Cons.prems(1) offset_check [OF fits, of "bd_size d"] show ?thesis by (simp add: Let_def)
  next
    case False
    have seg: "seg_ok bv" "?o + ?n \<le> length (bd_data d)"
      using False Cons.prems by (simp_all add: blkram_inv_def)
    let ?d = "d\<lparr>bd_data := take ?o (bd_data d) @ seg_bytes bv @ drop (?o + ?n) (bd_data d)\<rparr>"
    have inv': "blkram_inv ?d" using seg Cons.prems(1) length_seg_bytes by (simp add: blkram_inv_def)
    have off': "unat (off + ucast (bv_len bv)) + segs_total bvs < 2 ^ 64"
      using Cons.prems(3) by (simp add: unat_offset_add [OF fits] add.assoc)
    have ok: "\<not> bd_size d < off + ucast (bv_len bv)"
      using False offset_check [OF fits, of "bd_size d"] by simp
    have segs: "list_all seg_ok bvs" using Cons.prems(2) by simp
    show ?thesis
    proof (cases dir)
      case READ
      from Cons.IH [OF Cons.prems(1) segs off'] obtain bvs' st where
        "transfer_loop dir d (off + ucast (bv_len bv)) bvs = Some (d, bvs', st)"
        "st = BLK_STS_OK \<longleftrightarrow> ?o + ?n + segs_total bvs \<le> unat (bd_size d) \<or> bvs = []"
        using READ by (auto simp: unat_offset_add [OF fits])
      then show ?thesis
        using READ ok False Cons.prems(1) memcpy_from_eq [OF seg] by (auto simp: Let_def add.assoc)
    next
      case WRITE
      from Cons.IH [OF inv' segs off'] obtain d' bvs' st where
        "transfer_loop dir ?d (off + ucast (bv_len bv)) bvs = Some (d', bvs', st)"
        "blkram_inv d'" "bd_size d' = bd_size d"
        "st = BLK_STS_OK \<longleftrightarrow> ?o + ?n + segs_total bvs \<le> unat (bd_size d) \<or> bvs = []"
        by (auto simp: unat_offset_add [OF fits])
      then show ?thesis
        using WRITE ok False memcpy_to_eq [OF seg] by (auto simp: Let_def add.assoc)
    qed
  qed
qed

subsection \<open>Properties\<close>

text \<open>The request's byte offset and length, and its bytes.\<close>

definition rq_start :: "request \<Rightarrow> nat" where
  "rq_start rq = unat (rq_pos rq) * 512"

definition rq_length :: "request \<Rightarrow> nat" where
  "rq_length rq = segs_total (rq_segs rq)"

definition rq_bytes :: "request \<Rightarrow> 8 word list" where
  "rq_bytes rq = concat (map seg_bytes (rq_segs rq))"

lemma rq_offset:
  assumes "rq_start rq < 2 ^ 64"
  shows "unat (rq_pos rq * BLKRAM_SECTOR_SIZE) = rq_start rq"
  using assms by (simp add: rq_start_def BLKRAM_SECTOR_SIZE_def unat_word_ariths)

lemma length_rq_bytes: "list_all seg_ok (rq_segs rq) \<Longrightarrow> length (rq_bytes rq) = rq_length rq"
proof -
  have "length (concat (map seg_bytes bvs)) = segs_total bvs" if "list_all seg_ok bvs" for bvs
    using that by (induction bvs) (simp_all add: length_seg_bytes)
  then show "list_all seg_ok (rq_segs rq) \<Longrightarrow> ?thesis" by (simp add: rq_bytes_def rq_length_def)
qed

lemma rq_start_bound:
  "blkram_inv d \<Longrightarrow> rq_start rq + rq_length rq \<le> length (bd_data d) \<Longrightarrow> rq_start rq < 2 ^ 64"
  using unat64_bound [of "bd_size d"] by (simp add: blkram_inv_def)

text \<open>
  A write request that ends inside the device, however it is cut into segments, stores its bytes
  at 512 times its sector and changes nothing else, and is completed once, without error.
\<close>

theorem blkram_write_exact:
  assumes "blkram_inv d" and "rq_data_dir rq = WRITE" and "\<not> rq_passthrough rq"
    and "list_all seg_ok (rq_segs rq)" and "rq_start rq + rq_length rq \<le> length (bd_data d)"
  shows "blkram_queue_rq d rq =
    Some (d\<lparr>bd_data := take (rq_start rq) (bd_data d) @ rq_bytes rq
        @ drop (rq_start rq + rq_length rq) (bd_data d)\<rparr>, rq,
      [Start_Request, End_Request BLK_STS_OK], BLK_STS_OK)"
  using transfer_write [OF assms(1,4), of "rq_pos rq * BLKRAM_SECTOR_SIZE"] assms(2,3,5)
    rq_offset [OF rq_start_bound [OF assms(1,5)]]
  by (simp add: blkram_queue_rq_def blkram_transfer_def rq_length_def rq_bytes_def)

text \<open>A read request fills its segments with the bytes of the device, which stays as it was.\<close>

lemma blkram_read_exact:
  assumes "blkram_inv d" and "rq_data_dir rq = READ" and "\<not> rq_passthrough rq"
    and "list_all seg_ok (rq_segs rq)" and "rq_start rq + rq_length rq \<le> length (bd_data d)"
  shows "\<exists>rq'. blkram_queue_rq d rq = Some (d, rq', [Start_Request, End_Request BLK_STS_OK], BLK_STS_OK) \<and>
    rq_bytes rq' = take (rq_length rq) (drop (rq_start rq) (bd_data d))"
proof -
  let ?bs = "take (rq_length rq) (drop (rq_start rq) (bd_data d))"
  have "blkram_queue_rq d rq = Some (d, rq\<lparr>rq_segs := fill_segs ?bs (rq_segs rq)\<rparr>,
      [Start_Request, End_Request BLK_STS_OK], BLK_STS_OK)"
    using transfer_read [OF assms(1,4), of "rq_pos rq * BLKRAM_SECTOR_SIZE"] assms(2,3,5)
      rq_offset [OF rq_start_bound [OF assms(1,5)]]
    by (simp add: blkram_queue_rq_def blkram_transfer_def rq_length_def)
  moreover have "rq_bytes (rq\<lparr>rq_segs := fill_segs ?bs (rq_segs rq)\<rparr>) = ?bs"
    using seg_bytes_fill [OF assms(4), of ?bs] assms(5) by (simp add: rq_bytes_def rq_length_def)
  ultimately show ?thesis by blast
qed

text \<open>Two requests on a device of four sectors, for concrete instances.\<close>

definition demo_write :: request where
  "demo_write = \<lparr>rq_pos = 1, rq_data_dir = WRITE, rq_passthrough = False,
     rq_segs = [\<lparr>bv_page = [7, 1, 2, 7], bv_offset = 1, bv_len = 2\<rparr>,
                \<lparr>bv_page = [3], bv_offset = 0, bv_len = 1\<rparr>]\<rparr>"

definition demo_read :: request where
  "demo_read = \<lparr>rq_pos = 1, rq_data_dir = READ, rq_passthrough = False,
     rq_segs = [\<lparr>bv_page = [0, 0, 0, 0], bv_offset = 0, bv_len = 3\<rparr>]\<rparr>"

definition demo_ram :: blkram_dev where
  "demo_ram = \<lparr>bd_data = replicate 2048 0, bd_size = 2048\<rparr>"

lemmas demo_blk = demo_write_def demo_read_def demo_ram_def blkram_inv_def seg_ok_def rq_start_def
  rq_length_def

theorem blkram_write_exact_witness:
  "\<exists>d'. blkram_queue_rq demo_ram demo_write =
      Some (d', demo_write, [Start_Request, End_Request BLK_STS_OK], BLK_STS_OK) \<and>
    bd_data d' = replicate 512 0 @ [1, 2, 3] @ replicate 1533 0"
  using blkram_write_exact [of demo_ram demo_write]
  by (simp add: demo_blk rq_bytes_def seg_bytes_def min_def)

text \<open>
  C8: reading back a range that was written gives the bytes that were written, even when the two
  requests are cut into segments differently.
\<close>

theorem blkram_write_then_read:
  assumes "blkram_inv d" and "rq_data_dir w = WRITE" and "rq_data_dir r = READ"
    and "\<not> rq_passthrough w" and "\<not> rq_passthrough r"
    and "list_all seg_ok (rq_segs w)" and "list_all seg_ok (rq_segs r)"
    and "rq_pos r = rq_pos w" and "rq_length r = rq_length w"
    and "rq_start w + rq_length w \<le> length (bd_data d)"
  shows "\<exists>d' r'. blkram_queue_rq d w =
      Some (d', w, [Start_Request, End_Request BLK_STS_OK], BLK_STS_OK) \<and>
    blkram_queue_rq d' r = Some (d', r', [Start_Request, End_Request BLK_STS_OK], BLK_STS_OK) \<and>
    rq_bytes r' = rq_bytes w"
proof -
  define d' where "d' = d\<lparr>bd_data := take (rq_start w) (bd_data d) @ rq_bytes w
    @ drop (rq_start w + rq_length w) (bd_data d)\<rparr>"
  note len = length_rq_bytes [OF assms(6)]
  have start: "rq_start r = rq_start w" using assms(8) by (simp add: rq_start_def)
  have inv: "blkram_inv d'" and len': "length (bd_data d') = length (bd_data d)"
    using assms(1,10) len by (simp_all add: d'_def blkram_inv_def)
  have "take (rq_length r) (drop (rq_start r) (bd_data d')) = rq_bytes w"
    using assms(9,10) len start by (simp add: d'_def min_absorb2)
  moreover have "rq_start r + rq_length r \<le> length (bd_data d')" using assms(9,10) start len' by simp
  ultimately show ?thesis
    using blkram_read_exact [OF inv assms(3,5,7)] blkram_write_exact [OF assms(1,2,4,6,10)]
    by (auto simp: d'_def [symmetric])
qed

theorem blkram_write_then_read_witness:
  "\<exists>d' r'. blkram_queue_rq demo_ram demo_write =
      Some (d', demo_write, [Start_Request, End_Request BLK_STS_OK], BLK_STS_OK) \<and>
    blkram_queue_rq d' demo_read = Some (d', r', [Start_Request, End_Request BLK_STS_OK], BLK_STS_OK) \<and>
    rq_bytes r' = rq_bytes demo_write"
  by (rule blkram_write_then_read) (simp_all add: demo_blk)

text \<open>
  What a disk is: a list of bytes. A request, inside the disk, moves the bytes it holds to its place or
  those from its place to it.
\<close>

fun disk_run :: "8 word list \<Rightarrow> request list \<Rightarrow> 8 word list \<times> 8 word list list" where
  "disk_run disk [] = (disk, [])"
| "disk_run disk (rq # rqs) =
     (if rq_data_dir rq = WRITE
      then (case disk_run (take (rq_start rq) disk @ rq_bytes rq @ drop (rq_start rq + rq_length rq) disk) rqs of
              (disk', bss) \<Rightarrow> (disk', rq_bytes rq # bss))
      else (case disk_run disk rqs of
              (disk', bss) \<Rightarrow> (disk', take (rq_length rq) (drop (rq_start rq) disk) # bss)))"

text \<open>What the driver does with requests, one after the other: the bytes in each when it has ended.\<close>

fun blkram_run :: "blkram_dev \<Rightarrow> request list \<Rightarrow> (blkram_dev \<times> 8 word list list) option" where
  "blkram_run d [] = Some (d, [])"
| "blkram_run d (rq # rqs) =
     (case blkram_queue_rq d rq of
        Some (d, rq, [Start_Request, End_Request BLK_STS_OK], BLK_STS_OK) \<Rightarrow>
          map_option (\<lambda>(d, bss). (d, rq_bytes rq # bss)) (blkram_run d rqs)
      | _ \<Rightarrow> None)"

definition rq_ok :: "nat \<Rightarrow> request \<Rightarrow> bool" where
  "rq_ok capacity rq \<longleftrightarrow> \<not> rq_passthrough rq \<and> list_all seg_ok (rq_segs rq) \<and> rq_start rq + rq_length rq \<le> capacity"

text \<open>
  C30: the driver implements a disk. Any sequence of read and write requests inside the device, however
  they are cut into segments, completes without error, each request started and ended once, and has the
  effect on the device's memory and delivers the bytes that an abstract disk would.
\<close>

theorem blkram_refines_disk:
  assumes "blkram_inv d" and "list_all (rq_ok (length (bd_data d))) rqs"
  shows "blkram_run d rqs =
    Some (d\<lparr>bd_data := fst (disk_run (bd_data d) rqs)\<rparr>, snd (disk_run (bd_data d) rqs))"
  using assms
proof (induction rqs arbitrary: d)
  case Nil
  then show ?case by simp
next
  case (Cons rq rqs)
  then have rq: "\<not> rq_passthrough rq" "list_all seg_ok (rq_segs rq)"
    "rq_start rq + rq_length rq \<le> length (bd_data d)" by (simp_all add: rq_ok_def)
  show ?case
  proof (cases "rq_data_dir rq")
    case READ
    obtain rq' where "blkram_queue_rq d rq = Some (d, rq', [Start_Request, End_Request BLK_STS_OK], BLK_STS_OK)"
      "rq_bytes rq' = take (rq_length rq) (drop (rq_start rq) (bd_data d))"
      using blkram_read_exact [OF Cons.prems(1) READ rq] by blast
    with READ Cons show ?thesis by (simp split: prod.split)
  next
    case WRITE
    let ?data = "take (rq_start rq) (bd_data d) @ rq_bytes rq @ drop (rq_start rq + rq_length rq) (bd_data d)"
    have "length ?data = length (bd_data d)" using rq(3) length_rq_bytes [OF rq(2)] by simp
    then have "blkram_run (d\<lparr>bd_data := ?data\<rparr>) rqs =
        Some (d\<lparr>bd_data := fst (disk_run ?data rqs)\<rparr>, snd (disk_run ?data rqs))"
      using Cons.IH [of "d\<lparr>bd_data := ?data\<rparr>"] Cons.prems by (simp add: blkram_inv_def)
    with WRITE blkram_write_exact [OF Cons.prems(1) WRITE rq] show ?thesis by (simp split: prod.split)
  qed
qed

theorem blkram_refines_disk_witness:
  "\<exists>d'. blkram_run demo_ram [demo_write, demo_read] = Some (d', [[1, 2, 3], [1, 2, 3]])"
proof -
  have "list_all (rq_ok (length (bd_data demo_ram))) [demo_write, demo_read]"
    by (simp add: rq_ok_def demo_blk)
  moreover have "snd (disk_run (bd_data demo_ram) [demo_write, demo_read]) = [[1, 2, 3], [1, 2, 3]]"
    by (simp add: demo_blk rq_bytes_def seg_bytes_def min_def)
  moreover have "blkram_inv demo_ram" by (simp add: demo_blk)
  ultimately show ?thesis using blkram_refines_disk [of demo_ram "[demo_write, demo_read]"] by simp
qed

text \<open>
  C31: a request whose end does not wrap around 64 bits never leaves the buffer or its pages, whatever
  its sector and its segments. It is started once and ended once. It fails, with \<open>BLK_STS_IOERR\<close>,
  exactly when it is a passthrough request or it has a segment and ends beyond the device (a request of
  no segment succeeds, as it moves nothing). A passthrough request and a read change nothing in the
  device.
\<close>

theorem blkram_request_safe:
  assumes "blkram_inv d" and "list_all seg_ok (rq_segs rq)"
    and "rq_start rq + rq_length rq < 2 ^ 64"
  shows "\<exists>d' rq' st. blkram_queue_rq d rq =
      Some (d', rq', [Start_Request, End_Request st], BLK_STS_OK) \<and> blkram_inv d' \<and>
    (rq_passthrough rq \<or> rq_data_dir rq = READ \<longrightarrow> d' = d) \<and>
    (st = BLK_STS_IOERR \<longleftrightarrow>
       rq_passthrough rq \<or> (rq_segs rq \<noteq> [] \<and> length (bd_data d) < rq_start rq + rq_length rq))"
proof (cases "rq_passthrough rq")
  case True
  then show ?thesis using assms(1) by (simp add: blkram_queue_rq_def)
next
  case False
  have off: "unat (rq_pos rq * BLKRAM_SECTOR_SIZE) = rq_start rq"
    using assms(3) by (intro rq_offset) simp
  from transfer_safe [OF assms(1,2), of "rq_pos rq * BLKRAM_SECTOR_SIZE" "rq_data_dir rq"]
    assms(3) off obtain d' bvs' st where
    "transfer_loop (rq_data_dir rq) d (rq_pos rq * BLKRAM_SECTOR_SIZE) (rq_segs rq) =
      Some (d', bvs', st)" "blkram_inv d'" "rq_data_dir rq = READ \<longrightarrow> d' = d"
    "st = BLK_STS_OK \<longleftrightarrow> rq_start rq + rq_length rq \<le> unat (bd_size d) \<or> rq_segs rq = []"
    by (auto simp: rq_length_def)
  moreover have "length (bd_data d) = unat (bd_size d)" using assms(1) by (simp add: blkram_inv_def)
  ultimately show ?thesis
    using False by (cases st) (auto simp: blkram_queue_rq_def blkram_transfer_def)
qed

theorem blkram_request_safe_witness:
  "\<exists>d' rq' st. blkram_queue_rq demo_ram (demo_write\<lparr>rq_pos := 9\<rparr>) =
      Some (d', rq', [Start_Request, End_Request st], BLK_STS_OK) \<and> st = BLK_STS_IOERR"
proof -
  have "blkram_inv demo_ram" and "list_all seg_ok (rq_segs (demo_write\<lparr>rq_pos := 9\<rparr>))"
    and "rq_start (demo_write\<lparr>rq_pos := 9\<rparr>) + rq_length (demo_write\<lparr>rq_pos := 9\<rparr>) < 2 ^ 64"
    and "rq_segs (demo_write\<lparr>rq_pos := 9\<rparr>) \<noteq> []"
    and "length (bd_data demo_ram) <
      rq_start (demo_write\<lparr>rq_pos := 9\<rparr>) + rq_length (demo_write\<lparr>rq_pos := 9\<rparr>)"
    by (simp_all add: demo_blk)
  then show ?thesis using blkram_request_safe [of demo_ram "demo_write\<lparr>rq_pos := 9\<rparr>"] by blast
qed

text \<open>
  The bounds check does not see that the byte offset of a request wraps around: a request for the
  last sector below \<open>2^55\<close> passes it and leaves the buffer.
\<close>

theorem blkram_offset_wraps:
  "blkram_queue_rq demo_ram (demo_read\<lparr>rq_pos := 2 ^ 55 - 1,
     rq_segs := [\<lparr>bv_page = replicate 512 0, bv_offset = 0, bv_len = 512\<rparr>]\<rparr>) = None"
proof -
  have "unat (- 512 :: 64 word) = 2 ^ 64 - 512" by simp
  then have "slice_at (replicate 2048 (0 :: 8 word)) (unat (- 512 :: 64 word)) 512 = None"
    by (simp only: slice_at_def length_replicate) simp
  then show ?thesis
    by (simp add: blkram_queue_rq_def blkram_transfer_def demo_read_def demo_ram_def
        BLKRAM_SECTOR_SIZE_def memcpy_from_def Let_def)
qed

text \<open>
  On every kernel version, no sequence of loading and unloading the module leaks an object or
  releases one twice, whichever step of the initialisation fails.
\<close>

theorem blkram_no_leak:
  assumes "envs_ok blkram_env_ok evs"
  shows "\<exists>st. mod_run blkram_init blkram_exit (None, {}) evs = Some st \<and> accounted blkram_owned st"
  using assms by (rule blkram_mod.no_leak)

theorem blkram_no_leak_witness:
  "\<exists>st. mod_run blkram_init blkram_exit (None, {})
      [Insmod \<lparr>br_ver = KERNEL_VERSION 5 10 0, br_major = 250, br_kzalloc = True, br_vzalloc = True,
         br_tag_set = 0, br_queue = Ptr (), br_alloc_disk = False, br_disk = Ptr (), br_add_disk = 0\<rparr>,
       Insmod \<lparr>br_ver = KERNEL_VERSION 6 12 0, br_major = 250, br_kzalloc = True, br_vzalloc = True,
         br_tag_set = 0, br_queue = Ptr (), br_alloc_disk = True, br_disk = Ptr (), br_add_disk = 0\<rparr>,
       Rmmod] = Some st \<and> accounted blkram_owned st"
  by (rule blkram_no_leak) (simp add: envs_ok_def blkram_env_ok_def err_ptr_ok_def)

end
