(* ===== verification/Gpio_Cdev.thy ===== *)
theory Gpio_Cdev
  imports Lifecycle Vfs
begin

text \<open>
  examples/led.c: an LED on a GPIO line, switched by writing to a character device. Its init function
  is the same chain as that of examples/dht11.c: a region of device numbers, a cdev, a class, a device
  node, the GPIO line and its direction.
\<close>

subsection \<open>Loading and unloading\<close>

text \<open>
  The kernel's answers. \<open>gc_major_num\<close> is the device's \<open>major_num\<close>, which selects the way the numbers
  are obtained.
\<close>

record gpio_cdev_env =
  gc_major_num :: int
  gc_register_region :: int
  gc_alloc_region :: int
  gc_cdev_add :: int
  gc_class :: "unit err_ptr"
  gc_device :: "unit err_ptr"
  gc_gpio_request :: int
  gc_direction :: int

text \<open>The labels, each falling through to the next.\<close>

definition gc_fail1 :: "string \<Rightarrow> kop list" where
  "gc_fail1 name = [Release (Chrdev name)]"

definition gc_fail2 :: "string \<Rightarrow> kop list" where
  "gc_fail2 name = Release (Cdev name) # gc_fail1 name"

definition gc_fail3 :: "string \<Rightarrow> kop list" where
  "gc_fail3 name = Release (Class name) # gc_fail2 name"

definition gc_fail4 :: "string \<Rightarrow> kop list" where
  "gc_fail4 name = Release (Device name) # gc_fail3 name"

definition gc_fail5 :: "string \<Rightarrow> nat \<Rightarrow> kop list" where
  "gc_fail5 name pin = Release (Gpio pin) # gc_fail4 name"

definition gpio_cdev_init :: "string \<Rightarrow> nat \<Rightarrow> gpio_cdev_env \<Rightarrow> int \<times> kop list" where
  "gpio_cdev_init name pin e =
     (let ret = (if gc_major_num e \<noteq> 0 then gc_register_region e else gc_alloc_region e)
      in if ret < 0 then (ret, [])
         else (let ks = [Acquire (Chrdev name)]; ret = gc_cdev_add e
      in if ret \<noteq> 0 then (ret, ks @ gc_fail1 name)
         else (let ks = ks @ [Acquire (Cdev name)]
      in case gc_class e of ERR_PTR err \<Rightarrow> (err, ks @ gc_fail2 name)
         | Ptr _ \<Rightarrow> (let ks = ks @ [Acquire (Class name)]
      in case gc_device e of ERR_PTR err \<Rightarrow> (err, ks @ gc_fail3 name)
         | Ptr _ \<Rightarrow> (let ks = ks @ [Acquire (Device name)]; ret = gc_gpio_request e
      in if ret \<noteq> 0 then (ret, ks @ gc_fail4 name)
         else (let ks = ks @ [Acquire (Gpio pin)]; ret = gc_direction e
      in if ret \<noteq> 0 then (ret, ks @ gc_fail5 name pin)
         else (0, ks)))))))"

definition gpio_cdev_exit :: "string \<Rightarrow> nat \<Rightarrow> gpio_cdev_env \<Rightarrow> kop list" where
  "gpio_cdev_exit name pin e =
     [Release (Gpio pin), Release (Device name), Release (Class name), Release (Cdev name),
      Release (Chrdev name)]"

definition gpio_cdev_owned :: "string \<Rightarrow> nat \<Rightarrow> gpio_cdev_env \<Rightarrow> resource set" where
  "gpio_cdev_owned name pin e = {Chrdev name, Cdev name, Class name, Device name, Gpio pin}"

definition gpio_cdev_env_ok :: "gpio_cdev_env \<Rightarrow> bool" where
  "gpio_cdev_env_ok e \<longleftrightarrow> err_ptr_ok (gc_class e) \<and> err_ptr_ok (gc_device e)"

lemmas gc_labels = gc_fail1_def gc_fail2_def gc_fail3_def gc_fail4_def gc_fail5_def

interpretation gpio_cdev: module_lifecycle "gpio_cdev_init name pin" "gpio_cdev_exit name pin"
    "gpio_cdev_owned name pin" gpio_cdev_env_ok for name pin
  by unfold_locales
    (auto simp: gpio_cdev_init_def gpio_cdev_exit_def gpio_cdev_owned_def gpio_cdev_env_ok_def
      gc_labels err_ptr_ok_def Let_def split: if_splits err_ptr.splits)

definition led_init :: "gpio_cdev_env \<Rightarrow> int \<times> kop list" where
  "led_init = gpio_cdev_init ''gpio_led'' 4"

definition led_exit :: "gpio_cdev_env \<Rightarrow> kop list" where
  "led_exit = gpio_cdev_exit ''gpio_led'' 4"

subsection \<open>The LED\<close>

definition led_BUF_LEN :: nat where "led_BUF_LEN = 2"

text \<open>The module's \<open>control_signal\<close> and \<open>device_buffer_size\<close>, and the level of its GPIO line.\<close>

record led =
  led_control_signal :: "char list"
  led_device_buffer_size :: nat
  led_value :: bool

text \<open>After \<open>led_init\<close>: the direction call drives the line low.\<close>

definition led_start :: led where
  "led_start = \<lparr>led_control_signal = zeros led_BUF_LEN, led_device_buffer_size = 0, led_value = False\<rparr>"

definition led_device_open :: "led \<Rightarrow> led \<times> int" where
  "led_device_open s = (s, 0)"

definition led_device_release :: "led \<Rightarrow> led \<times> int" where
  "led_device_release s = (s, 0)"

text \<open>\<open>device_write\<close>: the device, the offset and the return value.\<close>

definition led_device_write :: "led \<Rightarrow> umem \<Rightarrow> nat \<Rightarrow> nat \<Rightarrow> int \<Rightarrow> (led \<times> int \<times> int) option" where
  "led_device_write s m buffer len off =
     (let n = min led_BUF_LEN len;
          s = s\<lparr>led_device_buffer_size := n\<rparr>;
          (bs, uncopied) = copy_from_user buffer n m
      in case blit (led_control_signal s) 0 bs of
           None \<Rightarrow> None
         | Some control_signal \<Rightarrow>
             (let s = s\<lparr>led_control_signal := control_signal\<rparr>
              in if uncopied \<noteq> 0 then Some (s, off, - EFAULT)
                 else (case rd control_signal 0 of
                         None \<Rightarrow> None
                       | Some c \<Rightarrow>
                           (let s = (if c = CHR ''0'' then s\<lparr>led_value := False\<rparr>
                                     else if c = CHR ''1'' then s\<lparr>led_value := True\<rparr> else s)
                            in Some (s, off + int n, int n)))))"

definition led_inv :: "led \<Rightarrow> bool" where
  "led_inv s \<longleftrightarrow> length (led_control_signal s) = led_BUF_LEN"

lemma led_write_eq:
  assumes "led_inv s" and "mapped m buffer (min led_BUF_LEN len)"
  shows "\<exists>s'. led_device_write s m buffer len off =
      Some (s', off + int (min led_BUF_LEN len), int (min led_BUF_LEN len)) \<and> led_inv s' \<and>
    led_value s' =
      (let c = (if len = 0 then led_control_signal s ! 0 else fst (get_user buffer m))
       in if c = CHR ''0'' then False else if c = CHR ''1'' then True else led_value s)"
proof -
  define n where "n = min led_BUF_LEN len"
  have n: "n \<le> led_BUF_LEN" "n = 0 \<longleftrightarrow> len = 0" by (auto simp: n_def led_BUF_LEN_def)
  have copy: "copy_from_user buffer n m = (ustr m buffer n, 0)"
    using assms(2) by (simp add: n_def copy_from_user_mapped)
  let ?b = "ustr m buffer n @ drop n (led_control_signal s)"
  have len: "length (led_control_signal s) = led_BUF_LEN" using assms(1) by (simp add: led_inv_def)
  then have blit: "blit (led_control_signal s) 0 (ustr m buffer n) = Some ?b"
    using n(1) by (simp add: blit_0)
  have "?b ! 0 = (if len = 0 then led_control_signal s ! 0 else fst (get_user buffer m))"
  proof (cases "len = 0")
    case True
    then have "n = 0" using n(2) by simp
    with True show ?thesis by (simp add: ustr_def)
  next
    case False
    then obtain k where "n = Suc k" using n(2) by (cases n) auto
    with False show ?thesis by (simp add: ustr_Suc)
  qed
  moreover have "rd ?b 0 = Some (?b ! 0)" using len n(1) by (simp add: rd_def led_BUF_LEN_def)
  ultimately show ?thesis
    using copy blit len n unfolding n_def [symmetric]
    by (simp add: led_device_write_def n_def [symmetric] Let_def led_inv_def)
qed

text \<open>
  \<open>fops\<close>, for a version of the kernel. Before 6.4 the table names the owner. (The owner that \<open>led_init\<close>
  stores in the cdev, under the same condition, is cleared by the \<open>cdev_init\<close> that follows.)
\<close>

definition led_fops :: "nat \<Rightarrow> (unit, led) file_operations" where
  "led_fops version =
     \<lparr>fop_owner = (if version < KERNEL_VERSION 6 4 0 then THIS_MODULE else NO_OWNER), fop_llseek = None,
      fop_read = None, fop_write = Some led_device_write,
      fop_open = Some (\<lambda>_ s. Some (led_device_open s)), fop_release = Some led_device_release\<rparr>"

lemma led_calls [simp]: "call_read (led_fops v) = no_read" "call_write (led_fops v) = led_device_write"
  by (simp_all add: led_fops_def fop_calls)

interpretation led_io: io_device no_read led_device_write led_inv "\<lambda>off s. True"
proof unfold_locales
  fix s m buf n and off :: int
  assume s: "led_inv s"
  obtain bs uncopied where bs: "copy_from_user buf (min led_BUF_LEN n) m = (bs, uncopied)"
    by (cases "copy_from_user buf (min led_BUF_LEN n) m")
  then have "length bs = min led_BUF_LEN n" by (metis fst_conv length_copy_from_user)
  then obtain sig where sig: "blit (led_control_signal s) 0 bs = Some sig" "length sig = led_BUF_LEN"
    using blit_ok [of bs "led_control_signal s"] s by (auto simp: led_inv_def)
  then have "rd sig 0 = Some (sig ! 0)" by (simp add: rd_def led_BUF_LEN_def)
  with sig(1) bs have w: "led_device_write s m buf n off =
      (let t = s\<lparr>led_device_buffer_size := min led_BUF_LEN n, led_control_signal := sig\<rparr>
       in if uncopied \<noteq> 0 then Some (t, off, - EFAULT)
          else Some (if sig ! 0 = CHR ''0'' then t\<lparr>led_value := False\<rparr>
                     else if sig ! 0 = CHR ''1'' then t\<lparr>led_value := True\<rparr> else t,
                 off + int (min led_BUF_LEN n), int (min led_BUF_LEN n)))"
    by (simp add: led_device_write_def Let_def)
  with sig(2) show "\<exists>s' off' ret. led_device_write s m buf n off = Some (s', off', ret) \<and> led_inv s' \<and> True \<and> ret \<le> int n"
    by (cases "uncopied = 0") (simp_all add: led_inv_def Let_def)
qed (simp_all add: no_read_def)

interpretation led_file: file_device "led_fops v" led_inv "\<lambda>off s. True" "\<lambda>k s. True" True led_start
  by (rule file_device.intro, simp only: led_calls, rule led_io.io_device_axioms, unfold_locales)
    (auto simp: led_fops_def fop_calls led_inv_def led_start_def led_device_open_def led_device_release_def)

text \<open>
  Writing a text whose first character is 1 switches the LED on, one that starts with 0 switches it
  off, and any other text leaves it as it is; at most two bytes are taken. An empty write is not
  ignored: it acts on the byte an earlier write left in the buffer.
\<close>

theorem led_write_switches:
  assumes "led_inv s" and "mapped m buffer (min 2 len)"
  shows "\<exists>s'. led_device_write s m buffer len off = Some (s', off + int (min 2 len), int (min 2 len)) \<and>
    led_inv s' \<and>
    led_value s' =
      (let c = (if len = 0 then led_control_signal s ! 0 else fst (get_user buffer m))
       in if c = CHR ''0'' then False else if c = CHR ''1'' then True else led_value s)"
  using led_write_eq [of s m buffer len off] assms by (simp add: led_BUF_LEN_def)

theorem led_write_switches_witness:
  "\<exists>s'. led_device_write \<lparr>led_control_signal = ''1'' @ [LF], led_device_buffer_size = 2,
      led_value = False\<rparr> Map.empty 0 0 0 = Some (s', 0, 0) \<and> led_value s'"
proof -
  let ?s = "\<lparr>led_control_signal = ''1'' @ [LF], led_device_buffer_size = 2, led_value = False\<rparr>"
  have "led_inv ?s" "mapped Map.empty 0 (min 2 0)" by (simp_all add: led_inv_def led_BUF_LEN_def mapped_def)
  from led_write_switches [OF this, of 0] show ?thesis by auto
qed

end
