(* ===== verification/Dht11.thy ===== *)
theory Dht11
  imports Gpio_Cdev Cat Vfs
begin

unbundle bit_operations_syntax

text \<open>
  examples/dht11.c: a humidity and temperature sensor on one GPIO line, read by polling. The line is a
  function from the number of the sample (each \<open>gpio_get_value\<close> takes the next) to a level; what the
  driver does to the line is a list of operations. The polling loops give up after 301 samples.
\<close>

subsection \<open>State\<close>

datatype pin_op = Set_Value bool | Delay_us nat | Direction_Input | Direction_Output bool

text \<open>The number of samples taken, the operations on the line so far, and the array \<open>msg\<close>.\<close>

record dht11 =
  dh_sample :: nat
  dh_ops :: "pin_op list"
  dh_msg :: "char list"

definition dht11_start :: dht11 where
  "dht11_start = \<lparr>dh_sample = 0, dh_ops = [Direction_Output True], dh_msg = zeros 64\<rparr>"

definition pin :: "pin_op list \<Rightarrow> dht11 \<Rightarrow> dht11" where
  "pin ops s = s\<lparr>dh_ops := dh_ops s @ ops\<rparr>"

subsection \<open>Reading the sensor\<close>

text \<open>
  \<open>while (gpio_get_value(pin) == lvl && timeout--) udelay(1);\<close> from the sample \<open>n\<close>: the next sample
  and the final value of \<open>timeout\<close>.
\<close>

primrec wait_while :: "(nat \<Rightarrow> bool) \<Rightarrow> bool \<Rightarrow> nat \<Rightarrow> nat \<Rightarrow> nat \<times> int" where
  "wait_while smp lvl 0 n = (if smp n = lvl then (Suc n, - 1) else (Suc n, 0))"
| "wait_while smp lvl (Suc timeout) n =
     (if smp n = lvl then wait_while smp lvl timeout (Suc n) else (Suc n, int (Suc timeout)))"

text \<open>One such loop with its test: the next sample, and an error or nothing.\<close>

definition wait_level :: "(nat \<Rightarrow> bool) \<Rightarrow> bool \<Rightarrow> nat \<Rightarrow> nat \<times> (int + unit)" where
  "wait_level smp lvl n =
     (let (n, timeout) = wait_while smp lvl 300 n
      in (n, if timeout = - 1 then Inl (- ETIMEDOUT) else Inr ()))"

text \<open>The loop over the bits of a byte, with \<open>k\<close> bits to go.\<close>

primrec read_bits :: "(nat \<Rightarrow> bool) \<Rightarrow> nat \<Rightarrow> nat \<Rightarrow> 8 word \<Rightarrow> nat \<times> (int + 8 word)" where
  "read_bits smp 0 n byte = (n, Inr byte)"
| "read_bits smp (Suc k) n byte =
     (case wait_level smp True n of
        (n, Inl err) \<Rightarrow> (n, Inl err)
      | (n, Inr _) \<Rightarrow>
          (case wait_level smp False n of
             (n, Inl err) \<Rightarrow> (n, Inl err)
           | (n, Inr _) \<Rightarrow>
               (let byte = push_bit 1 byte
                in read_bits smp k (Suc n) (if smp n then byte OR 1 else byte))))"

text \<open>The loop over the bytes, with \<open>k\<close> bytes to go.\<close>

primrec read_bytes :: "(nat \<Rightarrow> bool) \<Rightarrow> nat \<Rightarrow> nat \<Rightarrow> 8 word list \<Rightarrow> nat \<times> (int + 8 word list)" where
  "read_bytes smp 0 n sensor_data = (n, Inr sensor_data)"
| "read_bytes smp (Suc k) n sensor_data =
     (case read_bits smp 8 n 0 of
        (n, Inl err) \<Rightarrow> (n, Inl err)
      | (n, Inr byte) \<Rightarrow> read_bytes smp k n (sensor_data @ [byte]))"

text \<open>The three loops that follow the start signal, and the data.\<close>

definition read_frame :: "(nat \<Rightarrow> bool) \<Rightarrow> nat \<Rightarrow> nat \<times> (int + 8 word list)" where
  "read_frame smp n =
     (case wait_level smp True n of
        (n, Inl err) \<Rightarrow> (n, Inl err)
      | (n, Inr _) \<Rightarrow>
          (case wait_level smp False n of
             (n, Inl err) \<Rightarrow> (n, Inl err)
           | (n, Inr _) \<Rightarrow>
               (case wait_level smp True n of
                  (n, Inl err) \<Rightarrow> (n, Inl err)
                | (n, Inr _) \<Rightarrow> read_bytes smp 5 n [])))"

definition start_signal :: "pin_op list" where
  "start_signal = [Set_Value False, Delay_us 20000, Set_Value True, Delay_us 30, Direction_Input,
     Delay_us 2]"

definition dht11_text :: "8 word \<Rightarrow> 8 word \<Rightarrow> string" where
  "dht11_text humidity temperature =
     ''Humidity: '' @ dec_int (uint humidity) @ ''%'' @ [LF]
     @ ''Temperature: '' @ dec_int (uint temperature) @ '' deg C'' @ [LF]"

definition dht11_read_data :: "(nat \<Rightarrow> bool) \<Rightarrow> dht11 \<Rightarrow> (dht11 \<times> int) option" where
  "dht11_read_data smp s =
     (let s = pin start_signal s;
          (n, r) = read_frame smp (dh_sample s);
          s = s\<lparr>dh_sample := n\<rparr>
      in case r of
           Inl err \<Rightarrow> Some (s, err)
         | Inr d \<Rightarrow>
             if d ! 4 \<noteq> d ! 0 + d ! 1 + d ! 2 + d ! 3 then Some (s, - EIO)
             else (let s = pin [Direction_Output True] s
                   in case c_sprintf (dh_msg s) (dht11_text (d ! 0) (d ! 2)) of
                        None \<Rightarrow> None
                      | Some msg \<Rightarrow> Some (s\<lparr>dh_msg := msg\<rparr>, 0)))"

subsection \<open>The character device\<close>

text \<open>The loop of \<open>device_open\<close> with \<open>k\<close> tries to go; \<open>ret\<close> is the value of the last try.\<close>

primrec open_loop :: "(nat \<Rightarrow> bool) \<Rightarrow> nat \<Rightarrow> dht11 \<Rightarrow> int \<Rightarrow> (dht11 \<times> int) option" where
  "open_loop smp 0 s ret = Some (pin [Direction_Output True] s, ret)"
| "open_loop smp (Suc k) s ret =
     (case dht11_read_data smp s of
        None \<Rightarrow> None
      | Some (s, ret) \<Rightarrow>
          if ret = 0 then Some (s, 0) else open_loop smp k (pin [Delay_us 10000] s) ret)"

definition dht11_device_open :: "(nat \<Rightarrow> bool) \<Rightarrow> dht11 \<Rightarrow> (dht11 \<times> int) option" where
  "dht11_device_open smp s = open_loop smp 5 s 0"

definition dht11_device_release :: "dht11 \<Rightarrow> dht11 \<times> int" where
  "dht11_device_release s = (s, 0)"

definition dht11_device_read :: "dht11 read_handler" where
  "dht11_device_read s m buffer len off =
     (if \<not> terminated (dh_msg s) then None
      else (let msg_len = int (length (cstr (dh_msg s)))
            in if off \<ge> msg_len then Some (s, m, off, 0)
               else (let remain = nat (msg_len - off); bytes_read = min len remain
                     in if off < 0 then None
                        else (let (m, uncopied) =
                                copy_to_user buffer (take bytes_read (drop (nat off) (dh_msg s))) m
                              in if uncopied \<noteq> 0 then Some (s, m, off, - EFAULT)
                                 else Some (s, m, off + int bytes_read, int bytes_read)))))"

definition dht11_init :: "gpio_cdev_env \<Rightarrow> int \<times> kop list" where
  "dht11_init = gpio_cdev_init ''dht11'' 575"

definition dht11_exit :: "gpio_cdev_env \<Rightarrow> kop list" where
  "dht11_exit = gpio_cdev_exit ''dht11'' 575"

subsection \<open>The message\<close>

definition dht11_inv :: "dht11 \<Rightarrow> bool" where
  "dht11_inv s \<longleftrightarrow> length (dh_msg s) = 64 \<and> terminated (dh_msg s)"

definition dht11_content :: "dht11 \<Rightarrow> string" where
  "dht11_content s = cstr (dh_msg s)"

interpretation dht11_reader: copy_reader dht11_device_read dht11_content dht11_inv
proof unfold_locales
  fix s m buffer n and off :: int
  assume s: "dht11_inv s" and off: "0 \<le> off" "nat off < length (dht11_content s)"
    and map: "mapped m buffer (length (take n (drop (nat off) (dht11_content s))))"
  let ?k = "min n (length (dht11_content s) - nat off)"
  have "nat (int (length (dht11_content s)) - off) = length (dht11_content s) - nat off"
    using off by simp
  moreover have "take ?k (drop (nat off) (dh_msg s)) = take n (drop (nat off) (dht11_content s))"
    using take_drop_cstr by (simp add: dht11_content_def)
  moreover have "\<not> int (length (dht11_content s)) \<le> off" using off by linarith
  ultimately show "dht11_device_read s m buffer n off =
        (let d = take n (drop (nat off) (dht11_content s))
         in Some (s, put_str m buffer d, off + int (length d), int (length d)))"
    using s off copy_to_user_mapped [OF map]
    by (simp add: dht11_device_read_def dht11_inv_def dht11_content_def Let_def min.commute)
next
  fix s m buffer n and off :: int
  assume "dht11_inv s" and "off = int (length (dht11_content s))"
  then show "\<exists>s' m' off'. dht11_device_read s m buffer n off = Some (s', m', off', 0)"
    by (simp add: dht11_device_read_def dht11_inv_def dht11_content_def)
qed

lemma uint8_bound: "uint (w :: 8 word) < 256"
  using unsigned_less [where 'a = int and w = w] by simp

lemma length_dht11_text: "length (dht11_text h t) < 64"
proof -
  have "length (dec_int (uint w)) \<le> 4" for w :: "8 word"
    using length_dec_int [of "uint w" 3] uint8_bound [of w] by simp
  from this [of h] this [of t] show ?thesis by (simp add: dht11_text_def)
qed

lemma dht11_text_no_nul [simp]: "NUL \<notin> set (dht11_text h t)"
  by (simp add: dht11_text_def)

text \<open>What a reading does, from what the frame decodes to.\<close>

lemma read_data_cases:
  assumes "dht11_inv s" and "read_frame smp (dh_sample s) = (n, r)"
  shows "\<exists>s' ret. dht11_read_data smp s = Some (s', ret) \<and> dht11_inv s' \<and> dh_sample s' = n \<and>
    (case r of
       Inl err \<Rightarrow> ret = err \<and> dh_msg s' = dh_msg s \<and> dh_ops s' = dh_ops s @ start_signal
     | Inr d \<Rightarrow>
         if d ! 4 \<noteq> d ! 0 + d ! 1 + d ! 2 + d ! 3
         then ret = - EIO \<and> dh_msg s' = dh_msg s \<and> dh_ops s' = dh_ops s @ start_signal
         else ret = 0 \<and> dht11_content s' = dht11_text (d ! 0) (d ! 2) \<and>
           dh_ops s' = dh_ops s @ start_signal @ [Direction_Output True])"
proof -
  have "c_sprintf (dh_msg s) (dht11_text h t) =
      Some (dht11_text h t @ NUL # drop (Suc (length (dht11_text h t))) (dh_msg s))" for h t
    using length_dht11_text [of h t] assms(1) by (simp add: c_sprintf_Some dht11_inv_def)
  moreover have "length (dht11_text h t) \<le> 63" for h t using length_dht11_text [of h t] by simp
  ultimately show ?thesis
    using assms
    by (cases r) (auto simp: dht11_read_data_def pin_def Let_def dht11_inv_def dht11_content_def)
qed

subsection \<open>What the sensor sends\<close>

text \<open>
  The protocol, as the levels a poller sees. After the start signal the line is pulled low, high and
  low again; each bit starts with the line low and then high, and is 1 if the line is still high when
  the driver looks again. The numbers say how often the poller sees a level before it changes.
\<close>

definition enc_bit :: "nat \<Rightarrow> nat \<Rightarrow> bool \<Rightarrow> bool list" where
  "enc_bit h l b = replicate h True @ [False] @ replicate l False @ [True] @ [b]"

definition enc_byte :: "(nat \<Rightarrow> nat \<times> nat) \<Rightarrow> 8 word \<Rightarrow> bool list" where
  "enc_byte w d = concat (map (\<lambda>i. enc_bit (fst (w i)) (snd (w i)) (bit d (7 - i))) [0..<8])"

definition enc_frame ::
    "nat \<Rightarrow> nat \<Rightarrow> nat \<Rightarrow> ((nat \<Rightarrow> nat \<times> nat) \<times> 8 word) list \<Rightarrow> bool list" where
  "enc_frame a b c ps =
     (replicate a True @ [False]) @ (replicate b False @ [True]) @ (replicate c True @ [False])
     @ concat (map (\<lambda>(w, d). enc_byte w d) ps)"

text \<open>The line shows the levels \<open>xs\<close> from the sample \<open>n\<close> on.\<close>

definition follows :: "(nat \<Rightarrow> bool) \<Rightarrow> nat \<Rightarrow> bool list \<Rightarrow> bool" where
  "follows smp n xs \<longleftrightarrow> (\<forall>i<length xs. smp (n + i) = xs ! i)"

definition waits_ok :: "((nat \<Rightarrow> nat \<times> nat) \<times> 8 word) list \<Rightarrow> bool" where
  "waits_ok ps \<longleftrightarrow> (\<forall>(w, d)\<in>set ps. \<forall>i<8. fst (w i) \<le> 300 \<and> snd (w i) \<le> 300)"

lemma follows_Nil [simp]: "follows smp n []"
  by (simp add: follows_def)

lemma follows_Cons: "follows smp n (x # xs) \<longleftrightarrow> smp n = x \<and> follows smp (Suc n) xs"
  unfolding follows_def by (subst length_Cons, subst All_less_Suc2) simp

lemma follows_append:
  "follows smp n (xs @ ys) \<longleftrightarrow> follows smp n xs \<and> follows smp (n + length xs) ys"
  by (induction xs arbitrary: n) (simp_all add: follows_Cons)

lemma wait_while_follows:
  "follows smp n (replicate h lvl @ [\<not> lvl]) \<Longrightarrow> h \<le> t \<Longrightarrow>
    wait_while smp lvl t n = (n + h + 1, int (t - h))"
proof (induction t arbitrary: n h)
  case 0
  then show ?case by (simp add: follows_Cons)
next
  case (Suc t)
  then show ?case
    using Suc.IH [of "Suc n" "h - 1"] by (cases h) (simp_all add: follows_Cons)
qed

lemma wait_level_follows:
  "follows smp n (replicate h lvl @ [\<not> lvl]) \<Longrightarrow> h \<le> 300 \<Longrightarrow>
    wait_level smp lvl n = (n + h + 1, Inr ())"
  by (simp add: wait_level_def wait_while_follows)

lemma read_bits_follows:
  assumes "follows smp n (concat (map (\<lambda>(h, l, b). enc_bit h l b) ws))"
    and "\<forall>(h, l, b)\<in>set ws. h \<le> 300 \<and> l \<le> 300"
  shows "read_bits smp (length ws) n byte =
    (n + length (concat (map (\<lambda>(h, l, b). enc_bit h l b) ws)),
     Inr (foldl (\<lambda>y (h, l, b). if b then push_bit 1 y OR 1 else push_bit 1 y) byte ws))"
  using assms
proof (induction ws arbitrary: n byte)
  case Nil
  then show ?case by simp
next
  case (Cons hlb ws)
  obtain h l b where hlb: "hlb = (h, l, b)" by (cases hlb)
  let ?rest = "concat (map (\<lambda>(h, l, b). enc_bit h l b) ws)"
  have f: "follows smp n ((replicate h True @ [\<not> True]) @ (replicate l False @ [\<not> False]) @ b # ?rest)"
    using Cons.prems(1) by (simp add: hlb enc_bit_def)
  then have w1: "follows smp n (replicate h True @ [\<not> True])"
    and w2: "follows smp (n + h + 1) (replicate l False @ [\<not> False])"
    and b: "smp (n + h + 1 + l + 1) = b" and rest: "follows smp (Suc (n + h + 1 + l + 1)) ?rest"
    unfolding follows_append by (simp_all add: follows_Cons add.assoc)
  have le: "h \<le> 300" "l \<le> 300" using Cons.prems(2) by (simp_all add: hlb)
  show ?case
    using Cons.IH [OF rest] Cons.prems(2) b
    by (simp add: wait_level_follows [OF w1 le(1), simplified]
        wait_level_follows [OF w2 le(2), simplified] hlb Let_def enc_bit_def)
qed

text \<open>The byte that a list of bits shifts in, the last one lowest.\<close>

definition shift_in :: "8 word \<Rightarrow> bool \<Rightarrow> 8 word" where
  "shift_in y b = (if b then push_bit 1 y OR 1 else push_bit 1 y)"

lemma bit_shift_in: "k < 8 \<Longrightarrow> bit (shift_in y b) k = (if k = 0 then b else bit y (k - 1))"
  by (cases k) (simp_all add: shift_in_def bit_simps bit_double_iff mult.commute [of y 2])

lemma bit_foldl_shift_in:
  "k < length bs \<Longrightarrow> k < 8 \<Longrightarrow> bit (foldl shift_in y bs) k = bs ! (length bs - 1 - k)"
proof (induction bs arbitrary: k rule: rev_induct)
  case Nil
  then show ?case by simp
next
  case (snoc b bs)
  show ?case
  proof (cases k)
    case 0
    then show ?thesis by (simp add: bit_shift_in)
  next
    case (Suc j)
    moreover from Suc snoc.prems have "length bs - Suc j < length bs" by simp
    ultimately show ?thesis using snoc by (simp add: bit_shift_in nth_append)
  qed
qed

lemma byte_of_bits: "foldl shift_in 0 (map (\<lambda>i. bit d (7 - i)) [0..<8]) = d"
proof (rule bit_word_eqI)
  fix k assume "k < LENGTH(8)"
  moreover from this have "[0..<8] ! (7 - k) = 7 - k" by (subst nth_upt) simp_all
  ultimately show "bit (foldl shift_in 0 (map (\<lambda>i. bit d (7 - i)) [0..<8])) k = bit d k"
    by (subst bit_foldl_shift_in) (simp_all add: nth_map del: upt_Suc)
qed

lemma read_byte_follows:
  assumes "follows smp n (enc_byte w d)" and "\<forall>i<8. fst (w i) \<le> 300 \<and> snd (w i) \<le> 300"
  shows "read_bits smp 8 n 0 = (n + length (enc_byte w d), Inr d)"
proof -
  define ws where "ws = map (\<lambda>i. (fst (w i), snd (w i), bit d (7 - i))) [0..<8]"
  have enc: "enc_byte w d = concat (map (\<lambda>(h, l, b). enc_bit h l b) ws)"
    by (simp add: enc_byte_def ws_def comp_def del: upt_Suc)
  have "foldl (\<lambda>y (h, l, b). shift_in y b) 0 ws = foldl shift_in 0 (map (\<lambda>(h, l, b). b) ws)"
    by (simp add: foldl_map case_prod_unfold)
  also have "map (\<lambda>(h, l, b). b) ws = map (\<lambda>i. bit d (7 - i)) [0..<8]"
    by (simp add: ws_def comp_def del: upt_Suc)
  finally have val: "foldl (\<lambda>y (h, l, b). shift_in y b) 0 ws = d" by (simp only: byte_of_bits)
  have "length ws = 8" by (simp add: ws_def)
  moreover have "\<forall>(h, l, b)\<in>set ws. h \<le> 300 \<and> l \<le> 300" using assms(2) by (auto simp: ws_def)
  ultimately show ?thesis
    using read_bits_follows [of smp n ws 0] assms(1) val by (simp add: enc shift_in_def)
qed

lemma read_bytes_follows:
  assumes "follows smp n (concat (map (\<lambda>(w, d). enc_byte w d) ps))" and "waits_ok ps"
  shows "read_bytes smp (length ps) n acc =
    (n + length (concat (map (\<lambda>(w, d). enc_byte w d) ps)), Inr (acc @ map snd ps))"
  using assms
proof (induction ps arbitrary: n acc)
  case Nil
  then show ?case by simp
next
  case (Cons wd ps)
  obtain w d where wd: "wd = (w, d)" by (cases wd)
  have "follows smp n (enc_byte w d)"
    and rest: "follows smp (n + length (enc_byte w d)) (concat (map (\<lambda>(w, d). enc_byte w d) ps))"
    using Cons.prems(1) by (simp_all add: wd follows_append)
  moreover have "\<forall>i<8. fst (w i) \<le> 300 \<and> snd (w i) \<le> 300" and ok: "waits_ok ps"
    using Cons.prems(2) by (simp_all add: wd waits_ok_def)
  ultimately have "read_bits smp 8 n 0 = (n + length (enc_byte w d), Inr d)"
    by (intro read_byte_follows)
  with Cons.IH [OF rest ok] show ?case by (simp add: wd)
qed

text \<open>A frame is decoded to its bytes.\<close>

lemma read_frame_follows:
  assumes "follows smp n (enc_frame a b c ps)" and "a \<le> 300" and "b \<le> 300" and "c \<le> 300"
    and "waits_ok ps" and "length ps = 5"
  shows "read_frame smp n = (n + length (enc_frame a b c ps), Inr (map snd ps))"
proof -
  let ?m = "n + a + 1 + b + 1 + c + 1"
  have f: "follows smp n (replicate a True @ [\<not> True])"
    "follows smp (n + a + 1) (replicate b False @ [\<not> False])"
    "follows smp (n + a + 1 + b + 1) (replicate c True @ [\<not> True])"
    "follows smp ?m (concat (map (\<lambda>(w, d). enc_byte w d) ps))"
    using assms(1) unfolding enc_frame_def follows_append by (simp_all add: ac_simps)
  show ?thesis
    using read_bytes_follows [OF f(4) assms(5), of "[]"] assms(6)
    by (simp add: read_frame_def wait_level_follows [OF f(1) assms(2), simplified]
        wait_level_follows [OF f(2) assms(3), simplified]
        wait_level_follows [OF f(3) assms(4), simplified] enc_frame_def)
qed

text \<open>A line that never changes.\<close>

lemma wait_while_stuck: "\<forall>i\<ge>n. smp i = lvl \<Longrightarrow> wait_while smp lvl t n = (n + t + 1, - 1)"
  by (induction t arbitrary: n) simp_all

lemma read_frame_stuck:
  assumes "\<forall>i\<ge>n. smp i = lvl"
  shows "read_frame smp n = (n + (if lvl then 301 else 302), Inl (- ETIMEDOUT))"
proof (cases lvl)
  case True
  then show ?thesis using wait_while_stuck [OF assms, of 300] by (simp add: read_frame_def wait_level_def)
next
  case False
  have "follows smp n (replicate 0 True @ [\<not> True])" using assms False by (simp add: follows_Cons)
  note first = wait_level_follows [OF this]
  have "\<forall>i\<ge>n + 0 + 1. smp i = lvl" using assms by simp
  from wait_while_stuck [OF this, of 300] False first show ?thesis
    by (simp add: read_frame_def wait_level_def [of smp False])
qed

lemma open_loop_stuck:
  assumes "dht11_inv t" and "\<forall>i\<ge>dh_sample t. smp i = lvl" and "0 < k \<or> r = - ETIMEDOUT"
  shows "\<exists>s'. open_loop smp k t r = Some (s', - ETIMEDOUT) \<and>
    dh_sample s' = dh_sample t + k * (if lvl then 301 else 302)"
  using assms
proof (induction k arbitrary: t r)
  case 0
  then show ?case by (simp add: pin_def)
next
  case (Suc k)
  from read_data_cases [OF Suc.prems(1) read_frame_stuck [OF Suc.prems(2)]] obtain u where u:
    "dht11_read_data smp t = Some (u, - ETIMEDOUT)" "dht11_inv u"
    "dh_sample u = dh_sample t + (if lvl then 301 else 302)"
    by auto
  then have "dht11_inv (pin [Delay_us 10000] u)" "\<forall>i\<ge>dh_sample (pin [Delay_us 10000] u). smp i = lvl"
    using Suc.prems(2) by (simp_all add: pin_def dht11_inv_def)
  from Suc.IH [OF this, of "- ETIMEDOUT"] u show ?case by (auto simp: pin_def)
qed

text \<open>The levels the driver puts on the line; \<open>gpio_set_value\<close> has no effect on an input.\<close>

fun line_levels :: "bool \<Rightarrow> pin_op list \<Rightarrow> bool list" where
  "line_levels out [] = []"
| "line_levels out (Set_Value b # ops) = (if out then b # line_levels out ops else line_levels out ops)"
| "line_levels out (Delay_us n # ops) = line_levels out ops"
| "line_levels out (Direction_Input # ops) = line_levels False ops"
| "line_levels out (Direction_Output b # ops) = b # line_levels True ops"

text \<open>The operations of \<open>k\<close> tries that fail.\<close>

definition failed_tries :: "nat \<Rightarrow> pin_op list" where
  "failed_tries k = concat (replicate k (start_signal @ [Delay_us 10000])) @ [Direction_Output True]"

lemma failed_tries_Suc: "failed_tries (Suc k) = start_signal @ Delay_us 10000 # failed_tries k"
  by (simp add: failed_tries_def)

lemma failed_tries_levels: "line_levels False (failed_tries k) = [True]"
  by (induction k) (simp add: failed_tries_def, simp add: failed_tries_Suc start_signal_def)

lemma failed_tries_starts: "length (filter (\<lambda>p. p = Set_Value False) (failed_tries k)) = k"
  by (induction k) (simp add: failed_tries_def, simp add: failed_tries_Suc start_signal_def)

lemma read_data_failed:
  assumes "dht11_inv s"
  shows "\<exists>t ret. dht11_read_data smp s = Some (t, ret) \<and> dht11_inv t \<and>
    (ret \<noteq> 0 \<longrightarrow> dh_msg t = dh_msg s \<and> dh_ops t = dh_ops s @ start_signal)"
proof -
  obtain n q where "read_frame smp (dh_sample s) = (n, q)" by (cases "read_frame smp (dh_sample s)")
  from read_data_cases [OF assms this] show ?thesis by (cases q) (auto split: if_splits)
qed

lemma open_loop_failed:
  "dht11_inv s \<Longrightarrow> open_loop smp k s r = Some (s', ret) \<Longrightarrow> ret \<noteq> 0 \<Longrightarrow>
    dh_ops s' = dh_ops s @ failed_tries k \<and> dh_msg s' = dh_msg s"
proof (induction k arbitrary: s r)
  case 0
  then show ?case by (auto simp: pin_def failed_tries_def)
next
  case (Suc k)
  from read_data_failed [OF Suc.prems(1)] obtain t ret' where t:
    "dht11_read_data smp s = Some (t, ret')" "dht11_inv t"
    "ret' \<noteq> 0 \<longrightarrow> dh_msg t = dh_msg s \<and> dh_ops t = dh_ops s @ start_signal"
    by blast
  have "ret' \<noteq> 0" using t(1) Suc.prems(2,3) by (auto split: if_splits)
  let ?t = "pin [Delay_us 10000] t"
  have "dht11_inv ?t" using t(2) by (simp add: pin_def dht11_inv_def)
  moreover have "open_loop smp k ?t ret' = Some (s', ret)"
    using t(1) Suc.prems(2) \<open>ret' \<noteq> 0\<close> by simp
  ultimately show ?case
    using Suc.IH [of ?t ret'] Suc.prems(3) t(3) \<open>ret' \<noteq> 0\<close> by (simp add: pin_def failed_tries_Suc)
qed

subsection \<open>The file\<close>

text \<open>\<open>fops\<close>; an open depends on what the sensor sends.\<close>

definition dht11_fops :: "(nat \<Rightarrow> bool, dht11) file_operations" where
  "dht11_fops =
     \<lparr>fop_owner = THIS_MODULE, fop_llseek = None, fop_read = Some dht11_device_read, fop_write = None,
      fop_open = Some dht11_device_open, fop_release = Some dht11_device_release\<rparr>"

lemma dht11_calls [simp]: "call_read dht11_fops = dht11_device_read" "call_write dht11_fops = no_write"
  by (simp_all add: dht11_fops_def fop_calls)

lemma open_loop_Some:
  "dht11_inv s \<Longrightarrow> \<exists>s' ret. open_loop smp k s r = Some (s', ret) \<and> dht11_inv s'"
proof (induction k arbitrary: s r)
  case 0
  then show ?case by (simp add: pin_def dht11_inv_def)
next
  case (Suc k)
  obtain n res where "read_frame smp (dh_sample s) = (n, res)" by fastforce
  from read_data_cases [OF Suc.prems this] obtain t ret where
    t: "dht11_read_data smp s = Some (t, ret)" "dht11_inv t" by blast
  then have "dht11_inv (pin [Delay_us 10000] t)" by (simp add: pin_def dht11_inv_def)
  from Suc.IH [OF this, of ret] t show ?case by simp
qed

interpretation dht11_io: io_device dht11_device_read no_write dht11_inv "\<lambda>off s. 0 \<le> off"
proof unfold_locales
  fix s m buf n and off :: int
  assume s: "dht11_inv s" and off: "0 \<le> off"
  define k where "k = min n (nat (int (length (cstr (dh_msg s))) - off))"
  obtain m' ret where copy: "copy_to_user buf (take k (drop (nat off) (dh_msg s))) m = (m', ret)"
    by (cases "copy_to_user buf (take k (drop (nat off) (dh_msg s))) m")
  have "confined m m' buf n" using copy_to_user_take [OF copy] by (simp add: k_def)
  with s off copy show "\<exists>s' m' off' ret. dht11_device_read s m buf n off = Some (s', m', off', ret) \<and>
      dht11_inv s' \<and> 0 \<le> off' \<and> confined m m' buf n \<and> ret \<le> int n"
    by (auto simp: dht11_device_read_def dht11_inv_def Let_def k_def [symmetric]) (simp_all add: k_def)
qed (simp_all add: no_write_def)

interpretation dht11_file: file_device dht11_fops
    dht11_inv "\<lambda>off s. 0 \<le> off" "\<lambda>k s. True" True dht11_start
proof (rule file_device.intro, simp only: dht11_calls, rule dht11_io.io_device_axioms, unfold_locales)
  fix s k e
  assume "dht11_inv s"
  then show "\<exists>s' ret. call_open dht11_fops e s = Some (s', ret) \<and> dht11_inv s' \<and> True \<and>
      (0 < k \<longrightarrow> (\<forall>p :: int. 0 \<le> p \<longrightarrow> 0 \<le> p))"
    using open_loop_Some [of s e 5 0] by (auto simp: dht11_fops_def fop_calls dht11_device_open_def)
qed (auto simp: dht11_fops_def fop_calls dht11_inv_def dht11_start_def dht11_device_release_def)

subsection \<open>Properties\<close>

text \<open>
  C7: if after the start signal the line carries a frame of five bytes of the sensor's protocol, with
  a good checksum and each level held for at most 300 samples, then opening the device succeeds at the
  first try and cat_nonblock.c prints the first byte as the humidity and the third as the temperature.
\<close>

theorem dht11_open_then_cat:
  assumes "dht11_inv s" and "follows smp (dh_sample s) (enc_frame a b c ps)" and "a \<le> 300"
    and "b \<le> 300" and "c \<le> 300" and "waits_ok ps" and "map snd ps = [d0, d1, d2, d3, d0 + d1 + d2 + d3]"
    and "mapped m buf MAX_BYTES"
  shows "\<exists>s'. dht11_device_open smp s = Some (s', 0) \<and>
    dh_sample s' = dh_sample s + length (enc_frame a b c ps) \<and>
    cat_main 2 prog (vfs_read dht11_device_read buf) (Inr (s', m, 0)) =
      Some (''Humidity: '' @ dec_int (uint d0) @ ''%'' @ [LF]
        @ ''Temperature: '' @ dec_int (uint d2) @ '' deg C'' @ [LF], EXIT_SUCCESS)"
proof -
  have len: "length ps = 5" using arg_cong [OF assms(7), of length] by simp
  from read_data_cases [OF assms(1) read_frame_follows [OF assms(2-6) len]] assms(7) obtain s' where
    s': "dht11_read_data smp s = Some (s', 0)" "dht11_inv s'"
      "dh_sample s' = dh_sample s + length (enc_frame a b c ps)"
      "dht11_content s' = dht11_text d0 d2"
    by auto
  have "(5 :: nat) = Suc 4" by simp
  then have "dht11_device_open smp s = Some (s', 0)"
    by (simp only: dht11_device_open_def open_loop.simps s'(1)) simp
  moreover have "file_ok dht11_inv dht11_content buf MAX_BYTES (s', m, 0)"
    using s'(2) assms(8) by (simp add: file_ok_def)
  from dht11_reader.seq.cat_main_prints [OF this, of prog] s'(4)
  have "cat_main 2 prog (vfs_read dht11_device_read buf) (Inr (s', m, 0)) =
      Some (dht11_text d0 d2, EXIT_SUCCESS)"
    by (simp add: MAX_BYTES_def file_rest_def)
  ultimately show ?thesis using s'(3) by (simp add: dht11_text_def)
qed

definition demo_frame :: "((nat \<Rightarrow> nat \<times> nat) \<times> 8 word) list" where
  "demo_frame = map (\<lambda>d. (\<lambda>i. (i, 3), d)) [55, 0, 24, 1, 80]"

theorem dht11_open_then_cat_witness:
  "\<exists>smp s'. dht11_device_open smp dht11_start = Some (s', 0) \<and>
    cat_main 2 [] (vfs_read dht11_device_read 0) (Inr (s', \<lambda>_. Some NUL, 0)) =
      Some (''Humidity: '' @ dec_int 55 @ ''%'' @ [LF]
        @ ''Temperature: '' @ dec_int 24 @ '' deg C'' @ [LF], EXIT_SUCCESS)"
proof -
  define smp where "smp = (\<lambda>i. enc_frame 2 3 4 demo_frame ! i)"
  have "\<exists>s'. dht11_device_open smp dht11_start = Some (s', 0) \<and>
    dh_sample s' = dh_sample dht11_start + length (enc_frame 2 3 4 demo_frame) \<and>
    cat_main 2 [] (vfs_read dht11_device_read 0) (Inr (s', \<lambda>_. Some NUL, 0)) =
      Some (''Humidity: '' @ dec_int (uint (55 :: 8 word)) @ ''%'' @ [LF]
        @ ''Temperature: '' @ dec_int (uint (24 :: 8 word)) @ '' deg C'' @ [LF], EXIT_SUCCESS)"
  proof (rule dht11_open_then_cat)
    show "follows smp (dh_sample dht11_start) (enc_frame 2 3 4 demo_frame)"
      by (simp add: follows_def smp_def dht11_start_def)
    show "map snd demo_frame = [55, 0, 24, 1, 55 + 0 + 24 + 1]" by (simp add: demo_frame_def)
  qed (simp_all add: dht11_inv_def dht11_start_def waits_ok_def demo_frame_def mapped_def)
  then show ?thesis by auto
qed

text \<open>
  A frame with a wrong checksum is rejected with \<open>EIO\<close> and leaves the last good message in place.
\<close>

theorem dht11_bad_checksum:
  assumes "dht11_inv s" and "follows smp (dh_sample s) (enc_frame a b c ps)" and "a \<le> 300"
    and "b \<le> 300" and "c \<le> 300" and "waits_ok ps" and "map snd ps = [d0, d1, d2, d3, d4]"
    and "d4 \<noteq> d0 + d1 + d2 + d3"
  shows "\<exists>s'. dht11_read_data smp s = Some (s', - EIO) \<and> dh_msg s' = dh_msg s"
proof -
  have len: "length ps = 5" using arg_cong [OF assms(7), of length] by simp
  from read_data_cases [OF assms(1) read_frame_follows [OF assms(2-6) len]] assms(7,8)
  show ?thesis by auto
qed

theorem dht11_bad_checksum_witness:
  "\<exists>smp s'. dht11_read_data smp dht11_start = Some (s', - EIO) \<and> dh_msg s' = zeros 64"
proof -
  let ?ps = "map (\<lambda>d. (\<lambda>i. (0, 0), d)) [55, 0, 24, 1, 81] :: ((nat \<Rightarrow> nat \<times> nat) \<times> 8 word) list"
  have "\<exists>s'. dht11_read_data (\<lambda>i. enc_frame 0 0 0 ?ps ! i) dht11_start = Some (s', - EIO) \<and>
    dh_msg s' = dh_msg dht11_start"
  proof (rule dht11_bad_checksum)
    show "follows (\<lambda>i. enc_frame 0 0 0 ?ps ! i) (dh_sample dht11_start) (enc_frame 0 0 0 ?ps)"
      by (simp add: follows_def dht11_start_def)
    show "map snd ?ps = [55, 0, 24, 1, 81]" by simp
  qed (simp_all add: dht11_inv_def dht11_start_def waits_ok_def)
  then show ?thesis by (auto simp: dht11_start_def)
qed

text \<open>
  C36: a line that is stuck at a level, as with no sensor connected, does not hang the driver: the open
  fails with \<open>ETIMEDOUT\<close> after five tries of 301 samples (302 if the line is low).
\<close>

theorem dht11_stuck_line_times_out:
  assumes "dht11_inv s" and "\<forall>i\<ge>dh_sample s. smp i = lvl"
  shows "\<exists>s'. dht11_device_open smp s = Some (s', - ETIMEDOUT) \<and>
    dh_sample s' = dh_sample s + 5 * (if lvl then 301 else 302)"
  using open_loop_stuck [OF assms, of 5 0] by (simp add: dht11_device_open_def)

theorem dht11_stuck_line_times_out_witness:
  "\<exists>s'. dht11_device_open (\<lambda>_. True) dht11_start = Some (s', - ETIMEDOUT) \<and> dh_sample s' = 1505"
  using dht11_stuck_line_times_out [of dht11_start "\<lambda>_. True" True]
  by (simp add: dht11_inv_def dht11_start_def)

text \<open>
  The retries never ask the sensor again. After a failed try the line is an input, so in an open that
  fails the driver goes through five start signals but pulls the line low only once.
\<close>

theorem dht11_retries_send_no_start:
  assumes "dht11_inv s" and "dht11_device_open smp s = Some (s', ret)" and "ret \<noteq> 0"
  shows "\<exists>ops. dh_ops s' = dh_ops s @ ops \<and> length (filter (\<lambda>p. p = Set_Value False) ops) = 5 \<and>
    line_levels True ops = [False, True, True]"
proof -
  have ops: "dh_ops s' = dh_ops s @ failed_tries 5"
    using open_loop_failed [OF assms(1), of smp 5 0] assms(2,3) by (simp add: dht11_device_open_def)
  have "failed_tries 5 = start_signal @ Delay_us 10000 # failed_tries 4"
    using failed_tries_Suc [of 4] by simp
  then have "line_levels True (failed_tries 5) = [False, True, True]"
    using failed_tries_levels [of 4] by (simp add: start_signal_def)
  with failed_tries_starts [of 5] have "length (filter (\<lambda>p. p = Set_Value False) (failed_tries 5)) = 5 \<and>
      line_levels True (failed_tries 5) = [False, True, True]" by simp
  then show ?thesis using ops by blast
qed

theorem dht11_retries_send_no_start_witness:
  "\<exists>s' ops. dht11_device_open (\<lambda>_. True) dht11_start = Some (s', - ETIMEDOUT) \<and>
    dh_ops s' = dh_ops dht11_start @ ops \<and> line_levels True ops = [False, True, True]"
proof -
  have I: "dht11_inv dht11_start" by (simp add: dht11_inv_def dht11_start_def)
  then obtain s' where "dht11_device_open (\<lambda>_. True) dht11_start = Some (s', - ETIMEDOUT)"
    using open_loop_stuck [of dht11_start "\<lambda>_. True" True 5 0] by (auto simp: dht11_device_open_def)
  with dht11_retries_send_no_start [OF I this] show ?thesis by auto
qed

end
