(* ===== verification/Button_Irq.thy ===== *)
theory Button_Irq
  imports Lifecycle "HOL-Library.Multiset"
begin

text \<open>
  examples/intrpt.c, examples/bottomhalf.c and examples/bh_threaded.c: an LED and two buttons on GPIO
  lines, whose interrupts switch the LED (intrpt.c), also schedule some work for later (bottomhalf.c),
  or only wake a thread (bh_threaded.c). The three modules acquire the same lines and interrupts, in
  one of two ways that the kernel version selects (\<open>NO_GPIO_REQUEST_ARRAY\<close> from 6.10 on); intrpt.c does
  not set the lines' directions in the first of them.
\<close>

subsection \<open>Loading and unloading\<close>

definition NO_GPIO_REQUEST_ARRAY :: "nat \<Rightarrow> bool" where
  "NO_GPIO_REQUEST_ARRAY ver \<longleftrightarrow> ver \<ge> KERNEL_VERSION 6 10 0"

text \<open>The kernel's version and its answers. A request for an array of lines gets all or none.\<close>

record button_env =
  be_ver :: nat
  be_led_request :: int
  be_led_direction :: int
  be_button_request :: "int \<times> int"
  be_button_direction :: "int \<times> int"
  be_led_array :: int
  be_button_array :: int
  be_gpio_to_irq :: "int \<times> int"
  be_request_irq :: "int \<times> int"

abbreviation "led_gpio \<equiv> Gpio 4"
abbreviation "button_gpio0 \<equiv> Gpio 17"
abbreviation "button_gpio1 \<equiv> Gpio 18"

text \<open>
  The init function of the three modules: \<open>dirs\<close> says whether it sets the directions of lines it
  requested one by one, and \<open>ck0\<close> and \<open>ck1\<close> are the cookies it registers its handlers with.
\<close>

definition button_irqs :: "string \<Rightarrow> string \<Rightarrow> button_env \<Rightarrow> kop list \<Rightarrow> kop list \<Rightarrow> kop list \<Rightarrow> int \<times> kop list"
where
  "button_irqs ck0 ck1 e undo0 undo1 undo2 =
     (let ret = fst (be_gpio_to_irq e)
      in if ret < 0 then (ret, undo0)
         else (let irq0 = ret; ret = fst (be_request_irq e)
      in if ret \<noteq> 0 then (ret, undo0)
         else (let ks = [Acquire (Irq irq0 ck0)]; ret = snd (be_gpio_to_irq e)
      in if ret < 0 then (ret, ks @ undo1)
         else (let irq1 = ret; ret = snd (be_request_irq e)
      in if ret \<noteq> 0 then (ret, ks @ undo2)
         else (0, ks @ [Acquire (Irq irq1 ck1)])))))"

definition fail_led :: "kop list" where
  "fail_led = [Release led_gpio]"

definition fail_button0 :: "kop list" where
  "fail_button0 = Release button_gpio0 # fail_led"

definition fail_button1 :: "kop list" where
  "fail_button1 = Release button_gpio1 # fail_button0"

definition fail_irq0 :: "string \<Rightarrow> button_env \<Rightarrow> kop list" where
  "fail_irq0 ck0 e = Release (Irq (fst (be_gpio_to_irq e)) ck0) # fail_button1"

text \<open>The lines one by one, with the labels \<open>fail2\<close> to \<open>fail5\<close> (\<open>fail1\<close> to \<open>fail4\<close> in intrpt.c).\<close>

definition button_init_single :: "bool \<Rightarrow> string \<Rightarrow> string \<Rightarrow> button_env \<Rightarrow> int \<times> kop list" where
  "button_init_single dirs ck0 ck1 e =
     (let ret = be_led_request e
      in if ret \<noteq> 0 then (ret, [])
         else (let ks = [Acquire led_gpio]; ret = be_led_direction e
      in if dirs \<and> ret \<noteq> 0 then (ret, ks @ fail_led)
         else (let ret = fst (be_button_request e)
      in if ret \<noteq> 0 then (ret, ks @ fail_led)
         else (let ks = ks @ [Acquire button_gpio0]; ret = snd (be_button_request e)
      in if ret \<noteq> 0 then (ret, ks @ fail_button0)
         else (let ks = ks @ [Acquire button_gpio1]; ret = fst (be_button_direction e)
      in if dirs \<and> ret \<noteq> 0 then (ret, ks @ fail_button1)
         else (let ret = snd (be_button_direction e)
      in if dirs \<and> ret \<noteq> 0 then (ret, ks @ fail_button1)
         else (let (ret, ks') = button_irqs ck0 ck1 e fail_button1 (fail_irq0 ck0 e) (fail_irq0 ck0 e)
               in (ret, ks @ ks'))))))))"

text \<open>
  The lines as arrays, with the labels \<open>fail1\<close> to \<open>fail3\<close>. When the second button has no interrupt
  line, the code goes to \<open>fail2\<close>, past the \<open>free_irq\<close>.
\<close>

definition button_init_array :: "string \<Rightarrow> string \<Rightarrow> button_env \<Rightarrow> int \<times> kop list" where
  "button_init_array ck0 ck1 e =
     (let ret = be_led_array e
      in if ret \<noteq> 0 then (ret, [])
         else (let ks = [Acquire led_gpio]; ret = be_button_array e
      in if ret \<noteq> 0 then (ret, ks @ [Release led_gpio])
         else (let ks = ks @ [Acquire button_gpio0, Acquire button_gpio1];
                   fail2 = [Release button_gpio0, Release button_gpio1, Release led_gpio];
                   fail3 = Release (Irq (fst (be_gpio_to_irq e)) ck0) # fail2;
                   (ret, ks') = button_irqs ck0 ck1 e fail2 fail2 fail3
               in (ret, ks @ ks'))))"

definition button_exit :: "string \<Rightarrow> string \<Rightarrow> button_env \<Rightarrow> kop list" where
  "button_exit ck0 ck1 e =
     [Release (Irq (fst (be_gpio_to_irq e)) ck0), Release (Irq (snd (be_gpio_to_irq e)) ck1),
      Release led_gpio, Release button_gpio0, Release button_gpio1]"

definition button_owned :: "string \<Rightarrow> string \<Rightarrow> button_env \<Rightarrow> resource set" where
  "button_owned ck0 ck1 e =
     {led_gpio, button_gpio0, button_gpio1, Irq (fst (be_gpio_to_irq e)) ck0,
      Irq (snd (be_gpio_to_irq e)) ck1}"

definition bottomhalf_init :: "button_env \<Rightarrow> int \<times> kop list" where
  "bottomhalf_init e =
     (if NO_GPIO_REQUEST_ARRAY (be_ver e) then button_init_single True ''NULL'' ''NULL'' e
      else button_init_array ''NULL'' ''NULL'' e)"

definition bottomhalf_exit :: "button_env \<Rightarrow> kop list" where
  "bottomhalf_exit e = button_exit ''NULL'' ''NULL'' e"

definition intrpt_init :: "button_env \<Rightarrow> int \<times> kop list" where
  "intrpt_init e =
     (if NO_GPIO_REQUEST_ARRAY (be_ver e) then button_init_single False ''NULL'' ''NULL'' e
      else button_init_array ''NULL'' ''NULL'' e)"

definition intrpt_exit :: "button_env \<Rightarrow> kop list" where
  "intrpt_exit e = button_exit ''NULL'' ''NULL'' e"

text \<open>bh_threaded.c registers its handlers with the buttons as cookies when it uses the arrays.\<close>

definition bh_threaded_init :: "button_env \<Rightarrow> int \<times> kop list" where
  "bh_threaded_init e =
     (if NO_GPIO_REQUEST_ARRAY (be_ver e) then button_init_single True ''NULL'' ''NULL'' e
      else button_init_array ''&buttons[0]'' ''&buttons[1]'' e)"

definition bh_threaded_exit :: "button_env \<Rightarrow> kop list" where
  "bh_threaded_exit e =
     (if NO_GPIO_REQUEST_ARRAY (be_ver e) then button_exit ''NULL'' ''NULL'' e
      else button_exit ''&buttons[0]'' ''&buttons[1]'' e)"

definition bh_threaded_owned :: "button_env \<Rightarrow> resource set" where
  "bh_threaded_owned e =
     (if NO_GPIO_REQUEST_ARRAY (be_ver e) then button_owned ''NULL'' ''NULL'' e
      else button_owned ''&buttons[0]'' ''&buttons[1]'' e)"

text \<open>
  The two buttons have different interrupt lines, and the second one has a line, unless the lines are
  requested one by one.
\<close>

definition button_env_ok :: "button_env \<Rightarrow> bool" where
  "button_env_ok e \<longleftrightarrow> fst (be_gpio_to_irq e) \<noteq> snd (be_gpio_to_irq e) \<and>
     (NO_GPIO_REQUEST_ARRAY (be_ver e) \<or> 0 \<le> snd (be_gpio_to_irq e))"

lemmas button_labels = fail_led_def fail_button0_def fail_button1_def fail_irq0_def

lemma button_single_cases:
  assumes "fst (be_gpio_to_irq e) \<noteq> snd (be_gpio_to_irq e)"
  shows "kops_run (snd (button_init_single dirs ck0 ck1 e)) {} =
    Some (if fst (button_init_single dirs ck0 ck1 e) = 0 then button_owned ck0 ck1 e else {})"
  using assms
  by (auto simp: button_init_single_def button_irqs_def button_owned_def button_labels Let_def)

lemma button_array_cases:
  assumes "fst (be_gpio_to_irq e) \<noteq> snd (be_gpio_to_irq e)" and "0 \<le> snd (be_gpio_to_irq e)"
  shows "kops_run (snd (button_init_array ck0 ck1 e)) {} =
    Some (if fst (button_init_array ck0 ck1 e) = 0 then button_owned ck0 ck1 e else {})"
  using assms by (auto simp: button_init_array_def button_irqs_def button_owned_def Let_def)

lemma button_exit_releases:
  assumes "fst (be_gpio_to_irq e) \<noteq> snd (be_gpio_to_irq e)"
  shows "kops_run (button_exit ck0 ck1 e) (button_owned ck0 ck1 e) = Some {}"
  using assms by (auto simp: button_exit_def button_owned_def)

lemmas button_runs = button_single_cases button_array_cases button_exit_releases

interpretation bottomhalf_mod: module_lifecycle bottomhalf_init bottomhalf_exit
    "button_owned ''NULL'' ''NULL''" button_env_ok
  by unfold_locales
    (auto simp: bottomhalf_init_def bottomhalf_exit_def button_env_ok_def button_runs split: if_splits)

interpretation intrpt_mod: module_lifecycle intrpt_init intrpt_exit
    "button_owned ''NULL'' ''NULL''" button_env_ok
  by unfold_locales
    (auto simp: intrpt_init_def intrpt_exit_def button_env_ok_def button_runs split: if_splits)

interpretation bh_threaded_mod: module_lifecycle bh_threaded_init bh_threaded_exit bh_threaded_owned
    button_env_ok
  by unfold_locales
    (auto simp: bh_threaded_init_def bh_threaded_exit_def bh_threaded_owned_def button_env_ok_def
      button_runs split: if_splits)

subsection \<open>The handlers\<close>

datatype irqreturn = IRQ_HANDLED | IRQ_WAKE_THREAD

text \<open>
  \<open>button_isr\<close> of intrpt.c and bottomhalf.c reads the LED's level and, if the line wants the other one,
  writes that: the level it writes, for the interrupt line and the level it read.
\<close>

definition button_isr :: "int \<times> int \<Rightarrow> int \<Rightarrow> bool \<Rightarrow> bool option" where
  "button_isr irqs irq led =
     (if irq = fst irqs \<and> \<not> led then Some True
      else if irq = snd irqs \<and> led then Some False
      else None)"

text \<open>
  Where the handler of an interrupt line is: not running; it has read the LED; it has written the LED
  (or left it) and has not scheduled the work yet. The kernel runs the handler of a line on one
  processor at a time (an interrupt that comes meanwhile is delivered after), but those of the two lines
  may run at once, and no lock keeps them apart.
\<close>

datatype isr_place = Isr_Idle | Isr_Read bool | Isr_Written

text \<open>
  bottomhalf.c: the LED, the two handlers, whether \<open>bottomhalf_work\<close> is pending, how often it has run,
  and whether the module is loaded.
\<close>

record bottomhalf =
  bh_led :: bool
  bh_isr :: "int \<Rightarrow> isr_place"
  bh_pending :: bool                  \<comment> \<open>the work is queued\<close>
  bh_running :: bool                  \<comment> \<open>a worker is in \<open>bottomhalf_work_fn\<close>\<close>
  bh_runs :: nat                      \<comment> \<open>times it has ended\<close>
  bh_loaded :: bool

definition bottomhalf_start :: bottomhalf where
  "bottomhalf_start = \<lparr>bh_led = False, bh_isr = \<lambda>_. Isr_Idle, bh_pending = False, bh_running = False,
     bh_runs = 0, bh_loaded = True\<rparr>"

text \<open>One step of the handler of bottomhalf.c for a line: an interrupt makes the first one.\<close>

definition bottomhalf_isr :: "int \<times> int \<Rightarrow> int \<Rightarrow> bottomhalf \<Rightarrow> bottomhalf" where
  "bottomhalf_isr irqs irq s =
     (case bh_isr s irq of
        Isr_Idle \<Rightarrow> s\<lparr>bh_isr := (bh_isr s)(irq := Isr_Read (bh_led s))\<rparr>
      | Isr_Read led \<Rightarrow>
          s\<lparr>bh_led := (case button_isr irqs irq led of None \<Rightarrow> bh_led s | Some level \<Rightarrow> level),
            bh_isr := (bh_isr s)(irq := Isr_Written)\<rparr>
      | Isr_Written \<Rightarrow> s\<lparr>bh_isr := (bh_isr s)(irq := Isr_Idle), bh_pending := True\<rparr>)"

text \<open>
  \<open>bottomhalf_work_fn\<close> sleeps in its middle: a kernel worker takes the work off the queue and enters the
  function, and later leaves it. \<open>None\<close> is a step of the function in a module that is unloaded.
\<close>

definition bottomhalf_work_starts :: "bottomhalf \<Rightarrow> bottomhalf option" where
  "bottomhalf_work_starts s =
     (if bh_loaded s then Some (s\<lparr>bh_pending := False, bh_running := True\<rparr>) else None)"

definition bottomhalf_work_ends :: "bottomhalf \<Rightarrow> bottomhalf option" where
  "bottomhalf_work_ends s =
     (if bh_loaded s then Some (s\<lparr>bh_running := False, bh_runs := Suc (bh_runs s)\<rparr>) else None)"

text \<open>The handlers of bh_threaded.c.\<close>

definition button_top_half :: "int \<Rightarrow> irqreturn" where
  "button_top_half irq = IRQ_WAKE_THREAD"

definition button_bottom_half :: "int \<Rightarrow> irqreturn" where
  "button_bottom_half irq = IRQ_HANDLED"

text \<open>
  What can happen to a loaded bottomhalf.c: a step of the handler of one of its two lines, a worker that
  starts with the work (one at a time) or has done it, and the exit function, which waits in \<open>free_irq\<close>
  for the handlers to return, switches the LED off and leaves the work alone. An event that cannot
  happen in a state leaves it as it is.
\<close>

datatype bh_event = Isr int | Work_Starts | Work_Ends | Unload

definition isr_active :: "int \<times> int \<Rightarrow> bottomhalf \<Rightarrow> int \<Rightarrow> bool" where
  "isr_active irqs s irq \<longleftrightarrow> bh_loaded s \<and> (irq = fst irqs \<or> irq = snd irqs)"

fun bh_step :: "int \<times> int \<Rightarrow> bottomhalf \<Rightarrow> bh_event \<Rightarrow> bottomhalf option" where
  "bh_step irqs s (Isr irq) = Some (if isr_active irqs s irq then bottomhalf_isr irqs irq s else s)"
| "bh_step irqs s Work_Starts = (if bh_pending s \<and> \<not> bh_running s then bottomhalf_work_starts s else Some s)"
| "bh_step irqs s Work_Ends = (if bh_running s then bottomhalf_work_ends s else Some s)"
| "bh_step irqs s Unload =
     Some (if bh_isr s (fst irqs) = Isr_Idle \<and> bh_isr s (snd irqs) = Isr_Idle
           then s\<lparr>bh_led := False, bh_loaded := False\<rparr> else s)"

fun bh_run :: "int \<times> int \<Rightarrow> bottomhalf \<Rightarrow> bh_event list \<Rightarrow> bottomhalf option" where
  "bh_run irqs s [] = Some s"
| "bh_run irqs s (ev # evs) =
     (case bh_step irqs s ev of None \<Rightarrow> None | Some s' \<Rightarrow> bh_run irqs s' evs)"

subsection \<open>Interrupts and their effects\<close>

text \<open>The line whose interrupt an event is: one that enters a handler.\<close>

definition entered :: "int \<times> int \<Rightarrow> bottomhalf \<Rightarrow> bh_event \<Rightarrow> int list" where
  "entered irqs s ev =
     (case ev of Isr irq \<Rightarrow> if isr_active irqs s irq \<and> bh_isr s irq = Isr_Idle then [irq] else [] | _ \<Rightarrow> [])"

text \<open>
  A handler takes effect when it reads the LED, if it finds it at its own level, and when it writes it
  otherwise: the line whose handler takes effect in an event.
\<close>

definition took_effect :: "int \<times> int \<Rightarrow> bottomhalf \<Rightarrow> bh_event \<Rightarrow> int list" where
  "took_effect irqs s ev =
     (case ev of
        Isr irq \<Rightarrow>
          if isr_active irqs s irq \<and>
            (case bh_isr s irq of
               Isr_Idle \<Rightarrow> button_isr irqs irq (bh_led s) = None
             | Isr_Read led \<Rightarrow> button_isr irqs irq led \<noteq> None
             | Isr_Written \<Rightarrow> False)
          then [irq] else []
      | _ \<Rightarrow> [])"

text \<open>What is observed in the events of a run, one after the other.\<close>

fun observed ::
    "(bottomhalf \<Rightarrow> bh_event \<Rightarrow> 'b list) \<Rightarrow> int \<times> int \<Rightarrow> bottomhalf \<Rightarrow> bh_event list \<Rightarrow> 'b list" where
  "observed f irqs s [] = []"
| "observed f irqs s (ev # evs) =
     f s ev @ (case bh_step irqs s ev of None \<Rightarrow> [] | Some s' \<Rightarrow> observed f irqs s' evs)"

definition interrupts :: "int \<times> int \<Rightarrow> bottomhalf \<Rightarrow> bh_event list \<Rightarrow> int list" where
  "interrupts irqs = observed (entered irqs) irqs"

definition effects :: "int \<times> int \<Rightarrow> bottomhalf \<Rightarrow> bh_event list \<Rightarrow> int list" where
  "effects irqs = observed (took_effect irqs) irqs"

text \<open>The handlers that have read the LED and will write it.\<close>

definition will_write :: "int \<times> int \<Rightarrow> bottomhalf \<Rightarrow> int \<Rightarrow> int list" where
  "will_write irqs s irq =
     (case bh_isr s irq of Isr_Read led \<Rightarrow> if button_isr irqs irq led \<noteq> None then [irq] else [] | _ \<Rightarrow> [])"

definition in_flight :: "int \<times> int \<Rightarrow> bottomhalf \<Rightarrow> int list" where
  "in_flight irqs s = will_write irqs s (fst irqs) @ will_write irqs s (snd irqs)"

text \<open>No handler is entered while one runs.\<close>

fun one_at_a_time :: "int \<times> int \<Rightarrow> bottomhalf \<Rightarrow> bh_event list \<Rightarrow> bool" where
  "one_at_a_time irqs s [] = True"
| "one_at_a_time irqs s (ev # evs) =
     ((entered irqs s ev \<noteq> [] \<longrightarrow> bh_isr s (fst irqs) = Isr_Idle \<and> bh_isr s (snd irqs) = Isr_Idle) \<and>
      (case bh_step irqs s ev of None \<Rightarrow> True | Some s' \<Rightarrow> one_at_a_time irqs s' evs))"

definition isrs_running :: "int \<times> int \<Rightarrow> bottomhalf \<Rightarrow> nat" where
  "isrs_running irqs s = (if bh_isr s (fst irqs) = Isr_Idle then 0 else 1)
     + (if bh_isr s (snd irqs) = Isr_Idle then 0 else 1)"

text \<open>How often the work was started, and how often it is over, running or queued.\<close>

definition work_started :: "bottomhalf \<Rightarrow> nat" where
  "work_started s = bh_runs s + (if bh_running s then 1 else 0)"

definition work_asked :: "bottomhalf \<Rightarrow> nat" where
  "work_asked s = work_started s + (if bh_pending s then 1 else 0)"

text \<open>The LED after handlers took effect: it shows the line of the last one.\<close>

definition shown :: "int \<times> int \<Rightarrow> bool \<Rightarrow> int list \<Rightarrow> bool" where
  "shown irqs led es = (if es = [] then led else last es = fst irqs)"

lemma shown_append: "shown irqs led (es @ fs) = shown irqs (shown irqs led es) fs"
  by (simp add: shown_def)

lemmas isr_base = bottomhalf_isr_def isr_active_def entered_def took_effect_def will_write_def
  in_flight_def isrs_running_def

lemmas isr_defs = isr_base button_isr_def shown_def

text \<open>A step of one of the two handlers.\<close>

lemma isr_step:
  assumes "fst irqs \<noteq> snd irqs" and "bh_loaded s" and "irq = fst irqs \<or> irq = snd irqs"
  defines "t \<equiv> bottomhalf_isr irqs irq s"
  shows "bh_led t = shown irqs (bh_led s) (took_effect irqs s (Isr irq))"
    and "mset (in_flight irqs s) + mset (entered irqs s (Isr irq)) =
      mset (took_effect irqs s (Isr irq)) + mset (in_flight irqs t)"
    and "isrs_running irqs t \<le> isrs_running irqs s + length (entered irqs s (Isr irq))"
    and "work_asked t + isrs_running irqs t \<le>
      work_asked s + isrs_running irqs s + length (entered irqs s (Isr irq))"
  using assms(3) assms(1,2) unfolding t_def
  by (auto simp: isr_defs work_asked_def work_started_def split: isr_place.splits)

lemma isr_step_alone:
  assumes "fst irqs \<noteq> snd irqs" and "bh_loaded s" and "irq = fst irqs \<or> irq = snd irqs"
    and "isrs_running irqs s \<le> 1"
    and "entered irqs s (Isr irq) \<noteq> [] \<longrightarrow> bh_isr s (fst irqs) = Isr_Idle \<and> bh_isr s (snd irqs) = Isr_Idle"
  shows "in_flight irqs s @ entered irqs s (Isr irq) =
      took_effect irqs s (Isr irq) @ in_flight irqs (bottomhalf_isr irqs irq s)"
    and "isrs_running irqs (bottomhalf_isr irqs irq s) \<le> 1"
proof -
  obtain other where other: "other \<noteq> irq" "{fst irqs, snd irqs} = {irq, other}"
    using assms(1,3) by (metis insert_commute)
  have active: "isr_active irqs s irq" using assms(2,3) by (simp add: isr_active_def)
  have idle: "bh_isr s other = Isr_Idle"
  proof (cases "bh_isr s irq = Isr_Idle")
    case True
    with assms(5) active have "bh_isr s (fst irqs) = Isr_Idle \<and> bh_isr s (snd irqs) = Isr_Idle"
      by (simp add: entered_def)
    with other(2) show ?thesis by (metis insertE insertI1 insert_commute singletonD)
  next
    case False
    with assms(4) other show ?thesis
      by (auto simp: isrs_running_def doubleton_eq_iff split: if_splits)
  qed
  have flight: "in_flight irqs u = will_write irqs u irq" if "bh_isr u other = Isr_Idle" for u
    using that other by (auto simp: in_flight_def will_write_def doubleton_eq_iff)
  have "bh_isr (bottomhalf_isr irqs irq s) other = Isr_Idle"
    using idle other(1) by (simp add: bottomhalf_isr_def split: isr_place.split)
  note flights = flight [OF idle] flight [OF this]
  show "in_flight irqs s @ entered irqs s (Isr irq) =
      took_effect irqs s (Isr irq) @ in_flight irqs (bottomhalf_isr irqs irq s)"
    unfolding flights using active
    by (cases "bh_isr s irq") (simp_all add: entered_def took_effect_def will_write_def bottomhalf_isr_def)
  show "isrs_running irqs (bottomhalf_isr irqs irq s) \<le> 1"
    using idle other by (auto simp: isrs_running_def bottomhalf_isr_def doubleton_eq_iff split: isr_place.split)
qed

lemma isr_frame:
  "bh_loaded (bottomhalf_isr irqs irq s) = bh_loaded s"
  "work_started (bottomhalf_isr irqs irq s) = work_started s"
  "work_asked s \<le> work_asked (bottomhalf_isr irqs irq s)"
  by (simp_all add: bottomhalf_isr_def work_started_def work_asked_def split: isr_place.split)

text \<open>An event other than a handler's step, while the module is loaded, leaves LED and handlers.\<close>

lemma work_step:
  assumes "bh_loaded s" and "ev = Work_Starts \<or> ev = Work_Ends"
  obtains t where "bh_step irqs s ev = Some t" "bh_loaded t" "bh_led t = bh_led s" "bh_isr t = bh_isr s"
    "work_asked t = work_asked s" "work_started s \<le> work_started t"
    "entered irqs s ev = []" "took_effect irqs s ev = []"
proof -
  have "\<exists>t. bh_step irqs s ev = Some t \<and> bh_loaded t \<and> bh_led t = bh_led s \<and> bh_isr t = bh_isr s \<and>
    work_asked t = work_asked s \<and> work_started s \<le> work_started t"
    using assms(2,1)
    by (elim disjE; cases "bh_pending s"; cases "bh_running s";
        simp add: bottomhalf_work_starts_def bottomhalf_work_ends_def work_asked_def work_started_def)
  with that assms(2) show ?thesis by (auto simp: entered_def took_effect_def)
qed

text \<open>Any event while the module is loaded.\<close>

lemma bh_step_loaded:
  assumes "fst irqs \<noteq> snd irqs" and "bh_loaded s" and "ev \<noteq> Unload"
  obtains t where "bh_step irqs s ev = Some t" "bh_loaded t"
    "bh_led t = shown irqs (bh_led s) (took_effect irqs s ev)"
    "mset (in_flight irqs s) + mset (entered irqs s ev) = mset (took_effect irqs s ev) + mset (in_flight irqs t)"
    "work_asked t + isrs_running irqs t \<le> work_asked s + isrs_running irqs s + length (entered irqs s ev)"
    "work_asked s \<le> work_asked t" "work_started s \<le> work_started t"
proof (cases "ev = Work_Starts \<or> ev = Work_Ends")
  case True
  from work_step [OF assms(2) this] obtain t where t: "bh_step irqs s ev = Some t" "bh_loaded t"
    "bh_led t = bh_led s" "bh_isr t = bh_isr s" "work_asked t = work_asked s"
    "work_started s \<le> work_started t" "entered irqs s ev = []" "took_effect irqs s ev = []" .
  then show ?thesis
    by (intro that [of t]) (simp_all add: in_flight_def isrs_running_def shown_def will_write_def)
next
  case False
  with assms(3) obtain irq where ev: "ev = Isr irq" by (cases ev) auto
  show ?thesis
  proof (cases "irq = fst irqs \<or> irq = snd irqs")
    case True
    from isr_step [OF assms(1,2) True] isr_frame [where irqs = irqs and irq = irq and s = s] True assms(2) ev that
    show ?thesis by (simp add: isr_active_def)
  next
    case False
    with ev that assms(2) show ?thesis
      by (simp add: isr_active_def entered_def took_effect_def shown_def)
  qed
qed

lemma bh_step_alone:
  assumes "fst irqs \<noteq> snd irqs" and "bh_loaded s" and "ev \<noteq> Unload" and "isrs_running irqs s \<le> 1"
    and "entered irqs s ev \<noteq> [] \<longrightarrow> bh_isr s (fst irqs) = Isr_Idle \<and> bh_isr s (snd irqs) = Isr_Idle"
    and t: "bh_step irqs s ev = Some t"
  shows "in_flight irqs s @ entered irqs s ev = took_effect irqs s ev @ in_flight irqs t \<and>
    isrs_running irqs t \<le> 1"
proof (cases "ev = Work_Starts \<or> ev = Work_Ends")
  case True
  from work_step [OF assms(2) this, where irqs = irqs] t obtain "bh_isr t = bh_isr s" "entered irqs s ev = []"
    "took_effect irqs s ev = []" by auto
  with assms(4) show ?thesis by (simp add: in_flight_def isrs_running_def will_write_def)
next
  case False
  with assms(3) obtain irq where ev: "ev = Isr irq" by (cases ev) auto
  show ?thesis
  proof (cases "irq = fst irqs \<or> irq = snd irqs")
    case True
    from isr_step_alone [OF assms(1,2) True assms(4)] assms(5) t True assms(2) ev
    show ?thesis by (simp add: isr_active_def)
  next
    case False
    with ev t assms(4) show ?thesis by (simp add: isr_active_def entered_def took_effect_def)
  qed
qed

text \<open>Runs of a loaded module.\<close>

lemma bh_run_loaded:
  assumes "fst irqs \<noteq> snd irqs" and "bh_loaded s" and "Unload \<notin> set evs"
  shows "\<exists>t. bh_run irqs s evs = Some t \<and> bh_loaded t \<and>
    bh_led t = shown irqs (bh_led s) (effects irqs s evs) \<and>
    mset (in_flight irqs s) + mset (interrupts irqs s evs) =
      mset (effects irqs s evs) + mset (in_flight irqs t) \<and>
    work_asked t + isrs_running irqs t \<le>
      work_asked s + isrs_running irqs s + length (interrupts irqs s evs) \<and>
    work_asked s \<le> work_asked t \<and> work_started s \<le> work_started t"
  using assms(2,3)
proof (induction evs arbitrary: s)
  case Nil
  then show ?case by (simp add: effects_def interrupts_def shown_def)
next
  case (Cons ev evs)
  then have "ev \<noteq> Unload" "Unload \<notin> set evs" by auto
  from bh_step_loaded [OF assms(1) Cons.prems(1) this(1)] obtain u where u: "bh_step irqs s ev = Some u"
    "bh_loaded u" "bh_led u = shown irqs (bh_led s) (took_effect irqs s ev)"
    "mset (in_flight irqs s) + mset (entered irqs s ev) = mset (took_effect irqs s ev) + mset (in_flight irqs u)"
    "work_asked u + isrs_running irqs u \<le> work_asked s + isrs_running irqs s + length (entered irqs s ev)"
    "work_asked s \<le> work_asked u" "work_started s \<le> work_started u" .
  have split: "effects irqs s (ev # evs) = took_effect irqs s ev @ effects irqs u evs"
    "interrupts irqs s (ev # evs) = entered irqs s ev @ interrupts irqs u evs"
    using u(1) by (simp_all add: effects_def interrupts_def)
  from Cons.IH [OF u(2) \<open>Unload \<notin> set evs\<close>] obtain t where t: "bh_run irqs u evs = Some t" "bh_loaded t"
    "bh_led t = shown irqs (bh_led u) (effects irqs u evs)"
    "mset (in_flight irqs u) + mset (interrupts irqs u evs) =
      mset (effects irqs u evs) + mset (in_flight irqs t)"
    "work_asked t + isrs_running irqs t \<le>
      work_asked u + isrs_running irqs u + length (interrupts irqs u evs)"
    "work_asked u \<le> work_asked t" "work_started u \<le> work_started t" by blast
  have "bh_led t = shown irqs (bh_led s) (effects irqs s (ev # evs))"
    by (simp add: split shown_append t(3) u(3))
  moreover have "mset (in_flight irqs s) + mset (interrupts irqs s (ev # evs)) =
      mset (took_effect irqs s ev) + (mset (in_flight irqs u) + mset (interrupts irqs u evs))"
    by (simp add: split u(4) [symmetric] add.assoc [symmetric])
  then have "mset (in_flight irqs s) + mset (interrupts irqs s (ev # evs)) =
      mset (effects irqs s (ev # evs)) + mset (in_flight irqs t)"
    by (simp add: split t(4) add.assoc)
  moreover have "bh_run irqs s (ev # evs) = Some t" using u(1) t(1) by simp
  moreover have "work_asked t + isrs_running irqs t \<le>
      work_asked s + isrs_running irqs s + length (interrupts irqs s (ev # evs))"
    using u(5) t(5) by (simp add: split)
  ultimately show ?case using t(2,6,7) u(6,7) by (intro exI [of _ t]) simp
qed

lemma bh_run_alone:
  assumes "fst irqs \<noteq> snd irqs" and "bh_loaded s" and "Unload \<notin> set evs" and "isrs_running irqs s \<le> 1"
    and "one_at_a_time irqs s evs" and "bh_run irqs s evs = Some t"
  shows "in_flight irqs s @ interrupts irqs s evs = effects irqs s evs @ in_flight irqs t"
  using assms(2-)
proof (induction evs arbitrary: s)
  case Nil
  then show ?case by (simp add: effects_def interrupts_def)
next
  case (Cons ev evs)
  then have ev: "ev \<noteq> Unload" "Unload \<notin> set evs" by auto
  from bh_step_loaded [OF assms(1) Cons.prems(1) ev(1)] obtain u where u: "bh_step irqs s ev = Some u"
    "bh_loaded u" by metis
  have step: "in_flight irqs s @ entered irqs s ev = took_effect irqs s ev @ in_flight irqs u"
    "isrs_running irqs u \<le> 1"
    using bh_step_alone [OF assms(1) Cons.prems(1) ev(1) Cons.prems(3) _ u(1)] Cons.prems(4) by simp_all
  have "in_flight irqs u @ interrupts irqs u evs = effects irqs u evs @ in_flight irqs t"
    using Cons.IH [OF u(2) ev(2) step(2)] Cons.prems(4,5) u(1) by simp
  with step(1) u(1) show ?case
    by (simp add: effects_def interrupts_def) (metis append_assoc)
qed

text \<open>Once a handler has scheduled the work, it is started again before it is off the queue.\<close>

lemma bh_work_again:
  assumes "fst irqs \<noteq> snd irqs" and "bh_loaded s" and "bh_isr s irq = Isr_Written"
    and "irq = fst irqs \<or> irq = snd irqs" and "Unload \<notin> set evs"
  shows "\<exists>t. bh_run irqs s (Isr irq # evs) = Some t \<and> (bh_pending t \<or> work_started s < work_started t)"
proof -
  let ?u = "bottomhalf_isr irqs irq s"
  have u: "bh_loaded ?u" "work_asked ?u = Suc (work_started s)" "bh_step irqs s (Isr irq) = Some ?u"
    using assms(2-4) by (auto simp: bottomhalf_isr_def work_asked_def work_started_def isr_active_def)
  from bh_run_loaded [OF assms(1) u(1) assms(5)] obtain t where "bh_run irqs ?u evs = Some t"
    "work_asked ?u \<le> work_asked t" by blast
  with u(2) have "Suc (work_started s) \<le> work_asked t" by simp
  then have "bh_pending t \<or> work_started s < work_started t" by (cases "bh_pending t") (simp_all add: work_asked_def)
  with u(3) \<open>bh_run irqs ?u evs = Some t\<close> show ?thesis by (intro exI [of _ t]) (simp del: bh_step.simps)
qed

text \<open>A handler that runs from its entry to its end without another one in between.\<close>

lemma isr_through:
  assumes "isr_active irqs s irq" and "bh_isr s irq = Isr_Idle"
  shows "\<exists>led. \<forall>evs. bh_run irqs s (Isr irq # Isr irq # Isr irq # evs) =
    bh_run irqs (s\<lparr>bh_led := led, bh_pending := True\<rparr>) evs"
proof -
  have "(bh_isr s)(irq := Isr_Idle) = bh_isr s" using assms(2) by (metis fun_upd_triv)
  with assms show ?thesis
    by (intro exI [of _ "case button_isr irqs irq (bh_led s) of None \<Rightarrow> bh_led s | Some level \<Rightarrow> level"])
      (simp add: bottomhalf_isr_def isr_active_def cong: option.case_cong)
qed

subsection \<open>Properties\<close>

text \<open>
  C35: the handlers of bottomhalf.c while it is loaded, in any interleaving of the two lines' handlers
  and of the deferred work. Every interrupt of a line takes effect exactly once, at one point while its
  handler runs, and the LED always shows the line whose handler took effect last. While no handler is
  entered before another is through, they take effect in the order of the interrupts, so that the LED
  shows the last one. Both edges of a button interrupt, so these are presses and releases. The work is
  never done more often than there were interrupts, and whenever a handler has scheduled it, it is
  started once more before it is off the queue, even if it was running at that time.
\<close>

theorem bottomhalf_led_last_button:
  assumes "fst irqs \<noteq> snd irqs" and "Unload \<notin> set evs"
  shows "\<exists>s. bh_run irqs bottomhalf_start evs = Some s \<and>
    bh_led s = (effects irqs bottomhalf_start evs \<noteq> [] \<and> last (effects irqs bottomhalf_start evs) = fst irqs) \<and>
    mset (interrupts irqs bottomhalf_start evs) =
      mset (effects irqs bottomhalf_start evs) + mset (in_flight irqs s) \<and>
    (one_at_a_time irqs bottomhalf_start evs \<longrightarrow>
      interrupts irqs bottomhalf_start evs = effects irqs bottomhalf_start evs @ in_flight irqs s) \<and>
    work_asked s + isrs_running irqs s \<le> length (interrupts irqs bottomhalf_start evs) \<and>
    (\<forall>irq evs'. bh_isr s irq = Isr_Written \<longrightarrow> (irq = fst irqs \<or> irq = snd irqs) \<longrightarrow> Unload \<notin> set evs' \<longrightarrow>
      (\<exists>t. bh_run irqs s (Isr irq # evs') = Some t \<and> (bh_pending t \<or> work_started s < work_started t)))"
proof -
  have start: "bh_loaded bottomhalf_start" "in_flight irqs bottomhalf_start = []"
    "isrs_running irqs bottomhalf_start = 0" "work_asked bottomhalf_start = 0" "\<not> bh_led bottomhalf_start"
    by (simp_all add: bottomhalf_start_def in_flight_def will_write_def isrs_running_def work_asked_def
        work_started_def)
  from bh_run_loaded [OF assms(1) start(1) assms(2)] obtain s where s: "bh_run irqs bottomhalf_start evs = Some s"
    "bh_loaded s" "bh_led s = shown irqs False (effects irqs bottomhalf_start evs)"
    "mset (interrupts irqs bottomhalf_start evs) =
      mset (effects irqs bottomhalf_start evs) + mset (in_flight irqs s)"
    "work_asked s + isrs_running irqs s \<le> length (interrupts irqs bottomhalf_start evs)"
    using start(2-5) by auto
  have "one_at_a_time irqs bottomhalf_start evs \<longrightarrow>
      interrupts irqs bottomhalf_start evs = effects irqs bottomhalf_start evs @ in_flight irqs s"
    using bh_run_alone [OF assms(1) start(1) assms(2) _ _ s(1)] start(2,3) by simp
  moreover have "bh_led s =
      (effects irqs bottomhalf_start evs \<noteq> [] \<and> last (effects irqs bottomhalf_start evs) = fst irqs)"
    using s(3) by (simp add: shown_def)
  moreover note s(1,4,5) bh_work_again [OF assms(1) s(2)]
  ultimately show ?thesis by blast
qed

theorem bottomhalf_led_last_button_witness:
  "\<exists>s. bh_run (30, 31) bottomhalf_start
      [Isr 30, Isr 30, Isr 30, Work_Starts, Isr 31, Isr 31, Isr 31, Isr 30, Isr 30, Work_Ends, Isr 7] = Some s \<and>
    bh_led s \<and> interrupts (30, 31) bottomhalf_start
      [Isr 30, Isr 30, Isr 30, Work_Starts, Isr 31, Isr 31, Isr 31, Isr 30, Isr 30, Work_Ends, Isr 7] = [30, 31, 30]"
proof -
  let ?evs = "[Isr 30, Isr 30, Isr 30, Work_Starts, Isr 31, Isr 31, Isr 31, Isr 30, Isr 30, Work_Ends, Isr 7]"
  have "effects (30, 31) bottomhalf_start ?evs = [30, 31, 30]"
    "interrupts (30, 31) bottomhalf_start ?evs = [30, 31, 30]"
    by code_simp+
  moreover have "fst (30 :: int, 31 :: int) \<noteq> snd (30 :: int, 31 :: int)" "Unload \<notin> set ?evs" by simp_all
  from bottomhalf_led_last_button [OF this] obtain s where "bh_run (30, 31) bottomhalf_start ?evs = Some s"
    "bh_led s = (effects (30, 31) bottomhalf_start ?evs \<noteq> [] \<and>
      last (effects (30, 31) bottomhalf_start ?evs) = fst (30 :: int, 31 :: int))" by blast
  ultimately show ?thesis by (intro exI [of _ s] conjI) (simp_all only: list.simps last.simps fst_conv if_True if_False simp_thms)
qed

text \<open>
  The test and the write of the LED are not atomic: with the LED on, the second line's handler reads it,
  the first line's handler comes, finds the LED on and is through, and then the second one switches it
  off. The last interrupt asked for the LED to be on.
\<close>

theorem bottomhalf_led_race:
  assumes "fst irqs \<noteq> snd irqs" and "bh_loaded s" and "bh_led s"
    and "bh_isr s (fst irqs) = Isr_Idle" and "bh_isr s (snd irqs) = Isr_Idle"
  shows "\<exists>t. bh_run irqs s [Isr (snd irqs), Isr (fst irqs), Isr (fst irqs), Isr (fst irqs),
      Isr (snd irqs), Isr (snd irqs)] = Some t \<and> \<not> bh_led t \<and>
    bh_isr t (fst irqs) = Isr_Idle \<and> bh_isr t (snd irqs) = Isr_Idle"
  using assms by (simp add: bottomhalf_isr_def button_isr_def isr_active_def)

theorem bottomhalf_led_race_witness:
  "\<exists>t. bh_run (30, 31) (bottomhalf_start\<lparr>bh_led := True\<rparr>)
      [Isr 31, Isr 30, Isr 30, Isr 30, Isr 31, Isr 31] = Some t \<and> \<not> bh_led t"
  using bottomhalf_led_race [of "(30, 31)" "bottomhalf_start\<lparr>bh_led := True\<rparr>"]
  by (auto simp: bottomhalf_start_def)

text \<open>
  The exit function does not wait for the work. An interrupt that is followed by an unload before a
  worker gets to the work, or while it sleeps in the middle of it, runs a function of a module that is
  gone; if the worker is through, unloading is safe.
\<close>

theorem bottomhalf_unload_race:
  assumes "bh_loaded s" and "\<not> bh_running s" and "irq = fst irqs \<or> irq = snd irqs"
    and "bh_isr s (fst irqs) = Isr_Idle" and "bh_isr s (snd irqs) = Isr_Idle"
  shows "bh_run irqs s [Isr irq, Isr irq, Isr irq, Unload, Work_Starts] = None"
    and "bh_run irqs s [Isr irq, Isr irq, Isr irq, Work_Starts, Unload, Work_Ends] = None"
    and "bh_run irqs s [Isr irq, Isr irq, Isr irq, Work_Starts, Work_Ends, Unload, Work_Starts, Work_Ends] \<noteq> None"
proof -
  have "isr_active irqs s irq" "bh_isr s irq = Isr_Idle" using assms by (auto simp: isr_active_def)
  from isr_through [OF this] obtain led where
    "\<And>evs. bh_run irqs s (Isr irq # Isr irq # Isr irq # evs) = bh_run irqs (s\<lparr>bh_led := led, bh_pending := True\<rparr>) evs"
    by blast
  note run = this
  show "bh_run irqs s [Isr irq, Isr irq, Isr irq, Unload, Work_Starts] = None"
    and "bh_run irqs s [Isr irq, Isr irq, Isr irq, Work_Starts, Unload, Work_Ends] = None"
    and "bh_run irqs s [Isr irq, Isr irq, Isr irq, Work_Starts, Work_Ends, Unload, Work_Starts, Work_Ends] \<noteq> None"
    unfolding run using assms(1,2,4,5)
    by (simp_all add: bottomhalf_work_starts_def bottomhalf_work_ends_def)
qed

theorem bottomhalf_unload_race_witness:
  "bh_run (30, 31) bottomhalf_start [Isr 30, Isr 30, Isr 30, Work_Starts, Unload, Work_Ends] = None"
  using bottomhalf_unload_race(2) [of bottomhalf_start 30 "(30, 31)"] by (simp add: bottomhalf_start_def)

text \<open>
  Unless the second button has no interrupt line on a kernel before 6.10, no sequence of loading
  and unloading any of the three modules leaks a GPIO line or an interrupt or frees one twice.
\<close>

theorem buttons_no_leak:
  assumes "envs_ok button_env_ok evs"
  shows "(\<exists>st. mod_run bottomhalf_init bottomhalf_exit (None, {}) evs = Some st \<and>
      accounted (button_owned ''NULL'' ''NULL'') st) \<and>
    (\<exists>st. mod_run intrpt_init intrpt_exit (None, {}) evs = Some st \<and>
      accounted (button_owned ''NULL'' ''NULL'') st) \<and>
    (\<exists>st. mod_run bh_threaded_init bh_threaded_exit (None, {}) evs = Some st \<and>
      accounted bh_threaded_owned st)"
  using bottomhalf_mod.no_leak [OF assms] intrpt_mod.no_leak [OF assms]
    bh_threaded_mod.no_leak [OF assms] by blast

definition demo_buttons :: "nat \<Rightarrow> button_env" where
  "demo_buttons ver = \<lparr>be_ver = ver, be_led_request = 0, be_led_direction = 0,
     be_button_request = (0, 0), be_button_direction = (0, 0), be_led_array = 0, be_button_array = 0,
     be_gpio_to_irq = (30, 31), be_request_irq = (0, - 16)\<rparr>"

theorem buttons_no_leak_witness:
  "\<exists>st. mod_run bh_threaded_init bh_threaded_exit (None, {})
      [Insmod (demo_buttons (KERNEL_VERSION 5 10 0)),
       Insmod (demo_buttons (KERNEL_VERSION 6 12 0)\<lparr>be_request_irq := (0, 0)\<rparr>), Rmmod] = Some st \<and>
    accounted bh_threaded_owned st"
proof -
  have "envs_ok button_env_ok [Insmod (demo_buttons (KERNEL_VERSION 5 10 0)),
       Insmod (demo_buttons (KERNEL_VERSION 6 12 0)\<lparr>be_request_irq := (0, 0)\<rparr>), Rmmod]"
    by (simp add: envs_ok_def button_env_ok_def demo_buttons_def)
  from buttons_no_leak [OF this] show ?thesis by blast
qed

text \<open>
  On a kernel before 6.10, when the second button has no interrupt line, the three init functions
  return the error and leave the first button's handler registered in a module that is not loaded.
\<close>

theorem buttons_leak_irq:
  assumes "\<not> NO_GPIO_REQUEST_ARRAY (be_ver e)" and "be_led_array e = 0" and "be_button_array e = 0"
    and "be_gpio_to_irq e = (irq0, err)" and "0 \<le> irq0" and "fst (be_request_irq e) = 0" and "err < 0"
  shows "fst (bottomhalf_init e) = err \<and> kops_run (snd (bottomhalf_init e)) {} = Some {Irq irq0 ''NULL''} \<and>
    fst (intrpt_init e) = err \<and> kops_run (snd (intrpt_init e)) {} = Some {Irq irq0 ''NULL''} \<and>
    fst (bh_threaded_init e) = err \<and>
    kops_run (snd (bh_threaded_init e)) {} = Some {Irq irq0 ''&buttons[0]''}"
  using assms
  by (auto simp: bottomhalf_init_def intrpt_init_def bh_threaded_init_def button_init_array_def
      button_irqs_def Let_def)

theorem buttons_leak_irq_witness:
  "kops_run (snd (intrpt_init (demo_buttons (KERNEL_VERSION 5 10 0)\<lparr>be_gpio_to_irq := (30, - 22)\<rparr>))) {} =
    Some {Irq 30 ''NULL''}"
  using buttons_leak_irq [of "demo_buttons (KERNEL_VERSION 5 10 0)\<lparr>be_gpio_to_irq := (30, - 22)\<rparr>" 30 "- 22"]
  by (simp add: demo_buttons_def NO_GPIO_REQUEST_ARRAY_def KERNEL_VERSION_def)

end
