(* ===== verification/Threaded_Irq.thy ===== *)
theory Threaded_Irq
  imports Button_Irq Transition
begin

text \<open>
  The threaded interrupts of examples/bh_threaded.c at work: the top halves, the kernel thread of each of
  the two lines that runs the bottom half, and the exit function, interleaved. Unlike the work item of
  bottomhalf.c, no bottom half outlives its module.
\<close>

subsection \<open>The system\<close>

text \<open>
  The thread of a line: whether it has been woken since it last started, whether it is in the bottom
  half, and whether it is there at all.
\<close>

record irq_thread =
  it_woken :: bool
  it_running :: bool
  it_alive :: bool

text \<open>
  Where \<open>bottomhalf_exit\<close> is: before it, waiting in \<open>free_irq\<close> for the first and for the second line,
  before switching the LED off, before giving the lines back, and over.
\<close>

datatype exit_pc = E_Loaded | E_Free0 | E_Free1 | E_Led | E_Gpio | E_Gone

record threaded =
  th_line :: "bool \<Rightarrow> irq_thread"    \<comment> \<open>the first button's (\<open>False\<close>) and the second's (\<open>True\<close>)\<close>
  th_exit :: exit_pc
  th_led :: bool
  th_log :: "(bool \<times> bool) list"    \<comment> \<open>the lines printed: button, and whether at the start\<close>

definition threaded_start :: threaded where
  "threaded_start = \<lparr>th_line = (\<lambda>_. \<lparr>it_woken = False, it_running = False, it_alive = True\<rparr>),
     th_exit = E_Loaded, th_led = False, th_log = []\<rparr>"

text \<open>The interrupt of a line reaches the module until \<open>free_irq\<close> is called for it.\<close>

fun line_live :: "exit_pc \<Rightarrow> bool \<Rightarrow> bool" where
  "line_live E_Loaded b \<longleftrightarrow> True"
| "line_live E_Free0 b \<longleftrightarrow> b"
| "line_live _ b \<longleftrightarrow> False"

definition set_line :: "threaded \<Rightarrow> bool \<Rightarrow> irq_thread \<Rightarrow> threaded" where
  "set_line s b t = s\<lparr>th_line := (th_line s)(b := t)\<rparr>"

text \<open>The top half's answer decides whether the kernel wakes the thread of the line.\<close>

inductive irq_step :: "int \<times> int \<Rightarrow> bool \<Rightarrow> threaded \<Rightarrow> threaded \<Rightarrow> bool" for irqs b where
  interrupt: "line_live (th_exit s) b \<Longrightarrow> button_top_half (if b then snd irqs else fst irqs) = r \<Longrightarrow>
    irq_step irqs b s (if r = IRQ_WAKE_THREAD then set_line s b ((th_line s b)\<lparr>it_woken := True\<rparr>) else s)"

text \<open>The kernel's thread: the two lines that \<open>button_bottom_half\<close> prints are apart by half a second.\<close>

inductive thread_step :: "threaded \<Rightarrow> threaded \<Rightarrow> bool" where
  starts: "it_alive (th_line s b) \<Longrightarrow> it_woken (th_line s b) \<Longrightarrow> \<not> it_running (th_line s b) \<Longrightarrow>
    thread_step s ((set_line s b ((th_line s b)\<lparr>it_woken := False, it_running := True\<rparr>))
      \<lparr>th_log := th_log s @ [(b, True)]\<rparr>)"
| ends: "it_running (th_line s b) \<Longrightarrow>
    thread_step s ((set_line s b ((th_line s b)\<lparr>it_running := False\<rparr>))\<lparr>th_log := th_log s @ [(b, False)]\<rparr>)"

text \<open>
  \<open>free_irq\<close> cuts the line off from the module, waits until its thread has served what it has been woken
  for and is not in the handler, and stops it.
\<close>

definition stopped :: irq_thread where
  "stopped = \<lparr>it_woken = False, it_running = False, it_alive = False\<rparr>"

inductive threaded_exit :: "threaded \<Rightarrow> threaded \<Rightarrow> bool" where
  call: "th_exit s = E_Loaded \<Longrightarrow> threaded_exit s (s\<lparr>th_exit := E_Free0\<rparr>)"
| freed0: "th_exit s = E_Free0 \<Longrightarrow> \<not> it_woken (th_line s False) \<Longrightarrow> \<not> it_running (th_line s False) \<Longrightarrow>
    threaded_exit s ((set_line s False stopped)\<lparr>th_exit := E_Free1\<rparr>)"
| freed1: "th_exit s = E_Free1 \<Longrightarrow> \<not> it_woken (th_line s True) \<Longrightarrow> \<not> it_running (th_line s True) \<Longrightarrow>
    threaded_exit s ((set_line s True stopped)\<lparr>th_exit := E_Led\<rparr>)"
| led_off: "th_exit s = E_Led \<Longrightarrow> threaded_exit s (s\<lparr>th_led := False, th_exit := E_Gpio\<rparr>)"
| unregister: "th_exit s = E_Gpio \<Longrightarrow> threaded_exit s (s\<lparr>th_exit := E_Gone\<rparr>)"

definition threaded_step :: "int \<times> int \<Rightarrow> threaded \<Rightarrow> threaded \<Rightarrow> bool" where
  "threaded_step irqs s t \<longleftrightarrow> (\<exists>b. irq_step irqs b s t) \<or> thread_step s t \<or> threaded_exit s t"

subsection \<open>The invariant\<close>

text \<open>What a line's thread has printed: begins and ends in turn, an end missing exactly while it runs.\<close>

fun in_turn :: "bool list \<Rightarrow> bool \<Rightarrow> bool" where
  "in_turn [] running \<longleftrightarrow> \<not> running"
| "in_turn (l # ls) running \<longleftrightarrow> l = running \<and> in_turn ls (\<not> running)"

definition printed_by :: "bool \<Rightarrow> (bool \<times> bool) list \<Rightarrow> bool list" where
  "printed_by b ls = map snd (filter (\<lambda>l. fst l = b) ls)"

fun line_freed :: "exit_pc \<Rightarrow> bool \<Rightarrow> bool" where
  "line_freed E_Loaded b \<longleftrightarrow> False"
| "line_freed E_Free0 b \<longleftrightarrow> False"
| "line_freed E_Free1 b \<longleftrightarrow> \<not> b"
| "line_freed _ b \<longleftrightarrow> True"

definition line_ok :: "bool \<Rightarrow> bool list \<Rightarrow> irq_thread \<Rightarrow> bool" where
  "line_ok freed ls t \<longleftrightarrow> (if freed then t = stopped else it_alive t) \<and> in_turn (rev ls) (it_running t)"

definition threaded_inv :: "threaded \<Rightarrow> bool" where
  "threaded_inv s \<longleftrightarrow>
     (\<forall>b. line_ok (line_freed (th_exit s) b) (printed_by b (th_log s)) (th_line s b)) \<and> \<not> th_led s"

lemma printed_by_simps [simp]:
  "printed_by b [] = []" "printed_by b (ls @ [l]) = printed_by b ls @ (if fst l = b then [snd l] else [])"
  by (simp_all add: printed_by_def)

lemma set_line_sel [simp]:
  "th_line (set_line s b t) = (th_line s)(b := t)" "th_exit (set_line s b t) = th_exit s"
  "th_led (set_line s b t) = th_led s" "th_log (set_line s b t) = th_log s"
  by (simp_all add: set_line_def)

lemma live_not_freed: "line_live e b \<Longrightarrow> \<not> line_freed e b"
  by (cases e) auto

lemma stopped_sel [simp]: "\<not> it_woken stopped" "\<not> it_running stopped" "\<not> it_alive stopped"
  by (simp_all add: stopped_def)

lemma line_ok_simps:
  "line_ok False ls t \<longleftrightarrow> it_alive t \<and> in_turn (rev ls) (it_running t)"
  "line_ok True ls t \<longleftrightarrow> t = stopped \<and> in_turn (rev ls) False"
  by (auto simp: line_ok_def)

lemma line_ok_active: "line_ok freed ls t \<Longrightarrow> it_alive t \<or> it_running t \<Longrightarrow> \<not> freed"
  by (auto simp: line_ok_def)

text \<open>A step changes one line, or the place of the exit function.\<close>

lemma threaded_inv_line:
  assumes "threaded_inv s" and "th_exit t = th_exit s" and "th_led t = th_led s"
    and "\<And>c. c \<noteq> b \<Longrightarrow> th_line t c = th_line s c \<and> printed_by c (th_log t) = printed_by c (th_log s)"
    and "line_ok (line_freed (th_exit s) b) (printed_by b (th_log s)) (th_line s b) \<Longrightarrow>
      line_ok (line_freed (th_exit s) b) (printed_by b (th_log t)) (th_line t b)"
  shows "threaded_inv t"
proof -
  have "line_ok (line_freed (th_exit t) c) (printed_by c (th_log t)) (th_line t c)" for c
    using assms by (cases "c = b") (simp_all add: threaded_inv_def)
  with assms(1,3) show ?thesis by (simp add: threaded_inv_def)
qed

lemma threaded_invD:
  assumes "threaded_inv s"
  shows "line_freed (th_exit s) b \<Longrightarrow> th_line s b = stopped" and "\<not> line_freed (th_exit s) b \<Longrightarrow> it_alive (th_line s b)"
    and "in_turn (rev (printed_by b (th_log s))) (it_running (th_line s b))"
proof -
  from assms have "line_ok (line_freed (th_exit s) b) (printed_by b (th_log s)) (th_line s b)"
    by (simp add: threaded_inv_def)
  then show "line_freed (th_exit s) b \<Longrightarrow> th_line s b = stopped" "\<not> line_freed (th_exit s) b \<Longrightarrow> it_alive (th_line s b)"
    "in_turn (rev (printed_by b (th_log s))) (it_running (th_line s b))"
    by (simp_all add: line_ok_def)
qed

lemma irq_step_inv: "irq_step irqs b s t \<Longrightarrow> threaded_inv s \<Longrightarrow> threaded_inv t"
proof (induction rule: irq_step.induct)
  case (interrupt s r)
  have "threaded_inv (set_line s b ((th_line s b)\<lparr>it_woken := True\<rparr>))"
    using live_not_freed [OF interrupt.hyps(1)]
    by (intro threaded_inv_line [OF interrupt.prems, of _ b]) (simp_all add: line_ok_simps)
  with interrupt.prems show ?case by simp
qed

lemma thread_step_inv: "thread_step s t \<Longrightarrow> threaded_inv s \<Longrightarrow> threaded_inv t"
proof (induction rule: thread_step.induct)
  case (starts s b)
  show ?case using starts.hyps line_ok_active
    by (intro threaded_inv_line [OF starts.prems, of _ b]) (auto simp: line_ok_def)
next
  case (ends s b)
  show ?case using ends.hyps line_ok_active
    by (intro threaded_inv_line [OF ends.prems, of _ b]) (auto simp: line_ok_def)
qed

lemma threaded_exit_inv: "threaded_exit s t \<Longrightarrow> threaded_inv s \<Longrightarrow> threaded_inv t"
  by (induction rule: threaded_exit.induct)
    (auto simp: threaded_inv_def all_bool_eq line_ok_simps)

lemma threaded_step_inv: "threaded_step irqs s t \<Longrightarrow> threaded_inv s \<Longrightarrow> threaded_inv t"
  unfolding threaded_step_def using irq_step_inv thread_step_inv threaded_exit_inv by blast

lemma threaded_start_inv: "threaded_inv threaded_start"
  by (simp add: threaded_inv_def threaded_start_def line_ok_simps)

subsection \<open>Unloading\<close>

text \<open>The steps that do not depend on an interrupt.\<close>

definition own_step :: "threaded \<Rightarrow> threaded \<Rightarrow> bool" where
  "own_step s t \<longleftrightarrow> thread_step s t \<or> threaded_exit s t"

fun exit_weight :: "exit_pc \<Rightarrow> nat" where
  "exit_weight E_Loaded = 5"
| "exit_weight E_Free0 = 4"
| "exit_weight E_Free1 = 3"
| "exit_weight E_Led = 2"
| "exit_weight E_Gpio = 1"
| "exit_weight E_Gone = 0"

definition line_weight :: "irq_thread \<Rightarrow> nat" where
  "line_weight t = (if it_woken t then 2 else 0) + (if it_running t then 1 else 0)"

definition threaded_weight :: "threaded \<Rightarrow> nat" where
  "threaded_weight s = line_weight (th_line s False) + line_weight (th_line s True) + exit_weight (th_exit s)"

lemma own_step_inv: "own_step s t \<Longrightarrow> threaded_inv s \<Longrightarrow> threaded_inv t"
  unfolding own_step_def using thread_step_inv threaded_exit_inv by blast

lemma own_step_weight: "own_step s t \<Longrightarrow> threaded_weight t < threaded_weight s"
  unfolding own_step_def
proof (elim disjE)
  assume "thread_step s t"
  then show ?thesis
  proof (induction rule: thread_step.induct)
    case (starts s b)
    then show ?case by (cases b) (simp_all add: threaded_weight_def line_weight_def)
  next
    case (ends s b)
    then show ?case by (cases b) (simp_all add: threaded_weight_def line_weight_def)
  qed
next
  assume "threaded_exit s t"
  then show ?thesis
    by (induction rule: threaded_exit.induct) (simp_all add: threaded_weight_def line_weight_def)
qed

definition line_idle :: "threaded \<Rightarrow> bool \<Rightarrow> bool" where
  "line_idle s b \<longleftrightarrow> \<not> it_woken (th_line s b) \<and> \<not> it_running (th_line s b)"

text \<open>A thread that has been woken or is in the bottom half can go on.\<close>

lemma busy_thread:
  assumes "threaded_inv s" and "\<not> line_idle s b"
  shows "\<exists>t. thread_step s t"
proof (cases "it_running (th_line s b)")
  case True
  then show ?thesis by (blast intro: thread_step.ends)
next
  case False
  with assms(2) have woken: "it_woken (th_line s b)" by (simp add: line_idle_def)
  then have "it_alive (th_line s b)" using threaded_invD(1,2) [OF assms(1), of b] by (metis stopped_sel(1))
  with False woken show ?thesis by (blast intro: thread_step.starts)
qed

lemma exit_progress: "threaded_inv s \<Longrightarrow> th_exit s \<noteq> E_Gone \<Longrightarrow> \<exists>t. own_step s t"
proof (cases "th_exit s")
  case E_Free0
  assume "threaded_inv s"
  with E_Free0 show ?thesis
    using threaded_exit.freed0 [of s] busy_thread [of s False] unfolding own_step_def line_idle_def by blast
next
  case E_Free1
  assume "threaded_inv s"
  with E_Free1 show ?thesis
    using threaded_exit.freed1 [of s] busy_thread [of s True] unfolding own_step_def line_idle_def by blast
qed (use threaded_exit.intros in \<open>unfold own_step_def, blast+\<close>)

text \<open>The threads alone come to rest.\<close>

definition lines_weight :: "threaded \<Rightarrow> nat" where
  "lines_weight s = line_weight (th_line s False) + line_weight (th_line s True)"

lemma thread_step_weight: "thread_step s t \<Longrightarrow> lines_weight t < lines_weight s"
proof (induction rule: thread_step.induct)
  case (starts s b)
  then show ?case by (cases b) (simp_all add: lines_weight_def line_weight_def)
next
  case (ends s b)
  then show ?case by (cases b) (simp_all add: lines_weight_def line_weight_def)
qed

lemma lines_weight_le: "lines_weight s \<le> 6" "threaded_weight s \<le> 11"
proof -
  have "line_weight t \<le> 3" for t by (simp add: line_weight_def)
  from this [of "th_line s False"] this [of "th_line s True"] show "lines_weight s \<le> 6" by (simp add: lines_weight_def)
  moreover have "exit_weight e \<le> 5" for e by (cases e) simp_all
  from this [of "th_exit s"] calculation show "threaded_weight s \<le> 11" by (simp add: threaded_weight_def lines_weight_def)
qed

lemma threads_progress: "threaded_inv s \<Longrightarrow> \<not> (\<forall>b. line_idle s b) \<Longrightarrow> \<exists>t. thread_step s t"
  using busy_thread by blast

interpretation threaded_sys: invariant_system "threaded_step irqs" threaded_start threaded_inv for irqs
  by unfold_locales (blast intro: threaded_start_inv threaded_step_inv)+

interpretation threaded_unload: terminating_system own_step threaded_start threaded_inv
    "\<lambda>s. th_exit s = E_Gone" threaded_weight
  by unfold_locales (blast intro: threaded_start_inv own_step_inv own_step_weight exit_progress)+

interpretation threads_rest: terminating_system thread_step threaded_start threaded_inv
    "\<lambda>s. \<forall>b. line_idle s b" lines_weight
  by unfold_locales (blast intro: threaded_start_inv thread_step_inv thread_step_weight threads_progress)+

subsection \<open>An interrupt is served\<close>

text \<open>
  Since an interrupt of the line \<open>b\<close>, when it had printed \<open>ls\<close>: the thread has not yet started what it was
  woken for, or it has begun a bottom half.
\<close>

definition serving :: "bool \<Rightarrow> bool list \<Rightarrow> threaded \<Rightarrow> bool" where
  "serving b ls s \<longleftrightarrow> (\<exists>xs. printed_by b (th_log s) = ls @ xs \<and> (it_woken (th_line s b) \<or> True \<in> set xs))"

lemma servingI:
  "printed_by b (th_log s) = ls @ xs \<Longrightarrow> it_woken (th_line s b) \<or> True \<in> set xs \<Longrightarrow> serving b ls s"
  unfolding serving_def by blast

lemma serving_same:
  "serving b ls s \<Longrightarrow> printed_by b (th_log t) = printed_by b (th_log s) \<Longrightarrow>
    (it_woken (th_line s b) \<Longrightarrow> it_woken (th_line t b)) \<Longrightarrow> serving b ls t"
  unfolding serving_def by auto

lemma irq_serving: "irq_step irqs c s t \<Longrightarrow> serving b ls s \<Longrightarrow> serving b ls t"
  by (induction rule: irq_step.induct) (auto intro: serving_same)

lemma thread_serving:
  assumes "thread_step s t" and "serving b ls s"
  shows "serving b ls t"
proof -
  from assms(2) obtain xs where xs: "printed_by b (th_log s) = ls @ xs"
    "it_woken (th_line s b) \<or> True \<in> set xs" unfolding serving_def by blast
  from assms(1) show ?thesis
  proof cases
    case (starts c)
    then show ?thesis using xs
      by (intro servingI [where xs = "if c = b then xs @ [True] else xs"]) auto
  next
    case (ends c)
    then show ?thesis using xs
      by (intro servingI [where xs = "if c = b then xs @ [False] else xs"]) auto
  qed
qed

lemma exit_serving: "threaded_exit s t \<Longrightarrow> serving b ls s \<Longrightarrow> serving b ls t"
  by (induction rule: threaded_exit.induct; cases b) (auto elim!: serving_same)

lemma run_serving: "reachable (threaded_step irqs) s t \<Longrightarrow> serving b ls s \<Longrightarrow> serving b ls t"
  by (induction rule: reachable.induct)
    (auto simp: threaded_step_def intro: irq_serving thread_serving exit_serving)

text \<open>What is printed in turn up to the end of a bottom half ends with a whole one.\<close>

lemma in_turn_complete:
  assumes "in_turn (rev (ls @ xs)) False" and "True \<in> set xs"
  shows "\<exists>ys. xs = ys @ [True, False]"
proof (cases xs rule: rev_cases)
  case Nil
  with assms(2) show ?thesis by simp
next
  case (snoc zs l)
  with assms(1) have l: "\<not> l" "in_turn (rev (ls @ zs)) True" by simp_all
  show ?thesis
  proof (cases zs rule: rev_cases)
    case Nil
    with l snoc assms(2) show ?thesis by simp
  next
    case (snoc ys k)
    with l(2) have k by simp
    with l(1) snoc \<open>xs = zs @ [l]\<close> show ?thesis by simp
  qed
qed

lemma interrupt_served:
  assumes "threaded_inv s" and "irq_step irqs b s t" and "reachable (threaded_step irqs) t u" and "line_idle u b"
  shows "\<exists>xs. printed_by b (th_log u) = printed_by b (th_log s) @ xs @ [True, False]"
proof -
  have "serving b (printed_by b (th_log s)) t"
    using assms(2) by cases (auto simp: button_top_half_def intro: servingI [where xs = "[]"])
  from run_serving [OF assms(3) this] assms(4) obtain xs where
    xs: "printed_by b (th_log u) = printed_by b (th_log s) @ xs" "True \<in> set xs"
    unfolding serving_def line_idle_def by blast
  have "threaded_inv u" using threaded_sys.reachable_from_inv [OF assms(3)] irq_step_inv [OF assms(2,1)] .
  then have "in_turn (rev (printed_by b (th_log u))) False"
    using threaded_invD(3) [of u b] assms(4) by (simp add: line_idle_def)
  with xs in_turn_complete [of "printed_by b (th_log s)" xs] show ?thesis by auto
qed

lemma freed_quiet:
  assumes "threaded_inv s" and "th_exit s \<in> {E_Led, E_Gpio, E_Gone}"
  shows "\<not> irq_step irqs b s t \<and> \<not> thread_step s t"
proof -
  have "th_line s b = stopped" for b
    using assms by (auto simp: threaded_inv_def line_ok_def)
  then have "\<not> thread_step s t" by (auto elim!: thread_step.cases)
  moreover have "\<not> irq_step irqs b s t" using assms(2) by (auto elim!: irq_step.cases)
  ultimately show ?thesis by blast
qed

lemma freed_idle: "threaded_inv s \<Longrightarrow> line_freed (th_exit s) b \<Longrightarrow> line_idle s b"
  using threaded_invD(1) [of s b] by (simp add: line_idle_def)

subsection \<open>Properties\<close>

text \<open>
  C22: the interrupts of bh_threaded.c never outlive it, and none is lost. After an interrupt of a line
  (a button pressed or let go while the line is the module's), in every run to any state in which the line is
  idle again or freed, the thread of the line has gone through its bottom half from its beginning to its
  end. Without further interrupts the threads do get there: after at most six steps both lines are
  idle. Each line prints begins and ends in turn. A line is freed only when it is idle, and once both are
  no half of a handler runs. Unloading takes, without further interrupts, at most eleven steps
  altogether, and until it is over there is always a next one.
\<close>

theorem threaded_irq_unload_safe:
  assumes "reachable (threaded_step irqs) threaded_start s"
  shows "(\<forall>b t u. irq_step irqs b s t \<longrightarrow> reachable (threaded_step irqs) t u \<longrightarrow>
      line_idle u b \<or> line_freed (th_exit u) b \<longrightarrow>
      (\<exists>xs. printed_by b (th_log u) = printed_by b (th_log s) @ xs @ [True, False])) \<and>
    (\<forall>ts. step_path thread_step s ts \<longrightarrow> length ts \<le> 6 \<and>
      ((\<forall>b. line_idle (last (s # ts)) b) \<or> (\<exists>t. thread_step (last (s # ts)) t))) \<and>
    (\<forall>b. in_turn (rev (printed_by b (th_log s))) (it_running (th_line s b)) \<and>
      (line_freed (th_exit s) b \<longrightarrow> line_idle s b)) \<and>
    (th_exit s \<in> {E_Led, E_Gpio, E_Gone} \<longrightarrow> (\<forall>b t. \<not> irq_step irqs b s t \<and> \<not> thread_step s t)) \<and>
    (\<forall>ts. step_path own_step s ts \<longrightarrow> length ts \<le> 11 \<and>
      (th_exit (last (s # ts)) = E_Gone \<or> (\<exists>t. own_step (last (s # ts)) t)))"
proof -
  have I: "threaded_inv s" using threaded_sys.reachable_inv [OF assms] .
  then have "in_turn (rev (printed_by b (th_log s))) (it_running (th_line s b))" for b
    by (simp add: threaded_inv_def line_ok_def)
  moreover have "\<exists>xs. printed_by b (th_log u) = printed_by b (th_log s) @ xs @ [True, False]"
    if "irq_step irqs b s t" "reachable (threaded_step irqs) t u" "line_idle u b \<or> line_freed (th_exit u) b" for b t u
  proof -
    have "threaded_inv u" using threaded_sys.reachable_from_inv [OF that(2)] irq_step_inv [OF that(1) I] .
    with that(3) freed_idle have "line_idle u b" by blast
    from interrupt_served [OF I that(1,2) this] show ?thesis .
  qed
  moreover have "length ts \<le> 6 \<and> ((\<forall>b. line_idle (last (s # ts)) b) \<or> (\<exists>t. thread_step (last (s # ts)) t))"
    if "step_path thread_step s ts" for ts
    using threads_rest.path_bound [OF that I] lines_weight_le(1) [of s]
      threads_progress [OF threads_rest.reachable_from_inv [OF reachable_path [OF that] I]] by fastforce
  moreover have "length ts \<le> 11 \<and> (th_exit (last (s # ts)) = E_Gone \<or> (\<exists>t. own_step (last (s # ts)) t))"
    if "step_path own_step s ts" for ts
    using threaded_unload.path_bound [OF that I] lines_weight_le(2) [of s]
      exit_progress [OF threaded_unload.reachable_from_inv [OF reachable_path [OF that] I]] by fastforce
  ultimately show ?thesis using freed_quiet [OF I] freed_idle [OF I] by blast
qed

text \<open>
  The first button is pressed twice, the second time while its bottom half runs; then the module is unloaded.
\<close>

theorem threaded_irq_unload_safe_witness:
  "\<exists>s t. reachable (threaded_step (30, 31)) threaded_start s \<and> it_running (th_line s False) \<and>
    irq_step (30, 31) False s t \<and>
    (\<exists>u. reachable own_step t u \<and> th_exit u = E_Gone \<and>
      (\<exists>xs. printed_by False (th_log u) = printed_by False (th_log s) @ xs @ [True, False]))"
proof -
  let ?w = "\<lambda>b s. set_line s b ((th_line s b)\<lparr>it_woken := True\<rparr>)"
  let ?s1 = "?w False threaded_start"
  let ?s2 = "(set_line ?s1 False ((th_line ?s1 False)\<lparr>it_woken := False, it_running := True\<rparr>))
    \<lparr>th_log := th_log ?s1 @ [(False, True)]\<rparr>"
  have press: "irq_step (30, 31) b s (?w b s)" if "line_live (th_exit s) b" for s b
    using irq_step.interrupt [OF that, of "(30, 31)" IRQ_WAKE_THREAD] by (simp add: button_top_half_def)
  have "threaded_step (30, 31) threaded_start ?s1"
    unfolding threaded_step_def by (rule disjI1, rule exI, rule press) (simp add: threaded_start_def)
  moreover have "threaded_step (30, 31) ?s1 ?s2" unfolding threaded_step_def
    by (rule disjI2, rule disjI1, rule thread_step.starts) (simp_all add: threaded_start_def)
  ultimately have "step_path (threaded_step (30, 31)) threaded_start [?s1, ?s2]" unfolding step_path.simps by blast
  from reachable_path [OF this] have s2: "reachable (threaded_step (30, 31)) threaded_start ?s2"
    unfolding last.simps by simp
  have irq: "irq_step (30, 31) False ?s2 (?w False ?s2)" by (rule press) (simp add: threaded_start_def)
  then have t: "threaded_inv (?w False ?s2)"
    using threaded_sys.reachable_inv [OF s2] by (rule irq_step_inv)
  obtain u where u: "reachable own_step (?w False ?s2) u" "th_exit u = E_Gone"
    using threaded_unload.completes [OF t] by blast
  then have "reachable (threaded_step (30, 31)) (?w False ?s2) u"
    by (intro reachable_mono [OF u(1)]) (auto simp: own_step_def threaded_step_def)
  moreover have "line_freed (th_exit u) False" using u(2) by simp
  ultimately have "\<exists>xs. printed_by False (th_log u) = printed_by False (th_log ?s2) @ xs @ [True, False]"
    using threaded_irq_unload_safe [OF s2, THEN conjunct1] irq by blast
  with s2 irq u show ?thesis by (intro exI [of _ ?s2] exI [of _ "?w False ?s2"]) auto
qed

end
