(* ===== verification/Static_Key.thy ===== *)
theory Static_Key
  imports Lifecycle Cat Excl_Open Vfs
begin

text \<open>
  examples/static_key.c: a device that switches a static key by writing \<open>enable\<close> or \<open>disable\<close>, and says
  whether the key is on. As in chardev.c, one process may have it open at a time, an open prepares the
  message, and reads hand it out.
\<close>

definition static_key_BUF_LEN :: nat where "static_key_BUF_LEN = 10"

text \<open>The variables \<open>already_open\<close>, \<open>msg\<close> and \<open>fkey\<close>.\<close>

record static_key =
  sk_already_open :: cdev_state
  sk_msg :: "char list"
  sk_fkey :: bool

definition static_key_start :: static_key where
  "static_key_start = \<lparr>sk_already_open = CDEV_NOT_USED, sk_msg = zeros (static_key_BUF_LEN + 1),
     sk_fkey = False\<rparr>"

subsection \<open>Methods\<close>

definition static_key_text :: "bool \<Rightarrow> string" where
  "static_key_text b = (if b then ''enabled'' else ''disabled'') @ [LF]"

definition static_key_device_open :: "static_key \<Rightarrow> (static_key \<times> int) option" where
  "static_key_device_open s =
     (let (v, old) = atomic_cmpxchg (sk_already_open s) CDEV_NOT_USED CDEV_EXCLUSIVE_OPEN;
          s = s\<lparr>sk_already_open := v\<rparr>
      in if old \<noteq> CDEV_NOT_USED then Some (s, - EBUSY)
         else map_option (\<lambda>msg. (s\<lparr>sk_msg := msg\<rparr>, 0))
                (c_sprintf (sk_msg s) (static_key_text (sk_fkey s))))"

definition static_key_device_release :: "static_key \<Rightarrow> static_key" where
  "static_key_device_release s = s\<lparr>sk_already_open := CDEV_NOT_USED\<rparr>"

definition static_key_device_read :: "static_key read_handler" where
  "static_key_device_read s m buffer len off =
     map_option (\<lambda>(m', off', ret). (s, m', off', ret)) (device_read_body (sk_msg s) m buffer len off)"

text \<open>
  \<open>device_write\<close>: \<open>command\<close> is what the local array holds on entry. A command that is neither of the
  two is printed as a string, which reads outside the array unless it holds a NUL.
\<close>

definition static_key_device_write ::
    "static_key \<Rightarrow> char list \<Rightarrow> umem \<Rightarrow> nat \<Rightarrow> nat \<Rightarrow> (static_key \<times> int) option" where
  "static_key_device_write s command m buffer len =
     (if len > 10 then Some (s, - EINVAL)
      else (let (bs, uncopied) = copy_from_user buffer len m
            in case blit command 0 bs of
                 None \<Rightarrow> None
               | Some command \<Rightarrow>
                   if uncopied \<noteq> 0 then Some (s, - EFAULT)
                   else if strncmp_eq command ''enable'' (length ''enable'') then
                     Some (s\<lparr>sk_fkey := True\<rparr>, int len)
                   else if strncmp_eq command ''disable'' (length ''disable'') then
                     Some (s\<lparr>sk_fkey := False\<rparr>, int len)
                   else if \<not> terminated command then None
                   else Some (s, - EINVAL)))"

subsection \<open>Loading and unloading\<close>

text \<open>
  The answers of \<open>register_chrdev\<close> and \<open>class_create\<close>, and whether \<open>device_create\<close> made the node.
\<close>

record static_key_env =
  sk_reg_major :: int
  sk_class_ptr :: "unit err_ptr"
  sk_device_made :: bool

definition static_key_init :: "static_key_env \<Rightarrow> int \<times> kop list" where
  "static_key_init e =
     (let major = sk_reg_major e
      in if major < 0 then (major, [])
         else (case sk_class_ptr e of
                 ERR_PTR err \<Rightarrow>
                   (err, [Acquire (Chrdev ''key_state''), Release (Chrdev ''key_state'')])
               | Ptr _ \<Rightarrow>
                   (0, [Acquire (Chrdev ''key_state''), Acquire (Class ''key_state'')]
                       @ (if sk_device_made e then [Acquire (Device ''key_state'')] else []))))"

definition static_key_exit :: "static_key_env \<Rightarrow> kop list" where
  "static_key_exit e =
     [Drop (Device ''key_state''), Release (Class ''key_state''), Release (Chrdev ''key_state'')]"

interpretation static_key_mod: module_lifecycle static_key_init static_key_exit
    "\<lambda>e. {Chrdev ''key_state'', Class ''key_state''}
      \<union> (if sk_device_made e then {Device ''key_state''} else {})"
    "\<lambda>e. err_ptr_ok (sk_class_ptr e)"
  by unfold_locales
    (auto simp: static_key_init_def static_key_exit_def err_ptr_ok_def Let_def
      split: if_splits err_ptr.splits)

subsection \<open>The contracts\<close>

definition static_key_inv :: "static_key \<Rightarrow> bool" where
  "static_key_inv s \<longleftrightarrow> length (sk_msg s) = static_key_BUF_LEN + 1 \<and> terminated (sk_msg s)"

definition static_key_content :: "static_key \<Rightarrow> string" where
  "static_key_content s = cstr (sk_msg s)"

lemma static_key_open_free:
  assumes "static_key_inv s" and "sk_already_open s = CDEV_NOT_USED"
  shows "\<exists>s'. static_key_device_open s = Some (s', 0) \<and> static_key_inv s' \<and>
    sk_already_open s' = CDEV_EXCLUSIVE_OPEN \<and> sk_fkey s' = sk_fkey s \<and>
    static_key_content s' = static_key_text (sk_fkey s)"
proof -
  have nul: "NUL \<notin> set (static_key_text b)" and len: "length (static_key_text b) \<le> 9" for b
    by (simp_all add: static_key_text_def)
  have "length (static_key_text (sk_fkey s)) < length (sk_msg s)"
    using assms(1) len [of "sk_fkey s"] by (simp add: static_key_inv_def static_key_BUF_LEN_def)
  note sprintf = c_sprintf_Some [OF this]
  show ?thesis
    using assms len [of "sk_fkey s"] nul
    by (simp add: static_key_device_open_def sprintf Let_def static_key_inv_def static_key_content_def
        static_key_BUF_LEN_def)
qed

lemma static_key_open_busy:
  "sk_already_open s \<noteq> CDEV_NOT_USED \<Longrightarrow> static_key_device_open s = Some (s, - EBUSY)"
  by (simp add: static_key_device_open_def)

text \<open>Writes, by the process that has the device open, are the other steps of the system.\<close>

definition static_key_writes :: "static_key \<Rightarrow> static_key \<Rightarrow> bool" where
  "static_key_writes s s' \<longleftrightarrow>
     (\<exists>command m buffer len r. static_key_device_write s command m buffer len = Some (s', r))"

lemma static_key_write_frame:
  "static_key_device_write s command m buffer len = Some (s', r) \<Longrightarrow>
    sk_already_open s' = sk_already_open s \<and> sk_msg s' = sk_msg s"
  by (auto simp: static_key_device_write_def Let_def split: if_splits option.splits prod.splits)

interpretation static_key_excl: excl_device static_key_device_open static_key_device_release
    static_key_writes static_key_start static_key_inv "\<lambda>s. sk_already_open s \<noteq> CDEV_NOT_USED"
proof unfold_locales
  show "static_key_inv static_key_start \<and> \<not> sk_already_open static_key_start \<noteq> CDEV_NOT_USED"
    by (simp add: static_key_inv_def static_key_start_def)
next
  fix s
  assume "static_key_inv s" and "\<not> sk_already_open s \<noteq> CDEV_NOT_USED"
  then show "\<exists>s'. static_key_device_open s = Some (s', 0) \<and> static_key_inv s' \<and>
      sk_already_open s' \<noteq> CDEV_NOT_USED"
    using static_key_open_free [of s] by auto
next
  fix s s'
  assume "static_key_inv s" and "static_key_writes s s'"
  then show "static_key_inv s' \<and> (sk_already_open s' \<noteq> CDEV_NOT_USED) = (sk_already_open s \<noteq> CDEV_NOT_USED)"
    using static_key_write_frame by (fastforce simp: static_key_writes_def static_key_inv_def)
qed (simp_all add: static_key_open_busy static_key_inv_def static_key_device_release_def)

interpretation static_key_reader: msg_reader static_key_device_read static_key_content static_key_inv
  by unfold_locales
    (simp_all add: static_key_device_read_def static_key_content_def static_key_inv_def Let_def
      device_read_body_more device_read_body_end)

lemma is_enable: "strncmp_eq c ''enable'' (length ''enable'') \<longleftrightarrow> take 6 c = ''enable''"
  by (simp add: strncmp_eq_def numeral_eq_Suc)

lemma is_disable: "strncmp_eq c ''disable'' (length ''disable'') \<longleftrightarrow> take 7 c = ''disable''"
  by (simp add: strncmp_eq_def numeral_eq_Suc)

lemma take_7_disable: "take 7 c = ''disable'' \<Longrightarrow> take 6 c \<noteq> ''enable''"
proof
  assume "take 7 c = ''disable''" and "take 6 c = ''enable''"
  moreover have "take 1 (take 7 c) = take 1 (take 6 c)" by simp
  ultimately show False by simp
qed

lemma static_key_write_command:
  assumes "mapped m buffer (length text)" and "ustr m buffer (length text) = text"
    and "length text \<le> 10" and "length command = 10"
  shows "take 6 text = ''enable'' \<Longrightarrow> static_key_device_write s command m buffer (length text) =
      Some (s\<lparr>sk_fkey := True\<rparr>, int (length text))"
    and "take 7 text = ''disable'' \<Longrightarrow> static_key_device_write s command m buffer (length text) =
      Some (s\<lparr>sk_fkey := False\<rparr>, int (length text))"
proof -
  have copy: "copy_from_user buffer (length text) m = (text, 0)"
    using assms(1,2) by (simp add: copy_from_user_mapped)
  have blit: "blit command 0 text = Some (text @ drop (length text) command)"
    using assms(3,4) by (simp add: blit_0)
  note step = static_key_device_write_def is_enable is_disable copy blit
  show "static_key_device_write s command m buffer (length text) =
      Some (s\<lparr>sk_fkey := True\<rparr>, int (length text))" if en: "take 6 text = ''enable''"
  proof -
    from arg_cong [OF en, of length] have "6 \<le> length text" by simp
    with en show ?thesis unfolding step Let_def using assms(3) by (simp add: blit)
  qed
  show "static_key_device_write s command m buffer (length text) =
      Some (s\<lparr>sk_fkey := False\<rparr>, int (length text))" if dis: "take 7 text = ''disable''"
  proof -
    from arg_cong [OF dis, of length] have "7 \<le> length text" by simp
    with dis take_7_disable [OF dis] show ?thesis
      unfolding step Let_def using assms(3) by (simp add: blit)
  qed
qed

subsection \<open>The file\<close>

text \<open>\<open>chardev_fops\<close>; \<open>command\<close> is what the local array of \<open>device_write\<close> holds on entry.\<close>

definition static_key_fops :: "char list \<Rightarrow> (unit, static_key) file_operations" where
  "static_key_fops command =
     \<lparr>fop_owner = THIS_MODULE, fop_llseek = None, fop_read = Some static_key_device_read,
      fop_write = Some (\<lambda>s m buf n off.
        map_option (\<lambda>(s, ret). (s, off, ret)) (static_key_device_write s command m buf n)),
      fop_open = Some (\<lambda>_. static_key_device_open), fop_release = Some (\<lambda>s. (static_key_device_release s, 0))\<rparr>"

subsection \<open>Properties\<close>

text \<open>
  At any time at most one descriptor of the device is open, after any sequence of opens, closes and
  writes of commands.
\<close>

theorem static_key_exclusive:
  assumes "excl_reach static_key_device_open static_key_device_release static_key_writes
    static_key_start s H"
  shows "(H = {} \<or> (\<exists>fd. H = {fd})) \<and>
    (if H = {} then \<exists>s'. static_key_device_open s = Some (s', 0)
     else static_key_device_open s = Some (s, - EBUSY))"
  using static_key_excl.at_most_one [OF assms] static_key_excl.open_outcome [OF assms] by auto

theorem static_key_exclusive_witness:
  "\<exists>s'. static_key_device_open static_key_start = Some (s', 0)"
  using static_key_exclusive [OF excl_reach.start] by simp

text \<open>
  A command switches the key, and the next process that opens the device and copies it with
  cat_nonblock.c sees the new state.
\<close>

theorem static_key_write_then_cat:
  assumes "static_key_inv s" and "sk_already_open s = CDEV_NOT_USED"
    and "mapped m buffer (length text)" and "ustr m buffer (length text) = text"
    and "length text \<le> 10" and "length command = 10"
    and "take 6 text = ''enable'' \<and> b \<or> take 7 text = ''disable'' \<and> \<not> b"
    and "mapped m2 buf MAX_BYTES"
  shows "\<exists>s1 s2. static_key_device_write s command m buffer (length text) = Some (s1, int (length text)) \<and>
    static_key_device_open s1 = Some (s2, 0) \<and>
    cat_main 2 prog (vfs_read static_key_device_read buf) (Inr (s2, m2, 0)) =
      Some ((if b then ''enabled'' else ''disabled'') @ [LF], EXIT_SUCCESS)"
proof -
  let ?s1 = "s\<lparr>sk_fkey := b\<rparr>"
  have w: "static_key_device_write s command m buffer (length text) = Some (?s1, int (length text))"
    using static_key_write_command [OF assms(3-6), of s] assms(7) by (cases b) auto
  have "static_key_inv ?s1" "sk_already_open ?s1 = CDEV_NOT_USED"
    using assms(1,2) by (simp_all add: static_key_inv_def)
  from static_key_open_free [OF this] obtain s2 where s2: "static_key_device_open ?s1 = Some (s2, 0)"
    "static_key_inv s2" "static_key_content s2 = static_key_text b" by auto
  have "file_ok static_key_inv static_key_content buf MAX_BYTES (s2, m2, 0)"
    using s2(2) assms(8) by (simp add: file_ok_def)
  from static_key_reader.seq.cat_main_prints [OF this, of prog] s2(3)
  have "cat_main 2 prog (vfs_read static_key_device_read buf) (Inr (s2, m2, 0)) =
      Some (static_key_text b, EXIT_SUCCESS)" by (simp add: MAX_BYTES_def file_rest_def)
  with w s2(1) show ?thesis by (auto simp: static_key_text_def)
qed

theorem static_key_write_then_cat_witness:
  "\<exists>s1 s2. static_key_device_write static_key_start (zeros 10)
      (put_str (\<lambda>_. Some NUL) 0 (''enable'' @ [LF])) 0 (length (''enable'' @ [LF])) =
        Some (s1, int (length (''enable'' @ [LF]))) \<and>
    static_key_device_open s1 = Some (s2, 0) \<and>
    cat_main 2 [] (vfs_read static_key_device_read 0) (Inr (s2, \<lambda>_. Some NUL, 0)) =
      Some ((if True then ''enabled'' else ''disabled'') @ [LF], EXIT_SUCCESS)"
proof (rule static_key_write_then_cat)
  show "ustr (put_str (\<lambda>_. Some NUL) 0 (''enable'' @ [LF])) 0 (length (''enable'' @ [LF]))
      = ''enable'' @ [LF]"
    by (rule ustr_put_str) (simp add: mapped_def)
  show "take 6 (''enable'' @ [LF]) = ''enable'' \<and> True \<or>
      take 7 (''enable'' @ [LF]) = ''disable'' \<and> \<not> True" by (simp add: numeral_eq_Suc)
qed (simp_all add: static_key_inv_def static_key_start_def mapped_def)

text \<open>
  A write of ten bytes without a NUL that is no command is printed as a string, which reads past
  the end of the array on the stack.
\<close>

theorem static_key_bad_command_overread:
  assumes "mapped m buffer 10" and "NUL \<notin> set (ustr m buffer 10)" and "length command = 10"
    and "take 6 (ustr m buffer 10) \<noteq> ''enable''" and "take 7 (ustr m buffer 10) \<noteq> ''disable''"
  shows "static_key_device_write s command m buffer 10 = None"
proof -
  have "blit command 0 (ustr m buffer 10) = Some (ustr m buffer 10)" using assms(3) by (simp add: blit_0)
  then show ?thesis
    unfolding static_key_device_write_def is_enable is_disable
    using assms by (simp add: copy_from_user_mapped terminated_def)
qed

theorem static_key_bad_command_overread_witness:
  "static_key_device_write static_key_start (zeros 10) (\<lambda>_. Some CHR ''x'') 0 10 = None"
proof (rule static_key_bad_command_overread)
  have u: "ustr (\<lambda>_. Some CHR ''x'') 0 n = replicate n CHR ''x''" for n
    by (induction n) (simp_all add: ustr_def get_user_def replicate_append_same)
  show "NUL \<notin> set (ustr (\<lambda>_. Some CHR ''x'') 0 10)" by (simp add: u)
  show "take 6 (ustr (\<lambda>_. Some CHR ''x'') 0 10) \<noteq> ''enable''" by (simp add: u numeral_eq_Suc)
  show "take 7 (ustr (\<lambda>_. Some CHR ''x'') 0 10) \<noteq> ''disable''" by (simp add: u numeral_eq_Suc)
qed (simp_all add: mapped_def)

end
