(* ===== verification/Procfs.thy ===== *)
theory Procfs
  imports Lifecycle Cat Vfs
begin

text \<open>
  examples/procfs1.c, procfs2.c and procfs3.c: files under /proc. The first gives a fixed text, the
  second also takes a text of up to 1023 bytes, which it only prints, and the third gives back what was
  last written, up to 2048 bytes.
\<close>

subsection \<open>procfs1.c\<close>

text \<open>The local array \<open>char s[13]\<close>, with its NUL.\<close>

definition hello_proc :: string where
  "hello_proc = ''HelloWorld!'' @ [LF, NUL]"

text \<open>
  \<open>procfile_read\<close> of procfs1.c and procfs2.c: the whole array is copied, whatever the length of the
  caller's buffer, and a failed copy returns 0.
\<close>

definition procfile_read :: "'s read_handler" where
  "procfile_read s m buffer buffer_length off =
     (let len = int (length hello_proc)
      in if off \<ge> len then Some (s, m, off, 0)
         else (let (m, uncopied) = copy_to_user buffer hello_proc m
               in if uncopied \<noteq> 0 then Some (s, m, off, 0) else Some (s, m, off + len, len)))"

definition procfs1_init :: "bool \<Rightarrow> int \<times> kop list" where
  "procfs1_init created =
     (if \<not> created then (- ENOMEM, []) else (0, [Acquire (Proc_Entry ''helloworld'')]))"

definition procfs1_exit :: "bool \<Rightarrow> kop list" where
  "procfs1_exit created = [Release (Proc_Entry ''helloworld'')]"

interpretation procfs1_mod: module_lifecycle procfs1_init procfs1_exit
    "\<lambda>_. {Proc_Entry ''helloworld''}" "\<lambda>_. True"
  by unfold_locales (auto simp: procfs1_init_def procfs1_exit_def split: if_splits)

lemma length_hello_proc [simp]: "length hello_proc = 13"
  by (simp add: hello_proc_def)

lemma procfile_read_mapped:
  "mapped m buffer 13 \<Longrightarrow> off < 13 \<Longrightarrow>
    procfile_read s m buffer len off = Some (s, put_str m buffer hello_proc, off + 13, 13)"
  by (simp add: procfile_read_def copy_to_user_mapped)

text \<open>A reader with a buffer for all thirteen bytes gets them once.\<close>

definition hello_rest :: "'s open_file \<Rightarrow> string" where
  "hello_rest f = (case f of (s, m, off) \<Rightarrow> if off < 13 then hello_proc else [])"

definition hello_ok :: "nat \<Rightarrow> nat \<Rightarrow> 's open_file \<Rightarrow> bool" where
  "hello_ok buffer maxlen f \<longleftrightarrow> (case f of (s, m, off) \<Rightarrow> mapped m buffer maxlen \<and> 0 \<le> off)"

interpretation procfs1_reader: seq_reader "vfs_read procfile_read buffer" hello_rest
    "hello_ok buffer maxlen" 13 maxlen for buffer maxlen
proof unfold_locales
  fix f :: "'s open_file" and n
  assume ok: "hello_ok buffer maxlen f" and rest: "hello_rest f \<noteq> []" and n: "13 \<le> n" "n \<le> maxlen"
  obtain s m off where f: "f = (s, m, off)" by (cases f)
  from ok rest n have m: "mapped m buffer 13" "0 \<le> off" "off < 13"
    by (auto simp: f hello_ok_def hello_rest_def elim: mapped_mono split: if_splits)
  have "ustr (put_str m buffer hello_proc) buffer 13 = hello_proc"
    using ustr_put_str [of m buffer hello_proc] m(1) by simp
  then have "vfs_read procfile_read buffer f n =
      Some ((s, put_str m buffer hello_proc, off + 13), Inr hello_proc)"
    using procfile_read_mapped [OF m(1,3), of s n] by (simp add: f vfs_read_def)
  then show "\<exists>f' d. vfs_read procfile_read buffer f n = Some (f', Inr d) \<and> d \<noteq> [] \<and>
      hello_rest f = d @ hello_rest f' \<and> hello_ok buffer maxlen f'"
    using ok m by (auto simp: f hello_rest_def hello_ok_def hello_proc_def)
next
  fix f :: "'s open_file" and n
  assume "hello_ok buffer maxlen f" and "hello_rest f = []"
  then show "\<exists>f'. vfs_read procfile_read buffer f n = Some (f', Inr [])"
    by (cases f) (auto simp: hello_rest_def hello_proc_def vfs_read_def procfile_read_def ustr_def
        split: if_splits)
qed

subsection \<open>procfs2.c\<close>

definition PROCFS2_MAX_SIZE :: nat where "PROCFS2_MAX_SIZE = 1024"

record procfs2 =
  p2_buffer :: "char list"
  p2_buffer_size :: nat

definition procfs2_start :: procfs2 where
  "procfs2_start = \<lparr>p2_buffer = zeros PROCFS2_MAX_SIZE, p2_buffer_size = 0\<rparr>"

text \<open>The read handler is that of procfs1.c, word for word; what was written is never read.\<close>

definition procfs2_read :: "procfs2 read_handler" where
  "procfs2_read = procfile_read"

text \<open>
  \<open>procfile_write\<close>: the state, the offset, the return value, and what is printed (\<open>None\<close> for the
  whole result if a byte outside the buffer is touched or an unterminated text printed).
\<close>

definition procfs2_write :: "procfs2 \<Rightarrow> umem \<Rightarrow> nat \<Rightarrow> nat \<Rightarrow> int \<Rightarrow> (procfs2 \<times> int \<times> int \<times> string) option"
where
  "procfs2_write s m buff len off =
     (let size = (if len \<ge> PROCFS2_MAX_SIZE then PROCFS2_MAX_SIZE - 1 else len);
          (bs, uncopied) = copy_from_user buff size m
      in case blit (p2_buffer s) 0 bs of
           None \<Rightarrow> None
         | Some buffer \<Rightarrow>
             (let s = s\<lparr>p2_buffer := buffer, p2_buffer_size := size\<rparr>
              in if uncopied \<noteq> 0 then Some (s, off, - EFAULT, [])
                 else (case wr buffer (int size) NUL of
                         None \<Rightarrow> None
                       | Some buffer \<Rightarrow>
                           if terminated buffer
                           then Some (s\<lparr>p2_buffer := buffer\<rparr>, off + int size, int size,
                                  ''procfile write '' @ cstr buffer @ [LF])
                           else None)))"

definition procfs2_init :: "bool \<Rightarrow> int \<times> kop list" where
  "procfs2_init created =
     (if \<not> created then (- ENOMEM, []) else (0, [Acquire (Proc_Entry ''buffer1k'')]))"

definition procfs2_exit :: "bool \<Rightarrow> kop list" where
  "procfs2_exit created = [Release (Proc_Entry ''buffer1k'')]"

interpretation procfs2_mod: module_lifecycle procfs2_init procfs2_exit
    "\<lambda>_. {Proc_Entry ''buffer1k''}" "\<lambda>_. True"
  by unfold_locales (auto simp: procfs2_init_def procfs2_exit_def split: if_splits)

lemma procfs2_write_eq:
  assumes "length (p2_buffer s) = PROCFS2_MAX_SIZE"
    and "mapped m buff (min len (PROCFS2_MAX_SIZE - 1))"
  shows "\<exists>s'. procfs2_write s m buff len off =
      (let size = min len (PROCFS2_MAX_SIZE - 1)
       in Some (s', off + int size, int size,
            ''procfile write '' @ cstr (ustr m buff size) @ [LF])) \<and>
    length (p2_buffer s') = PROCFS2_MAX_SIZE"
proof -
  define size where "size = min len (PROCFS2_MAX_SIZE - 1)"
  define u where "u = ustr m buff size"
  have size: "size < PROCFS2_MAX_SIZE" "(if len \<ge> PROCFS2_MAX_SIZE then PROCFS2_MAX_SIZE - 1 else len) = size"
    by (auto simp: size_def PROCFS2_MAX_SIZE_def)
  have copy: "copy_from_user buff size m = (u, 0)"
    using assms(2) by (simp add: size_def u_def copy_from_user_mapped)
  have len_u: "length u = size" by (simp add: u_def)
  have blit: "blit (p2_buffer s) 0 u = Some (u @ drop size (p2_buffer s))"
    using assms(1) size(1) len_u by (simp add: blit_0)
  have "drop size (p2_buffer s) = p2_buffer s ! size # drop (Suc size) (p2_buffer s)"
    using size(1) assms(1) by (simp add: Cons_nth_drop_Suc)
  then have upd: "(u @ drop size (p2_buffer s))[size := NUL] = u @ NUL # drop (Suc size) (p2_buffer s)"
    by (simp add: len_u list_update_append)
  have cstr_u: "cstr (u @ NUL # t) = cstr u" for t
    by (induction u) (auto simp: cstr_def)
  show ?thesis
    unfolding size_def [symmetric]
    using copy blit upd size assms(1) cstr_u
    by (simp add: procfs2_write_def Let_def len_u u_def [symmetric])
qed

subsection \<open>procfs3.c\<close>

definition PROCFS3_MAX_SIZE :: nat where "PROCFS3_MAX_SIZE = 2048"

record procfs3 =
  p3_buffer :: "char list"
  p3_buffer_size :: nat

definition procfs3_start :: procfs3 where
  "procfs3_start = \<lparr>p3_buffer = zeros PROCFS3_MAX_SIZE, p3_buffer_size = 0\<rparr>"

definition procfs3_read :: "procfs3 read_handler" where
  "procfs3_read s m buffer len off =
     (if off \<noteq> 0 \<or> p3_buffer_size s = 0 then Some (s, m, 0, 0)
      else (let size = min (p3_buffer_size s) len; s = s\<lparr>p3_buffer_size := size\<rparr>
            in if size > length (p3_buffer s) then None
               else (let (m, uncopied) = copy_to_user buffer (take size (p3_buffer s)) m
                     in if uncopied \<noteq> 0 then Some (s, m, off, - EFAULT)
                        else Some (s, m, off + int size, int size))))"

definition procfs3_write :: "procfs3 \<Rightarrow> umem \<Rightarrow> nat \<Rightarrow> nat \<Rightarrow> int \<Rightarrow> (procfs3 \<times> int \<times> int) option" where
  "procfs3_write s m buffer len off =
     (let size = min PROCFS3_MAX_SIZE len; (bs, uncopied) = copy_from_user buffer size m
      in case blit (p3_buffer s) 0 bs of
           None \<Rightarrow> None
         | Some buf \<Rightarrow>
             (let s = s\<lparr>p3_buffer := buf, p3_buffer_size := size\<rparr>
              in if uncopied \<noteq> 0 then Some (s, off, - EFAULT)
                 else Some (s, off + int size, int size)))"

definition procfs3_open :: "procfs3 \<Rightarrow> procfs3 \<times> int" where
  "procfs3_open s = (s, 0)"

definition procfs3_close :: "procfs3 \<Rightarrow> procfs3 \<times> int" where
  "procfs3_close s = (s, 0)"

definition procfs3_init :: "bool \<Rightarrow> int \<times> kop list" where
  "procfs3_init created =
     (if \<not> created then (- ENOMEM, []) else (0, [Acquire (Proc_Entry ''buffer2k'')]))"

definition procfs3_exit :: "bool \<Rightarrow> kop list" where
  "procfs3_exit created = [Drop (Proc_Entry ''buffer2k'')]"

interpretation procfs3_mod: module_lifecycle procfs3_init procfs3_exit
    "\<lambda>_. {Proc_Entry ''buffer2k''}" "\<lambda>_. True"
  by unfold_locales (auto simp: procfs3_init_def procfs3_exit_def split: if_splits)

definition procfs3_inv :: "procfs3 \<Rightarrow> bool" where
  "procfs3_inv s \<longleftrightarrow> length (p3_buffer s) = PROCFS3_MAX_SIZE \<and> p3_buffer_size s \<le> PROCFS3_MAX_SIZE"

definition procfs3_content :: "procfs3 \<Rightarrow> string" where
  "procfs3_content s = take (p3_buffer_size s) (p3_buffer s)"

lemma length_procfs3_content: "procfs3_inv s \<Longrightarrow> length (procfs3_content s) = p3_buffer_size s"
  by (simp add: procfs3_inv_def procfs3_content_def)

lemma procfs3_write_eq:
  assumes "procfs3_inv s" and "mapped m buffer (min PROCFS3_MAX_SIZE len)"
  shows "\<exists>s'. procfs3_write s m buffer len off =
      Some (s', off + int (min PROCFS3_MAX_SIZE len), int (min PROCFS3_MAX_SIZE len)) \<and>
    procfs3_inv s' \<and> procfs3_content s' = ustr m buffer (min PROCFS3_MAX_SIZE len)"
proof -
  define n where "n = min PROCFS3_MAX_SIZE len"
  have copy: "copy_from_user buffer n m = (ustr m buffer n, 0)" "n \<le> PROCFS3_MAX_SIZE"
    using assms(2) by (simp_all add: n_def copy_from_user_mapped)
  then show ?thesis
    using assms(1) unfolding n_def [symmetric]
    by (simp add: procfs3_write_def n_def [symmetric] blit_0 procfs3_inv_def procfs3_content_def Let_def)
qed

text \<open>A read at the start gives the beginning of the content, and makes it the whole content.\<close>

lemma procfs3_read_eq:
  assumes "procfs3_inv s" and "mapped m buffer len" and "procfs3_content s \<noteq> []"
  shows "\<exists>s'. procfs3_read s m buffer len 0 =
      (let d = take len (procfs3_content s)
       in Some (s', put_str m buffer d, int (length d), int (length d))) \<and>
    procfs3_inv s' \<and> procfs3_content s' = take len (procfs3_content s)"
proof -
  have size: "p3_buffer_size s \<noteq> 0" "p3_buffer_size s \<le> length (p3_buffer s)"
    using assms by (auto simp: procfs3_content_def procfs3_inv_def)
  have "mapped m buffer (min (p3_buffer_size s) len)" using assms(2) by (rule mapped_mono) simp
  then have "copy_to_user buffer (take (min (p3_buffer_size s) len) (p3_buffer s)) m =
      (put_str m buffer (take len (procfs3_content s)), 0)"
    using size by (simp add: copy_to_user_mapped procfs3_content_def min.commute)
  then show ?thesis
    using assms(1) size
    by (auto simp: procfs3_read_def procfs3_inv_def procfs3_content_def Let_def min.commute
        min_absorb2 min.coboundedI2)
qed

definition procfs3_rest :: "procfs3 open_file \<Rightarrow> string" where
  "procfs3_rest f = (case f of (s, m, off) \<Rightarrow> if off = 0 then procfs3_content s else [])"

definition procfs3_ok :: "nat \<Rightarrow> nat \<Rightarrow> procfs3 open_file \<Rightarrow> bool" where
  "procfs3_ok buffer maxlen f \<longleftrightarrow> (case f of (s, m, off) \<Rightarrow> procfs3_inv s \<and> mapped m buffer maxlen)"

interpretation procfs3_reader: seq_reader "vfs_read procfs3_read buffer" procfs3_rest
    "procfs3_ok buffer maxlen" PROCFS3_MAX_SIZE maxlen for buffer maxlen
proof unfold_locales
  fix f n
  assume ok: "procfs3_ok buffer maxlen f" and rest: "procfs3_rest f \<noteq> []"
    and n: "PROCFS3_MAX_SIZE \<le> n" "n \<le> maxlen"
  obtain s m off where f: "f = (s, m, off)" by (cases f)
  let ?d = "procfs3_content s"
  from ok rest have s: "procfs3_inv s" "mapped m buffer maxlen" "off = 0" "?d \<noteq> []"
    by (auto simp: f procfs3_ok_def procfs3_rest_def split: if_splits)
  have all: "take n ?d = ?d" "length ?d \<le> maxlen"
    using n s(1) length_procfs3_content [OF s(1)] by (simp_all add: procfs3_inv_def)
  from procfs3_read_eq [OF s(1) mapped_mono [OF s(2) n(2)] s(4)] obtain s' where
    "procfs3_read s m buffer n 0 = Some (s', put_str m buffer ?d, int (length ?d), int (length ?d))"
    "procfs3_inv s'" by (auto simp: all Let_def)
  moreover have "ustr (put_str m buffer ?d) buffer (length ?d) = ?d"
    by (rule ustr_put_str) (rule mapped_mono [OF s(2) all(2)])
  ultimately show "\<exists>f' d. vfs_read procfs3_read buffer f n = Some (f', Inr d) \<and> d \<noteq> [] \<and>
      procfs3_rest f = d @ procfs3_rest f' \<and> procfs3_ok buffer maxlen f'"
    using s by (auto simp: f vfs_read_def procfs3_rest_def procfs3_ok_def)
next
  fix f n
  assume ok: "procfs3_ok buffer maxlen f" and rest: "procfs3_rest f = []"
  obtain s m off where f: "f = (s, m, off)" by (cases f)
  from ok rest have "off \<noteq> 0 \<or> p3_buffer_size s = 0"
    by (auto simp: f procfs3_ok_def procfs3_rest_def procfs3_content_def procfs3_inv_def
        PROCFS3_MAX_SIZE_def split: if_splits)
  then show "\<exists>f'. vfs_read procfs3_read buffer f n = Some (f', Inr [])"
    by (simp add: f vfs_read_def procfs3_read_def ustr_def)
qed

subsection \<open>The files\<close>

definition procfs1_fops :: "(unit, 's) file_operations" where
  "procfs1_fops =
     \<lparr>fop_owner = PROC_ENTRY, fop_llseek = None, fop_read = Some procfile_read, fop_write = None,
      fop_open = None, fop_release = None\<rparr>"

text \<open>The text that a write prints is left out here.\<close>

definition procfs2_fops :: "(unit, procfs2) file_operations" where
  "procfs2_fops =
     \<lparr>fop_owner = PROC_ENTRY, fop_llseek = None, fop_read = Some procfs2_read,
      fop_write = Some (\<lambda>s m buf n off. map_option (\<lambda>(s, off, ret, log). (s, off, ret)) (procfs2_write s m buf n off)),
      fop_open = None, fop_release = None\<rparr>"

definition procfs3_fops :: "(unit, procfs3) file_operations" where
  "procfs3_fops =
     \<lparr>fop_owner = PROC_ENTRY, fop_llseek = None, fop_read = Some procfs3_read, fop_write = Some procfs3_write,
      fop_open = Some (\<lambda>_ s. Some (procfs3_open s)), fop_release = Some procfs3_close\<rparr>"

lemma procfs3_calls [simp]:
  "call_read procfs3_fops = procfs3_read" "call_write procfs3_fops = procfs3_write"
  by (simp_all add: procfs3_fops_def fop_calls)

interpretation procfs3_io: io_device procfs3_read procfs3_write procfs3_inv "\<lambda>off s. True"
proof unfold_locales
  fix s m buf n and off :: int
  assume s: "procfs3_inv s"
  let ?k = "min (p3_buffer_size s) n"
  have "confined m (fst (copy_to_user buf (take ?k (p3_buffer s)) m)) buf n"
    using copy_to_user_confined [of m buf "take ?k (p3_buffer s)"] by (rule confined_mono) simp
  with s show "\<exists>s' m' off' ret. procfs3_read s m buf n off = Some (s', m', off', ret) \<and>
      procfs3_inv s' \<and> True \<and> confined m m' buf n \<and> ret \<le> int n"
    by (auto simp: procfs3_read_def procfs3_inv_def Let_def split: prod.split)
  obtain bs uncopied where bs: "copy_from_user buf (min PROCFS3_MAX_SIZE n) m = (bs, uncopied)"
    by (cases "copy_from_user buf (min PROCFS3_MAX_SIZE n) m")
  then have "length bs = min PROCFS3_MAX_SIZE n" by (metis fst_conv length_copy_from_user)
  with s blit_ok [of bs "p3_buffer s"] bs
  show "\<exists>s' off' ret. procfs3_write s m buf n off = Some (s', off', ret) \<and> procfs3_inv s' \<and> True \<and> ret \<le> int n"
    by (auto simp: procfs3_write_def procfs3_inv_def Let_def)
qed simp

interpretation procfs3_file: file_device procfs3_fops
    procfs3_inv "\<lambda>off s. True" "\<lambda>k s. True" True procfs3_start
  by (rule file_device.intro, simp only: procfs3_calls, rule procfs3_io.io_device_axioms, unfold_locales)
    (auto simp: procfs3_fops_def fop_calls procfs3_inv_def procfs3_start_def procfs3_open_def procfs3_close_def)

subsection \<open>Properties\<close>

text \<open>
  What is written to the file of procfs3.c (up to 2048 bytes, any bytes) is what cat_nonblock.c
  then prints. But a reader with a smaller buffer loses the rest for everybody: after a read of fewer
  bytes, only those bytes are left in the file.
\<close>

theorem procfs3_write_then_cat:
  assumes "procfs3_inv s" and "mapped m wbuf len" and "len \<le> PROCFS3_MAX_SIZE"
    and "mapped m2 rbuf MAX_BYTES" and "k \<le> MAX_BYTES" and "0 < len"
  shows "\<exists>s1 s2 m3. procfs3_write s m wbuf len 0 = Some (s1, int len, int len) \<and>
    cat_main 2 prog (vfs_read procfs3_read rbuf) (Inr (s1, m2, 0)) =
      Some (ustr m wbuf len, EXIT_SUCCESS) \<and>
    procfs3_read s1 m2 rbuf k 0 = Some (s2, m3, int (min k len), int (min k len)) \<and>
    cat_main 2 prog (vfs_read procfs3_read rbuf) (Inr (s2, m3, 0)) =
      Some (take k (ustr m wbuf len), EXIT_SUCCESS)"
proof -
  have n: "min PROCFS3_MAX_SIZE len = len" using assms(3) by simp
  from procfs3_write_eq [OF assms(1), of m wbuf len 0] assms(2) obtain s1 where s1:
    "procfs3_write s m wbuf len 0 = Some (s1, int len, int len)" "procfs3_inv s1"
    "procfs3_content s1 = ustr m wbuf len" by (auto simp: n)
  have cat: "cat_main 2 prog (vfs_read procfs3_read rbuf) (Inr (t, mt, 0)) =
      Some (procfs3_content t, EXIT_SUCCESS)" if "procfs3_inv t" "mapped mt rbuf MAX_BYTES" for t mt
    using procfs3_reader.cat_main_prints [of rbuf MAX_BYTES "(t, mt, 0)" prog] that
    by (simp add: procfs3_ok_def procfs3_rest_def PROCFS3_MAX_SIZE_def MAX_BYTES_def)
  have ne: "procfs3_content s1 \<noteq> []" using s1(3) assms(6) by (simp add: ustr_def)
  let ?d = "take k (ustr m wbuf len)"
  from procfs3_read_eq [OF s1(2) mapped_mono [OF assms(4,5)] ne] obtain s2 where s2:
    "procfs3_read s1 m2 rbuf k 0 = Some (s2, put_str m2 rbuf ?d, int (length ?d), int (length ?d))"
    "procfs3_inv s2" "procfs3_content s2 = ?d" by (auto simp: s1(3) Let_def)
  have "mapped (put_str m2 rbuf ?d) rbuf MAX_BYTES" using assms(4) by simp
  with cat [OF s1(2) assms(4)] cat [OF s2(2)] s1 s2 show ?thesis by (auto simp: min.commute)
qed

theorem procfs3_write_then_cat_witness:
  "\<exists>s1 s2 m3. procfs3_write procfs3_start (\<lambda>_. Some CHR ''x'') 0 5 0 = Some (s1, int 5, int 5) \<and>
    cat_main 2 [] (vfs_read procfs3_read 0) (Inr (s1, \<lambda>_. Some NUL, 0)) =
      Some (ustr (\<lambda>_. Some CHR ''x'') 0 5, EXIT_SUCCESS) \<and>
    procfs3_read s1 (\<lambda>_. Some NUL) 0 2 0 = Some (s2, m3, int (min 2 5), int (min 2 5)) \<and>
    cat_main 2 [] (vfs_read procfs3_read 0) (Inr (s2, m3, 0)) =
      Some (take 2 (ustr (\<lambda>_. Some CHR ''x'') 0 5), EXIT_SUCCESS)"
  by (rule procfs3_write_then_cat)
    (simp_all add: procfs3_inv_def procfs3_start_def mapped_def PROCFS3_MAX_SIZE_def MAX_BYTES_def)

text \<open>
  The read handler of procfs1.c and procfs2.c ignores the length of the caller's buffer: a read of
  any length at the start of the file stores thirteen bytes and says so.
\<close>

theorem procfile_read_ignores_length:
  assumes "mapped m buffer 13" and "len < 13"
  shows "procfile_read s m buffer len 0 = Some (s, put_str m buffer hello_proc, 13, 13) \<and>
    put_str m buffer hello_proc (buffer + len) = Some (hello_proc ! len)"
  using procfile_read_mapped [OF assms(1), of 0 s len] put_str_nth [of m buffer hello_proc len] assms
  by simp

theorem procfile_read_ignores_length_witness:
  "procfile_read () (\<lambda>_. Some NUL) 0 1 0 = Some ((), put_str (\<lambda>_. Some NUL) 0 hello_proc, 13, 13)"
  using procfile_read_ignores_length [of "\<lambda>_. Some NUL" 0 1 "()"] by (simp add: mapped_def)

text \<open>
  A write to the file of procfs2.c never leaves the buffer, takes at most 1023 bytes, and prints
  exactly the text it took.
\<close>

theorem procfs2_write_bounded:
  assumes "length (p2_buffer s) = PROCFS2_MAX_SIZE" and "mapped m buff (min len 1023)"
  shows "\<exists>s'. procfs2_write s m buff len off = Some (s', off + int (min len 1023), int (min len 1023),
      ''procfile write '' @ cstr (ustr m buff (min len 1023)) @ [LF]) \<and>
    length (p2_buffer s') = PROCFS2_MAX_SIZE"
  using procfs2_write_eq [of s m buff len off] assms by (simp add: PROCFS2_MAX_SIZE_def Let_def)

theorem procfs2_write_bounded_witness:
  "\<exists>s'. procfs2_write procfs2_start (\<lambda>_. Some CHR ''x'') 0 5000 0 = Some (s', int 1023, int 1023,
      ''procfile write '' @ cstr (ustr (\<lambda>_. Some CHR ''x'') 0 1023) @ [LF])"
  using procfs2_write_bounded [of procfs2_start "\<lambda>_. Some CHR ''x''" 0 5000 0]
  by (auto simp: procfs2_start_def mapped_def)

end
