(* ===== verification/Rcu.thy ===== *)
theory Rcu
  imports Transition "HOL-Library.Option_ord"
begin

text \<open>
  examples/example_rcu.c: data shared between a reader thread and an updater under read-copy-update.
  The module's init function publishes 42, starts the reader, publishes 100; its exit function stops
  the reader and frees what is left. Every access to shared memory is a step of its own, so all
  interleavings of the two threads are covered.

  \<^item> A \<open>struct my_data\<close> is an address and its \<open>value\<close>; \<open>r_heap\<close> holds the objects allocated.
  \<^item> \<open>synchronize_rcu\<close> returns when the read-side section that was open when it was called has been
    left: \<open>r_waits_for\<close> is whether that section is still open.
\<close>

subsection \<open>The threads\<close>

text \<open>Where the reader thread is in \<open>reader_thread_fn\<close>; its argument is the local variable it needs.\<close>

datatype reader_pc =
    R_None                      \<comment> \<open>not created\<close>
  | R_Test                      \<comment> \<open>at \<open>kthread_should_stop\<close>\<close>
  | R_Lock                      \<comment> \<open>at \<open>rcu_read_lock\<close>\<close>
  | R_Deref                     \<comment> \<open>at \<open>rcu_dereference\<close>\<close>
  | R_Got nat                   \<comment> \<open>at \<open>p->value\<close>\<close>
  | R_Unlock "int option"       \<comment> \<open>at \<open>rcu_read_unlock\<close>, with the value if it is valid\<close>
  | R_Print "int option"
  | R_Sleep
  | R_Exit                      \<comment> \<open>returned\<close>

text \<open>Where a call of \<open>update_data\<close> is.\<close>

datatype update_pc =
    U_Alloc int                 \<comment> \<open>at \<open>kmalloc\<close>, for the new value\<close>
  | U_Swap nat                  \<comment> \<open>at the pointer swap, with \<open>new_p\<close>\<close>
  | U_Sync nat                  \<comment> \<open>at \<open>synchronize_rcu\<close>, with \<open>old_p\<close>\<close>
  | U_Wait nat                  \<comment> \<open>inside \<open>synchronize_rcu\<close>\<close>
  | U_Free nat                  \<comment> \<open>at \<open>kfree\<close>\<close>
  | U_Done

text \<open>Where the thread that loads and unloads the module is.\<close>

datatype loader_pc =
    Init_Update1 update_pc
  | Init_Run                    \<comment> \<open>at \<open>kthread_run\<close>\<close>
  | Init_Sleep1
  | Init_Update2 update_pc
  | Init_Sleep2
  | Init_Failed int             \<comment> \<open>init has returned an error\<close>
  | Loaded                      \<comment> \<open>init has returned 0\<close>
  | Exit_Stop                   \<comment> \<open>at \<open>kthread_stop\<close>\<close>
  | Exit_Stopping               \<comment> \<open>inside \<open>kthread_stop\<close>\<close>
  | Exit_Swap
  | Exit_Sync nat
  | Exit_Wait nat
  | Exit_Free nat
  | Unloaded

record rcu =
  r_shared_data :: "nat option"
  r_heap :: "nat \<rightharpoonup> int"
  r_reader :: reader_pc
  r_waits_for :: bool
  r_should_stop :: bool
  r_loader :: loader_pc
  r_log :: "int option list"    \<comment> \<open>what the reader has printed, the last line first\<close>

definition rcu_start :: rcu where
  "rcu_start = \<lparr>r_shared_data = None, r_heap = Map.empty, r_reader = R_None, r_waits_for = False,
     r_should_stop = False, r_loader = Init_Update1 (U_Alloc 42), r_log = []\<rparr>"

fun in_section :: "reader_pc \<Rightarrow> bool" where
  "in_section R_Deref \<longleftrightarrow> True"
| "in_section (R_Got p) \<longleftrightarrow> True"
| "in_section (R_Unlock val) \<longleftrightarrow> True"
| "in_section _ \<longleftrightarrow> False"

subsection \<open>The steps\<close>

text \<open>\<open>reader_thread_fn\<close>. Reading the value of an object that has been freed is no step.\<close>

inductive reader_thread_fn :: "rcu \<Rightarrow> rcu \<Rightarrow> bool" where
  stop: "r_reader s = R_Test \<Longrightarrow> r_should_stop s \<Longrightarrow> reader_thread_fn s (s\<lparr>r_reader := R_Exit\<rparr>)"
| go_on: "r_reader s = R_Test \<Longrightarrow> \<not> r_should_stop s \<Longrightarrow> reader_thread_fn s (s\<lparr>r_reader := R_Lock\<rparr>)"
| lock: "r_reader s = R_Lock \<Longrightarrow> reader_thread_fn s (s\<lparr>r_reader := R_Deref\<rparr>)"
| deref: "r_reader s = R_Deref \<Longrightarrow> r_shared_data s = Some p \<Longrightarrow>
    reader_thread_fn s (s\<lparr>r_reader := R_Got p\<rparr>)"
| deref_null: "r_reader s = R_Deref \<Longrightarrow> r_shared_data s = None \<Longrightarrow>
    reader_thread_fn s (s\<lparr>r_reader := R_Unlock None\<rparr>)"
| get: "r_reader s = R_Got p \<Longrightarrow> r_heap s p = Some val \<Longrightarrow>
    reader_thread_fn s (s\<lparr>r_reader := R_Unlock (Some val)\<rparr>)"
| unlock: "r_reader s = R_Unlock val \<Longrightarrow>
    reader_thread_fn s (s\<lparr>r_reader := R_Print val, r_waits_for := False\<rparr>)"
| print: "r_reader s = R_Print val \<Longrightarrow>
    reader_thread_fn s (s\<lparr>r_reader := R_Sleep, r_log := val # r_log s\<rparr>)"
| sleep: "r_reader s = R_Sleep \<Longrightarrow> reader_thread_fn s (s\<lparr>r_reader := R_Test\<rparr>)"

text \<open>
  \<open>update_data\<close>: from a state and a place to the next. A failed \<open>kmalloc\<close> returns. Freeing an object
  that is not allocated is no step.
\<close>

inductive update_data :: "rcu \<Rightarrow> update_pc \<Rightarrow> rcu \<Rightarrow> update_pc \<Rightarrow> bool" where
  no_memory: "update_data s (U_Alloc new_value) s U_Done"
| alloc: "r_heap s new_p = None \<Longrightarrow>
    update_data s (U_Alloc new_value) (s\<lparr>r_heap := (r_heap s)(new_p \<mapsto> new_value)\<rparr>) (U_Swap new_p)"
| swap: "r_shared_data s = Some old_p \<Longrightarrow>
    update_data s (U_Swap new_p) (s\<lparr>r_shared_data := Some new_p\<rparr>) (U_Sync old_p)"
| swap_null: "r_shared_data s = None \<Longrightarrow>
    update_data s (U_Swap new_p) (s\<lparr>r_shared_data := Some new_p\<rparr>) U_Done"
| sync: "update_data s (U_Sync old_p) (s\<lparr>r_waits_for := in_section (r_reader s)\<rparr>) (U_Wait old_p)"
| wait: "\<not> r_waits_for s \<Longrightarrow> update_data s (U_Wait old_p) s (U_Free old_p)"
| free: "r_heap s old_p \<noteq> None \<Longrightarrow>
    update_data s (U_Free old_p) (s\<lparr>r_heap := (r_heap s)(old_p := None)\<rparr>) U_Done"

text \<open>\<open>example_rcu_init\<close>.\<close>

inductive example_rcu_init :: "rcu \<Rightarrow> rcu \<Rightarrow> bool" where
  update1: "r_loader s = Init_Update1 u \<Longrightarrow> update_data s u s' u' \<Longrightarrow>
    example_rcu_init s (s'\<lparr>r_loader := Init_Update1 u'\<rparr>)"
| update1_done: "r_loader s = Init_Update1 U_Done \<Longrightarrow> example_rcu_init s (s\<lparr>r_loader := Init_Run\<rparr>)"
| run: "r_loader s = Init_Run \<Longrightarrow>
    example_rcu_init s (s\<lparr>r_reader := R_Test, r_loader := Init_Sleep1\<rparr>)"
| run_fails: "r_loader s = Init_Run \<Longrightarrow> err < 0 \<Longrightarrow>
    example_rcu_init s (s\<lparr>r_loader := Init_Failed err\<rparr>)"
| sleep1: "r_loader s = Init_Sleep1 \<Longrightarrow>
    example_rcu_init s (s\<lparr>r_loader := Init_Update2 (U_Alloc 100)\<rparr>)"
| update2: "r_loader s = Init_Update2 u \<Longrightarrow> update_data s u s' u' \<Longrightarrow>
    example_rcu_init s (s'\<lparr>r_loader := Init_Update2 u'\<rparr>)"
| update2_done: "r_loader s = Init_Update2 U_Done \<Longrightarrow>
    example_rcu_init s (s\<lparr>r_loader := Init_Sleep2\<rparr>)"
| sleep2: "r_loader s = Init_Sleep2 \<Longrightarrow> example_rcu_init s (s\<lparr>r_loader := Loaded\<rparr>)"

text \<open>\<open>example_rcu_exit\<close>; \<open>kthread_stop\<close> asks the thread to stop and waits until it has returned.\<close>

inductive example_rcu_exit :: "rcu \<Rightarrow> rcu \<Rightarrow> bool" where
  rmmod: "r_loader s = Loaded \<Longrightarrow> example_rcu_exit s (s\<lparr>r_loader := Exit_Stop\<rparr>)"
| stop: "r_loader s = Exit_Stop \<Longrightarrow>
    example_rcu_exit s (s\<lparr>r_should_stop := True, r_loader := Exit_Stopping\<rparr>)"
| stopped: "r_loader s = Exit_Stopping \<Longrightarrow> r_reader s = R_Exit \<Longrightarrow>
    example_rcu_exit s (s\<lparr>r_loader := Exit_Swap\<rparr>)"
| swap: "r_loader s = Exit_Swap \<Longrightarrow> r_shared_data s = Some old_p \<Longrightarrow>
    example_rcu_exit s (s\<lparr>r_shared_data := None, r_loader := Exit_Sync old_p\<rparr>)"
| swap_null: "r_loader s = Exit_Swap \<Longrightarrow> r_shared_data s = None \<Longrightarrow>
    example_rcu_exit s (s\<lparr>r_loader := Unloaded\<rparr>)"
| sync: "r_loader s = Exit_Sync old_p \<Longrightarrow>
    example_rcu_exit s (s\<lparr>r_waits_for := in_section (r_reader s), r_loader := Exit_Wait old_p\<rparr>)"
| wait: "r_loader s = Exit_Wait old_p \<Longrightarrow> \<not> r_waits_for s \<Longrightarrow>
    example_rcu_exit s (s\<lparr>r_loader := Exit_Free old_p\<rparr>)"
| free: "r_loader s = Exit_Free old_p \<Longrightarrow> r_heap s old_p \<noteq> None \<Longrightarrow>
    example_rcu_exit s (s\<lparr>r_heap := (r_heap s)(old_p := None), r_loader := Unloaded\<rparr>)"

definition rcu_step :: "rcu \<Rightarrow> rcu \<Rightarrow> bool" where
  "rcu_step s t \<longleftrightarrow> reader_thread_fn s t \<or> example_rcu_init s t \<or> example_rcu_exit s t"



subsection \<open>The memory invariant\<close>

text \<open>The object a thread that updates holds outside \<open>shared_data\<close>, and at which of its places.\<close>

definition held_update :: "update_pc \<Rightarrow> nat option" where
  "held_update u = (case u of U_Swap p \<Rightarrow> Some p | U_Sync p \<Rightarrow> Some p | U_Wait p \<Rightarrow> Some p
     | U_Free p \<Rightarrow> Some p | _ \<Rightarrow> None)"

definition held :: "loader_pc \<Rightarrow> nat option" where
  "held l = (case l of Init_Update1 u \<Rightarrow> held_update u | Init_Update2 u \<Rightarrow> held_update u
     | Exit_Sync p \<Rightarrow> Some p | Exit_Wait p \<Rightarrow> Some p | Exit_Free p \<Rightarrow> Some p | _ \<Rightarrow> None)"

definition at_sync :: "loader_pc \<Rightarrow> nat option" where
  "at_sync l = (case l of Init_Update1 (U_Sync p) \<Rightarrow> Some p | Init_Update2 (U_Sync p) \<Rightarrow> Some p
     | Exit_Sync p \<Rightarrow> Some p | _ \<Rightarrow> None)"

definition at_wait :: "loader_pc \<Rightarrow> nat option" where
  "at_wait l = (case l of Init_Update1 (U_Wait p) \<Rightarrow> Some p | Init_Update2 (U_Wait p) \<Rightarrow> Some p
     | Exit_Wait p \<Rightarrow> Some p | _ \<Rightarrow> None)"

text \<open>The reader thread exists from \<open>kthread_run\<close> on, and has returned when \<open>kthread_stop\<close> returns.\<close>

definition before_run :: "loader_pc \<Rightarrow> bool" where
  "before_run l = (case l of Init_Update1 _ \<Rightarrow> True | Init_Run \<Rightarrow> True | Init_Failed _ \<Rightarrow> True | _ \<Rightarrow> False)"

definition after_stop :: "loader_pc \<Rightarrow> bool" where
  "after_stop l = (case l of Exit_Swap \<Rightarrow> True | Exit_Sync _ \<Rightarrow> True | Exit_Wait _ \<Rightarrow> True
     | Exit_Free _ \<Rightarrow> True | Unloaded \<Rightarrow> True | _ \<Rightarrow> False)"

lemma loader_places [simp]:
  "held (Init_Update1 u) = held_update u" "held (Init_Update2 u) = held_update u"
  "held Init_Run = None" "held Init_Sleep1 = None" "held Init_Sleep2 = None"
  "held (Init_Failed err) = None" "held Loaded = None" "held Exit_Stop = None"
  "held Exit_Stopping = None" "held Exit_Swap = None" "held (Exit_Sync p) = Some p"
  "held (Exit_Wait p) = Some p" "held (Exit_Free p) = Some p" "held Unloaded = None"
  by (simp_all add: held_def)

lemma update_places [simp]:
  "held_update (U_Alloc v) = None" "held_update (U_Swap p) = Some p" "held_update (U_Sync p) = Some p"
  "held_update (U_Wait p) = Some p" "held_update (U_Free p) = Some p" "held_update U_Done = None"
  by (simp_all add: held_update_def)

lemmas places_defs = at_sync_def at_wait_def before_run_def after_stop_def

text \<open>What is allocated is what is published or held, and nothing else.\<close>

definition rcu_mem :: "rcu \<Rightarrow> bool" where
  "rcu_mem s \<longleftrightarrow> (\<forall>p. r_heap s p \<noteq> None \<longleftrightarrow> r_shared_data s = Some p \<or> held (r_loader s) = Some p) \<and>
     (\<forall>p. r_shared_data s = Some p \<longrightarrow> held (r_loader s) \<noteq> Some p)"

text \<open>
  A pointer in the reader's hands is published, or was unpublished by an updater that has yet to wait
  for this very section.
\<close>

definition rcu_refs :: "rcu \<Rightarrow> bool" where
  "rcu_refs s \<longleftrightarrow> (\<forall>p. r_reader s = R_Got p \<longrightarrow> r_shared_data s = Some p \<or>
     at_sync (r_loader s) = Some p \<or> at_wait (r_loader s) = Some p \<and> r_waits_for s)"

definition rcu_phase :: "rcu \<Rightarrow> bool" where
  "rcu_phase s \<longleftrightarrow> (r_waits_for s \<longrightarrow> in_section (r_reader s)) \<and>
     (before_run (r_loader s) \<longleftrightarrow> r_reader s = R_None) \<and>
     (after_stop (r_loader s) \<longrightarrow> r_reader s = R_Exit) \<and>
     (r_loader s = Unloaded \<longrightarrow> r_shared_data s = None) \<and>
     (\<forall>p. r_shared_data s = Some p \<longrightarrow> held (r_loader s) = None \<or> \<not> after_stop (r_loader s))"

definition rcu_inv :: "rcu \<Rightarrow> bool" where
  "rcu_inv s \<longleftrightarrow> rcu_mem s \<and> rcu_refs s \<and> rcu_phase s"

lemmas rcu_invs = rcu_inv_def rcu_mem_def rcu_refs_def rcu_phase_def

inductive_cases update_doneE: "update_data s U_Done s' u'"

lemma update_done [simp]: "\<not> update_data s U_Done s' u'"
  by (blast elim: update_doneE)

lemma reader_mem: "reader_thread_fn s t \<Longrightarrow> rcu_mem s \<Longrightarrow> rcu_mem t"
  by (induction rule: reader_thread_fn.induct) (simp_all add: rcu_mem_def)

lemma reader_refs: "reader_thread_fn s t \<Longrightarrow> rcu_refs s \<Longrightarrow> rcu_refs t"
  by (induction rule: reader_thread_fn.induct) (simp_all add: rcu_refs_def)

lemma reader_phase: "reader_thread_fn s t \<Longrightarrow> rcu_phase s \<Longrightarrow> rcu_phase t"
  by (induction rule: reader_thread_fn.induct) (auto simp: rcu_phase_def)

lemma update_mem:
  assumes "update_data s u s' u'" and "rcu_mem s" and "held (r_loader s) = held_update u"
    and "held l' = held_update u'"
  shows "rcu_mem (s'\<lparr>r_loader := l'\<rparr>)"
  using assms
  by (induction rule: update_data.induct)
    (auto simp: rcu_mem_def split: if_splits, metis option.distinct(1))

lemma update_refs:
  assumes "update_data s u s' u'" and "rcu_mem s" and "rcu_refs s" and "rcu_phase s"
    and "r_loader s = init_at u" and "init_at = Init_Update1 \<or> init_at = Init_Update2"
  shows "rcu_refs (s'\<lparr>r_loader := init_at u'\<rparr>)"
  using assms
  by (induction rule: update_data.induct)
    (elim disjE; auto simp: rcu_refs_def rcu_phase_def places_defs)+

lemma update_phase:
  assumes "update_data s u s' u'" and "rcu_phase s"
    and "r_loader s = init_at u" and "init_at = Init_Update1 \<or> init_at = Init_Update2"
  shows "rcu_phase (s'\<lparr>r_loader := init_at u'\<rparr>)"
  using assms
  by (induction rule: update_data.induct) (elim disjE; auto simp: rcu_phase_def places_defs)+

lemma update_inv:
  assumes "update_data s u s' u'" and "rcu_inv s"
    and "r_loader s = init_at u" and "init_at = Init_Update1 \<or> init_at = Init_Update2"
  shows "rcu_inv (s'\<lparr>r_loader := init_at u'\<rparr>)"
proof -
  have "held (r_loader s) = held_update u" "held (init_at u') = held_update u'"
    using assms(3,4) by auto
  then show ?thesis
    using assms update_mem [OF assms(1)] update_refs [OF assms(1)] update_phase [OF assms(1)]
    unfolding rcu_inv_def by blast
qed

lemma reader_inv: "reader_thread_fn s t \<Longrightarrow> rcu_inv s \<Longrightarrow> rcu_inv t"
  by (simp add: rcu_inv_def reader_mem reader_refs reader_phase)

lemma init_inv: "example_rcu_init s t \<Longrightarrow> rcu_inv s \<Longrightarrow> rcu_inv t"
proof (induction rule: example_rcu_init.induct)
  case (update1 s u s' u')
  then show ?case by (intro update_inv) auto
next
  case (update2 s u s' u')
  then show ?case by (intro update_inv) auto
qed (auto simp: rcu_inv_def rcu_mem_def rcu_refs_def rcu_phase_def places_defs)

lemma exit_mem: "example_rcu_exit s t \<Longrightarrow> rcu_mem s \<Longrightarrow> rcu_phase s \<Longrightarrow> rcu_mem t"
  by (induction rule: example_rcu_exit.induct)
    (auto simp: rcu_mem_def rcu_phase_def places_defs simp del: not_None_eq, metis)

lemma exit_refs: "example_rcu_exit s t \<Longrightarrow> rcu_refs s \<Longrightarrow> rcu_phase s \<Longrightarrow> rcu_refs t"
  by (induction rule: example_rcu_exit.induct) (auto simp: rcu_refs_def rcu_phase_def places_defs)

lemma exit_phase: "example_rcu_exit s t \<Longrightarrow> rcu_phase s \<Longrightarrow> rcu_phase t"
  by (induction rule: example_rcu_exit.induct) (auto simp: rcu_phase_def places_defs)

lemma exit_inv: "example_rcu_exit s t \<Longrightarrow> rcu_inv s \<Longrightarrow> rcu_inv t"
  unfolding rcu_inv_def by (blast intro: exit_mem exit_refs exit_phase)

interpretation rcu_sys: invariant_system rcu_step rcu_start rcu_inv
proof unfold_locales
  show "rcu_inv rcu_start"
    by (simp add: rcu_start_def rcu_inv_def rcu_mem_def rcu_refs_def rcu_phase_def places_defs)
  show "rcu_inv t" if "rcu_step s t" "rcu_inv s" for s t
    using that reader_inv init_inv exit_inv unfolding rcu_step_def by blast
qed

subsection \<open>The values the reader sees\<close>

text \<open>
  The value that is published, and the one the reader is about to print; nothing is below everything.
\<close>

definition published :: "rcu \<Rightarrow> int option" where
  "published s = (case r_shared_data s of None \<Rightarrow> None | Some p \<Rightarrow> r_heap s p)"

definition pending :: "rcu \<Rightarrow> int option" where
  "pending s = (case r_reader s of R_Got p \<Rightarrow> r_heap s p | R_Unlock val \<Rightarrow> val | R_Print val \<Rightarrow> val
     | _ \<Rightarrow> published s)"

definition rcu_values :: "int option set" where
  "rcu_values = {None, Some 42, Some 100}"

lemma published_simps [simp]:
  "published (s\<lparr>r_loader := l\<rparr>) = published s" "published (s\<lparr>r_waits_for := w\<rparr>) = published s"
  "published (s\<lparr>r_reader := r\<rparr>) = published s" "published (s\<lparr>r_should_stop := b\<rparr>) = published s"
  "published (s\<lparr>r_log := lg\<rparr>) = published s"
  by (simp_all add: published_def split: option.split)

lemma pending_simps [simp]:
  "pending (s\<lparr>r_loader := l\<rparr>) = pending s" "pending (s\<lparr>r_waits_for := w\<rparr>) = pending s"
  "pending (s\<lparr>r_should_stop := b\<rparr>) = pending s" "pending (s\<lparr>r_log := lg\<rparr>) = pending s"
  by (simp_all add: pending_def split: reader_pc.split)

text \<open>Only the two values are ever stored, and the second update publishes the larger.\<close>

definition rcu_stored :: "rcu \<Rightarrow> bool" where
  "rcu_stored s \<longleftrightarrow> (\<forall>p. r_heap s p \<in> rcu_values) \<and>
     (\<forall>v. r_loader s = Init_Update1 (U_Alloc v) \<longrightarrow> v = 42) \<and>
     (\<forall>v. r_loader s = Init_Update2 (U_Alloc v) \<longrightarrow> v = 100) \<and>
     (\<forall>p. r_loader s = Init_Update2 (U_Swap p) \<longrightarrow> r_heap s p = Some 100)"

text \<open>The reader's lines grow with what is published.\<close>

definition rcu_order :: "rcu \<Rightarrow> bool" where
  "rcu_order s \<longleftrightarrow> set (pending s # r_log s) \<subseteq> rcu_values \<and> sorted_wrt (\<ge>) (r_log s) \<and>
     (r_reader s = R_None \<longrightarrow> r_log s = []) \<and>
     (r_reader s \<noteq> R_Exit \<longrightarrow> (\<forall>v\<in>set (r_log s). v \<le> pending s) \<and> pending s \<le> published s)"

lemma reader_stored: "reader_thread_fn s t \<Longrightarrow> rcu_stored s \<Longrightarrow> rcu_stored t"
  by (induction rule: reader_thread_fn.induct) (simp_all add: rcu_stored_def)

lemma init_stored: "example_rcu_init s t \<Longrightarrow> rcu_stored s \<Longrightarrow> rcu_stored t"
proof (induction rule: example_rcu_init.induct)
  case (update1 s u s' u')
  from update1(2,1,3) show ?case
    by (induction rule: update_data.induct) (auto simp: rcu_stored_def rcu_values_def)
next
  case (update2 s u s' u')
  from update2(2,1,3) show ?case
    by (induction rule: update_data.induct) (auto simp: rcu_stored_def rcu_values_def)
qed (auto simp: rcu_stored_def)

lemma exit_stored: "example_rcu_exit s t \<Longrightarrow> rcu_stored s \<Longrightarrow> rcu_stored t"
  by (induction rule: example_rcu_exit.induct) (auto simp: rcu_stored_def rcu_values_def)

lemma published_values: "rcu_stored s \<Longrightarrow> published s \<in> rcu_values"
  by (auto simp: published_def rcu_stored_def rcu_values_def split: option.splits)

lemma rcu_values_le: "v \<in> rcu_values \<Longrightarrow> v \<le> Some 100"
  by (auto simp: rcu_values_def)

lemma reader_order: "reader_thread_fn s t \<Longrightarrow> rcu_stored s \<Longrightarrow> rcu_order s \<Longrightarrow> rcu_order t"
proof (induction rule: reader_thread_fn.induct)
  case (print s val)
  then show ?case using published_values [of s]
    by (auto simp: rcu_order_def pending_def published_def split: option.splits)
next
  case (get s p val)
  then show ?case by (auto simp: rcu_order_def pending_def published_def split: option.splits)
next
  case (unlock s val)
  then show ?case using published_values [of s]
    by (auto simp: rcu_order_def pending_def published_def split: option.splits)
qed (auto simp: rcu_order_def pending_def published_def split: option.splits)

text \<open>A step that changes neither what is published nor what is pending.\<close>

lemma order_cong:
  assumes "rcu_order s" and "published t = published s" and "pending t = pending s"
    and "r_log t = r_log s" and "r_reader t = r_reader s"
  shows "rcu_order t"
  using assms by (simp add: rcu_order_def)

lemma heap_views:
  assumes "rcu_inv s" and "held (r_loader s) \<noteq> Some p \<longrightarrow> r_heap s p = None"
    and "at_sync (r_loader s) \<noteq> Some p" and "at_wait (r_loader s) \<noteq> Some p"
    and "t = s\<lparr>r_heap := (r_heap s)(p := v), r_loader := l\<rparr>"
  shows "published t = published s" and "pending t = pending s"
proof -
  have shared: "r_shared_data s \<noteq> Some p"
    using assms(1,2) unfolding rcu_inv_def rcu_mem_def by metis
  moreover have "r_reader s \<noteq> R_Got p"
    using assms(1,3,4) shared unfolding rcu_inv_def rcu_refs_def by metis
  ultimately show "published t = published s" "pending t = pending s"
    by (auto simp: assms(5) published_def pending_def split: option.splits reader_pc.splits)
qed

lemma swap_order:
  assumes "rcu_inv s" and "rcu_stored s" and "rcu_order s"
    and "r_loader s = init_at (U_Swap p)" and "init_at = Init_Update1 \<or> init_at = Init_Update2"
  shows "rcu_order (s\<lparr>r_shared_data := Some p, r_loader := l\<rparr>)"
proof -
  let ?t = "s\<lparr>r_shared_data := Some p, r_loader := l\<rparr>"
  have vals: "r_heap s p \<in> rcu_values" "pending s \<in> rcu_values" "set (r_log s) \<subseteq> rcu_values"
    using assms(2,3) by (auto simp: rcu_stored_def rcu_order_def)
  have pending_t: "pending ?t = r_heap s p \<or> pending ?t = pending s"
    by (auto simp: pending_def published_def split: reader_pc.splits)
  show ?thesis using assms(5)
  proof (elim disjE)
    assume "init_at = Init_Update1"
    with assms(1,4) have "r_reader s = R_None"
      by (simp add: rcu_inv_def rcu_phase_def places_defs)
    with assms(3) vals(1) show ?thesis by (simp add: rcu_order_def pending_def published_def)
  next
    assume "init_at = Init_Update2"
    with assms(2,4) have top: "r_heap s p = Some 100" by (simp add: rcu_stored_def)
    have "(\<forall>v\<in>set (r_log s). v \<le> pending ?t) \<and> pending ?t \<le> published ?t"
      if "r_reader s \<noteq> R_Exit"
      using that pending_t assms(3) vals rcu_values_le top
      by (auto simp: rcu_order_def published_def)
    with pending_t assms(3) vals(1) top show ?thesis
      by (auto simp: rcu_order_def published_def)
  qed
qed

lemma update_order:
  assumes "update_data s u s' u'" and "rcu_inv s" and "rcu_stored s" and "rcu_order s"
    and "r_loader s = init_at u" and "init_at = Init_Update1 \<or> init_at = Init_Update2"
  shows "rcu_order (s'\<lparr>r_loader := init_at u'\<rparr>)"
  using assms
proof (induction rule: update_data.induct)
  case (alloc s new_p new_value)
  then show ?case
    by (intro order_cong [OF alloc(4)] heap_views [OF alloc(2), of new_p]) (auto simp: places_defs)
next
  case (free s old_p)
  then show ?case
    by (intro order_cong [OF free(4)] heap_views [OF free(2), of old_p]) (auto simp: places_defs)
next
  case (swap s old_p new_p)
  then show ?case by (intro swap_order)
next
  case (swap_null s new_p)
  then show ?case by (intro swap_order)
qed (erule order_cong; simp)+

lemma init_order:
  "example_rcu_init s t \<Longrightarrow> rcu_inv s \<Longrightarrow> rcu_stored s \<Longrightarrow> rcu_order s \<Longrightarrow> rcu_order t"
proof (induction rule: example_rcu_init.induct)
  case (update1 s u s' u')
  then show ?case by (intro update_order) auto
next
  case (update2 s u s' u')
  then show ?case by (intro update_order) auto
next
  case (run s)
  then have "r_reader s = R_None" by (simp add: rcu_inv_def rcu_phase_def places_defs)
  with run(4) show ?case by (simp add: rcu_order_def pending_def)
qed (erule order_cong; simp)+

text \<open>Once the reader has returned, only its lines matter.\<close>

lemma order_after_stop:
  assumes "rcu_order s" and "r_reader s = R_Exit" and "rcu_stored t" and "r_log t = r_log s"
    and "r_reader t = R_Exit"
  shows "rcu_order t"
proof -
  have "pending t = published t" by (simp add: pending_def assms(5))
  with assms published_values [OF assms(3)] show ?thesis by (simp add: rcu_order_def)
qed

lemma exit_order:
  assumes "example_rcu_exit s t" and "rcu_inv s" and "rcu_stored s" and "rcu_order s"
  shows "rcu_order t"
proof -
  have t: "rcu_stored t" using exit_stored assms(1,3) by blast
  have stopped: "r_reader s = R_Exit" if "after_stop (r_loader s)"
    using assms(2) that by (simp add: rcu_inv_def rcu_phase_def)
  show ?thesis using assms(1)
  proof cases
    case (swap old_p)
    then show ?thesis using t stopped
      by (intro order_after_stop [OF assms(4)]) (simp_all add: places_defs)
  next
    case (free old_p)
    then show ?thesis using t stopped
      by (intro order_after_stop [OF assms(4)]) (simp_all add: places_defs)
  qed (rule order_cong [OF assms(4)]; simp)+
qed

interpretation rcu_values: invariant_system rcu_step rcu_start
    "\<lambda>s. rcu_inv s \<and> rcu_stored s \<and> rcu_order s"
proof unfold_locales
  show "rcu_inv rcu_start \<and> rcu_stored rcu_start \<and> rcu_order rcu_start"
    by (simp add: rcu_sys.inv_start)
      (simp add: rcu_start_def rcu_stored_def rcu_order_def pending_def published_def rcu_values_def)
  show "rcu_inv t \<and> rcu_stored t \<and> rcu_order t"
    if "rcu_step s t" "rcu_inv s \<and> rcu_stored s \<and> rcu_order s" for s t
    using that rcu_sys.inv_step reader_stored init_stored exit_stored reader_order init_order exit_order
    unfolding rcu_step_def by blast
qed

subsection \<open>Progress\<close>

lemma reader_steps:
  assumes "rcu_inv s" and "r_reader s \<noteq> R_None" and "r_reader s \<noteq> R_Exit"
  shows "\<exists>t. reader_thread_fn s t"
proof (cases "r_reader s")
  case (R_Got p)
  have "at_sync l = Some p \<or> at_wait l = Some p \<Longrightarrow> held l = Some p" for l
    by (auto simp: places_defs split: loader_pc.splits update_pc.splits)
  with assms(1) R_Got have "r_heap s p \<noteq> None"
    unfolding rcu_inv_def rcu_mem_def rcu_refs_def by metis
  with R_Got show ?thesis by (auto intro: reader_thread_fn.get)
qed (use assms in \<open>auto intro: reader_thread_fn.intros; cases "r_shared_data s";
      cases "r_should_stop s"; auto intro: reader_thread_fn.intros\<close>)+

text \<open>The module's life is over when it is unloaded or init has failed.\<close>

definition rcu_finished :: "rcu \<Rightarrow> bool" where
  "rcu_finished s \<longleftrightarrow> r_loader s = Unloaded \<or> (\<exists>err. r_loader s = Init_Failed err)"

lemma update_steps:
  assumes "rcu_inv s" and "held (r_loader s) = held_update u" and "u \<noteq> U_Done"
    and "\<forall>old_p. u = U_Wait old_p \<longrightarrow> \<not> r_waits_for s"
  shows "\<exists>s' u'. update_data s u s' u'"
proof (cases u)
  case (U_Swap new_p)
  then show ?thesis by (cases "r_shared_data s") (auto intro: update_data.intros)
next
  case (U_Free old_p)
  with assms(1,2) have "r_heap s old_p \<noteq> None" by (auto simp: rcu_inv_def rcu_mem_def)
  with U_Free show ?thesis by (blast intro: update_data.free)
qed (use assms(3,4) in \<open>auto intro: update_data.intros\<close>)

lemma section_left:
  assumes "rcu_inv s" and "r_waits_for s"
  shows "\<exists>t. rcu_step s t"
proof -
  have "in_section (r_reader s)" using assms by (simp add: rcu_inv_def rcu_phase_def)
  then have "r_reader s \<noteq> R_None" "r_reader s \<noteq> R_Exit" by auto
  with reader_steps [OF assms(1)] show ?thesis by (auto simp: rcu_step_def)
qed

lemma rcu_progress:
  assumes "rcu_inv s" and "\<not> rcu_finished s"
  shows "\<exists>t. rcu_step s t"
proof (cases "r_waits_for s")
  case True
  with assms(1) show ?thesis by (rule section_left)
next
  case False
  show ?thesis
  proof (cases "r_loader s")
    case (Init_Update1 u)
    with assms(1) False update_steps [of s u] show ?thesis
      by (cases "u = U_Done") (auto simp: rcu_step_def intro: example_rcu_init.intros)
  next
    case (Init_Update2 u)
    with assms(1) False update_steps [of s u] show ?thesis
      by (cases "u = U_Done") (auto simp: rcu_step_def intro: example_rcu_init.intros)
  next
    case Exit_Stopping
    then have "r_reader s \<noteq> R_None" using assms(1) by (simp add: rcu_inv_def rcu_phase_def places_defs)
    with Exit_Stopping reader_steps [OF assms(1)] show ?thesis
      by (cases "r_reader s = R_Exit") (auto simp: rcu_step_def intro: example_rcu_exit.intros)
  next
    case Exit_Swap
    then show ?thesis
      by (cases "r_shared_data s") (auto simp: rcu_step_def intro: example_rcu_exit.intros)
  next
    case (Exit_Free p)
    with assms(1) have "r_heap s p \<noteq> None" by (simp add: rcu_inv_def rcu_mem_def)
    with Exit_Free show ?thesis by (auto simp: rcu_step_def intro: example_rcu_exit.free)
  qed (use assms(2) False in \<open>auto simp: rcu_step_def rcu_finished_def
      intro: example_rcu_init.intros example_rcu_exit.intros\<close>)
qed

subsection \<open>Unloading\<close>

text \<open>From the moment the exit function has asked the reader to stop.\<close>

definition stopping :: "loader_pc \<Rightarrow> bool" where
  "stopping l \<longleftrightarrow> l = Exit_Stopping \<or> after_stop l"

lemma stopping_simps [simp]:
  "\<not> stopping (Init_Update1 u)" "\<not> stopping Init_Run" "\<not> stopping Init_Sleep1" "\<not> stopping (Init_Update2 u)"
  "\<not> stopping Init_Sleep2" "\<not> stopping (Init_Failed err)" "\<not> stopping Loaded" "\<not> stopping Exit_Stop"
  "stopping Exit_Stopping" "stopping Exit_Swap" "stopping (Exit_Sync p)" "stopping (Exit_Wait p)"
  "stopping (Exit_Free p)" "stopping Unloaded"
  by (simp_all add: stopping_def after_stop_def)

definition rcu_asked :: "rcu \<Rightarrow> bool" where
  "rcu_asked s \<longleftrightarrow> (stopping (r_loader s) \<longrightarrow> r_should_stop s)"

lemma reader_asked: "reader_thread_fn s t \<Longrightarrow> r_loader t = r_loader s \<and> r_should_stop t = r_should_stop s"
  by (induction rule: reader_thread_fn.induct) simp_all

lemma init_asked: "example_rcu_init s t \<Longrightarrow> \<not> stopping (r_loader s) \<and> \<not> stopping (r_loader t)"
  by (induction rule: example_rcu_init.induct) simp_all

lemma exit_asked:
  "example_rcu_exit s t \<Longrightarrow> rcu_asked s \<Longrightarrow> rcu_asked t \<and> (stopping (r_loader s) \<longrightarrow> stopping (r_loader t))"
  by (induction rule: example_rcu_exit.induct) (simp_all add: rcu_asked_def)

interpretation rcu_stop: invariant_system rcu_step rcu_start rcu_asked
proof unfold_locales
  show "rcu_asked rcu_start" by (simp add: rcu_asked_def rcu_start_def)
  show "rcu_asked t" if "rcu_step s t" "rcu_asked s" for s t
    using that reader_asked [of s t] init_asked [of s t] exit_asked [of s t]
    unfolding rcu_step_def rcu_asked_def by auto
qed

text \<open>The steps that the reader, once asked to stop, and the exit function have before them.\<close>

fun reader_left :: "reader_pc \<Rightarrow> nat" where
  "reader_left R_Lock = 7"
| "reader_left R_Deref = 6"
| "reader_left (R_Got p) = 5"
| "reader_left (R_Unlock v) = 4"
| "reader_left (R_Print v) = 3"
| "reader_left R_Sleep = 2"
| "reader_left R_Test = 1"
| "reader_left _ = 0"

fun exit_left :: "loader_pc \<Rightarrow> nat" where
  "exit_left Exit_Stopping = 5"
| "exit_left Exit_Swap = 4"
| "exit_left (Exit_Sync p) = 3"
| "exit_left (Exit_Wait p) = 2"
| "exit_left (Exit_Free p) = 1"
| "exit_left _ = 0"

definition stop_inv :: "rcu \<Rightarrow> bool" where
  "stop_inv s \<longleftrightarrow> rcu_inv s \<and> r_should_stop s \<and> stopping (r_loader s)"

definition stop_left :: "rcu \<Rightarrow> nat" where
  "stop_left s = reader_left (r_reader s) + exit_left (r_loader s)"

lemma reader_left_step: "reader_thread_fn s t \<Longrightarrow> r_should_stop s \<Longrightarrow> stop_left t < stop_left s"
  by (induction rule: reader_thread_fn.induct) (simp_all add: stop_left_def)

lemma exit_left_step: "example_rcu_exit s t \<Longrightarrow> stopping (r_loader s) \<Longrightarrow> stop_left t < stop_left s"
  by (induction rule: example_rcu_exit.induct) (simp_all add: stop_left_def)

text \<open>A module whose second allocation failed, while it is unloaded: a start for such a run.\<close>

definition rcu_stopping :: rcu where
  "rcu_stopping = \<lparr>r_shared_data = Some 0, r_heap = [0 \<mapsto> 42], r_reader = R_Test, r_waits_for = False,
     r_should_stop = True, r_loader = Exit_Stopping, r_log = []\<rparr>"

interpretation rcu_unload: terminating_system rcu_step rcu_stopping stop_inv "\<lambda>s. r_loader s = Unloaded" stop_left
proof unfold_locales
  show "stop_inv rcu_stopping"
    by (auto simp: rcu_stopping_def stop_inv_def rcu_inv_def rcu_mem_def rcu_refs_def rcu_phase_def places_defs)
next
  fix s t
  assume step: "rcu_step s t" and inv: "stop_inv s"
  have "rcu_inv t" using rcu_sys.inv_step [OF step] inv by (simp add: stop_inv_def)
  then show "stop_inv t"
    using step inv reader_asked [of s t] init_asked [of s t] exit_asked [of s t]
    unfolding rcu_step_def stop_inv_def rcu_asked_def by auto
  show "stop_left t < stop_left s"
    using step inv init_asked [of s t] reader_left_step [of s t] exit_left_step [of s t]
    unfolding rcu_step_def stop_inv_def by auto
next
  fix s
  assume "stop_inv s" and "r_loader s \<noteq> Unloaded"
  then show "\<exists>t. rcu_step s t"
    by (intro rcu_progress) (auto simp: stop_inv_def rcu_finished_def)
qed

lemma stop_left_bound: "stop_inv s \<Longrightarrow> stop_left s \<le> 12"
  by (cases "r_reader s"; cases "r_loader s") (simp_all add: stop_left_def)

subsection \<open>Properties\<close>

text \<open>
  C9: whatever the interleaving of reader and updater, the reader never holds a pointer to freed memory
  when it reads the value, \<open>kfree\<close> is never given memory that is not allocated, unloading the module
  leaves nothing allocated, and until then the system never gets stuck: some thread can always go on.
\<close>

theorem rcu_safe:
  assumes "reachable rcu_step rcu_start s"
  shows "(\<forall>p. r_reader s = R_Got p \<longrightarrow> r_heap s p \<noteq> None) \<and>
    (\<forall>p. r_loader s \<in> {Init_Update1 (U_Free p), Init_Update2 (U_Free p), Exit_Free p} \<longrightarrow>
       r_heap s p \<noteq> None) \<and>
    (r_loader s = Unloaded \<longrightarrow> r_heap s = Map.empty) \<and>
    (\<not> rcu_finished s \<longrightarrow> (\<exists>t. rcu_step s t))"
proof -
  have inv: "rcu_inv s" using assms by (rule rcu_sys.reachable_inv)
  have "r_heap s p \<noteq> None" if "r_reader s = R_Got p" for p
    using reader_steps [OF inv] that by (auto elim: reader_thread_fn.cases)
  moreover have "r_heap s p \<noteq> None"
    if "r_loader s \<in> {Init_Update1 (U_Free p), Init_Update2 (U_Free p), Exit_Free p}" for p
    using inv that by (auto simp: rcu_inv_def rcu_mem_def)
  moreover have "r_heap s = Map.empty" if "r_loader s = Unloaded"
    using inv that by (auto simp: rcu_inv_def rcu_mem_def rcu_phase_def)
  ultimately show ?thesis using rcu_progress [OF inv] by blast
qed

text \<open>
  A run up to the second update, whose swap overtakes a reader: the reader still holds the pointer 0
  that the updater has unpublished and waits to free.
\<close>

definition demo_rcu :: rcu where
  "demo_rcu = \<lparr>r_shared_data = Some 1, r_heap = [0 \<mapsto> 42, 1 \<mapsto> 100], r_reader = R_Got 0,
     r_waits_for = True, r_should_stop = False, r_loader = Init_Update2 (U_Wait 0), r_log = []\<rparr>"

definition demo_rcu_run :: rcu where
  "demo_rcu_run = \<lparr>r_shared_data = Some 0, r_heap = [0 \<mapsto> 42], r_reader = R_None, r_waits_for = False,
     r_should_stop = False, r_loader = Init_Run, r_log = []\<rparr>"

lemma demo_rcu_run_reach: "reachable rcu_step rcu_start demo_rcu_run"
proof -
  define s1 where "s1 = rcu_start\<lparr>r_heap := [0 \<mapsto> 42], r_loader := Init_Update1 (U_Swap 0)\<rparr>"
  define s2 where "s2 = s1\<lparr>r_shared_data := Some 0, r_loader := Init_Update1 U_Done\<rparr>"
  have a: "example_rcu_init rcu_start s1"
    unfolding s1_def
    by (rule example_rcu_init.update1 [OF _ update_data.alloc, THEN back_subst [of "example_rcu_init _"]])
      (auto simp: rcu_start_def)
  have b: "example_rcu_init s1 s2"
    unfolding s2_def
    by (rule example_rcu_init.update1 [OF _ update_data.swap_null, THEN back_subst [of "example_rcu_init _"]])
      (auto simp: s1_def rcu_start_def)
  have c: "example_rcu_init s2 demo_rcu_run"
    by (rule example_rcu_init.update1_done [THEN back_subst [of "example_rcu_init _"]])
      (auto simp: s2_def s1_def rcu_start_def demo_rcu_run_def)
  have "step_path rcu_step rcu_start [s1, s2, demo_rcu_run]"
    using a b c by (simp add: rcu_step_def)
  from reachable_path [OF this] show ?thesis by simp
qed

lemma demo_rcu_reach: "reachable rcu_step rcu_start demo_rcu"
proof -
  define s1 where "s1 = demo_rcu_run\<lparr>r_reader := R_Test, r_loader := Init_Sleep1\<rparr>"
  define s2 where "s2 = s1\<lparr>r_loader := Init_Update2 (U_Alloc 100)\<rparr>"
  define s3 where "s3 = s2\<lparr>r_heap := [0 \<mapsto> 42, 1 \<mapsto> 100], r_loader := Init_Update2 (U_Swap 1)\<rparr>"
  define s4 where "s4 = s3\<lparr>r_reader := R_Lock\<rparr>"
  define s5 where "s5 = s4\<lparr>r_reader := R_Deref\<rparr>"
  define s6 where "s6 = s5\<lparr>r_reader := R_Got 0\<rparr>"
  define s7 where "s7 = s6\<lparr>r_shared_data := Some 1, r_loader := Init_Update2 (U_Sync 0)\<rparr>"
  note d = s7_def s6_def s5_def s4_def s3_def s2_def s1_def demo_rcu_run_def demo_rcu_def
  have 1: "example_rcu_init demo_rcu_run s1" "example_rcu_init s1 s2"
    unfolding s2_def s1_def
    by (rule example_rcu_init.run, simp add: demo_rcu_run_def) (rule example_rcu_init.sleep1, simp)
  have 2: "example_rcu_init s2 s3"
    unfolding s3_def
    by (rule example_rcu_init.update2 [OF _ update_data.alloc, THEN back_subst [of "example_rcu_init _"]])
      (auto simp: d)
  have 3: "reader_thread_fn s3 s4" "reader_thread_fn s4 s5" "reader_thread_fn s5 s6"
    unfolding s4_def s5_def s6_def
    by (rule reader_thread_fn.go_on reader_thread_fn.lock reader_thread_fn.deref; simp add: d)+
  have 4: "example_rcu_init s6 s7"
    unfolding s7_def
    by (rule example_rcu_init.update2 [OF _ update_data.swap, THEN back_subst [of "example_rcu_init _"]])
      (auto simp: d)
  have 5: "example_rcu_init s7 demo_rcu"
    by (rule example_rcu_init.update2 [OF _ update_data.sync, THEN back_subst [of "example_rcu_init _"]])
      (auto simp: d)
  have "step_path rcu_step demo_rcu_run [s1, s2, s3, s4, s5, s6, s7, demo_rcu]"
    using 1 2 3 4 5 by (simp add: rcu_step_def)
  from reachable_path [OF this] have "reachable rcu_step demo_rcu_run demo_rcu" by simp
  then show ?thesis using demo_rcu_run_reach by (rule reachable_trans)
qed

theorem rcu_safe_witness:
  "reachable rcu_step rcu_start demo_rcu \<and> r_reader demo_rcu = R_Got 0 \<and>
    r_loader demo_rcu = Init_Update2 (U_Wait 0) \<and> r_heap demo_rcu 0 \<noteq> None \<and>
    (\<exists>t. rcu_step demo_rcu t)"
  using rcu_safe [OF demo_rcu_reach] demo_rcu_reach by (simp add: demo_rcu_def rcu_finished_def)

text \<open>
  C23: the reader only ever prints the two published values or that there is none, and never goes back:
  once it has printed a value it does not print an earlier one.
\<close>

theorem rcu_reader_monotone:
  assumes "reachable rcu_step rcu_start s"
  shows "set (r_log s) \<subseteq> {None, Some 42, Some 100} \<and> sorted (rev (r_log s))"
proof -
  have "rcu_order s" using rcu_values.reachable_inv [OF assms] by blast
  then show ?thesis by (simp add: rcu_order_def rcu_values_def sorted_wrt_rev)
qed

theorem rcu_reader_monotone_witness:
  "\<exists>s. reachable rcu_step rcu_start s \<and> r_log s = [Some 42] \<and> sorted (rev (r_log s))"
proof -
  define s1 where "s1 = demo_rcu\<lparr>r_reader := R_Unlock (Some 42)\<rparr>"
  define s2 where "s2 = s1\<lparr>r_reader := R_Print (Some 42), r_waits_for := False\<rparr>"
  define s3 where "s3 = s2\<lparr>r_reader := R_Sleep, r_log := [Some 42]\<rparr>"
  have 1: "reader_thread_fn demo_rcu s1"
    unfolding s1_def by (rule reader_thread_fn.get [of _ 0]) (simp_all add: demo_rcu_def)
  have 2: "reader_thread_fn s1 s2"
    unfolding s2_def by (rule reader_thread_fn.unlock) (simp add: s1_def)
  have 3: "reader_thread_fn s2 s3"
    unfolding s3_def using reader_thread_fn.print [of s2 "Some 42"]
    by (simp add: s2_def s1_def demo_rcu_def)
  have "step_path rcu_step demo_rcu [s1, s2, s3]" using 1 2 3 by (simp add: rcu_step_def)
  from reachable_path [OF this] have "reachable rcu_step demo_rcu s3" by simp
  then have s3: "reachable rcu_step rcu_start s3" using demo_rcu_reach by (rule reachable_trans)
  with rcu_reader_monotone [OF s3] show ?thesis by (auto simp: s3_def)
qed

text \<open>
  When the reader thread cannot be created, init returns the error and the value it has already
  published stays allocated; the module is not loaded, so nothing ever frees it.
\<close>

theorem rcu_failed_init_leaks:
  assumes "reachable rcu_step rcu_start s" and "r_loader s = Init_Run"
    and "r_shared_data s = Some p" and "err < 0"
  shows "\<exists>t. rcu_step s t \<and> r_loader t = Init_Failed err \<and> r_heap t p \<noteq> None \<and> (\<nexists>u. rcu_step t u)"
proof -
  let ?t = "s\<lparr>r_loader := Init_Failed err\<rparr>"
  have inv: "rcu_inv s" using assms(1) by (rule rcu_sys.reachable_inv)
  then have reader: "r_reader s = R_None" and heap: "r_heap s p \<noteq> None"
    using assms(2,3) by (auto simp: rcu_inv_def rcu_phase_def rcu_mem_def places_defs)
  have "rcu_step s ?t" using assms(2,4) by (auto simp: rcu_step_def intro: example_rcu_init.run_fails)
  moreover have "\<nexists>u. rcu_step ?t u"
    using reader unfolding rcu_step_def
    by (auto elim: reader_thread_fn.cases example_rcu_init.cases example_rcu_exit.cases)
  ultimately show ?thesis using heap by auto
qed

theorem rcu_failed_init_leaks_witness:
  "\<exists>t. rcu_step demo_rcu_run t \<and> r_loader t = Init_Failed (- ENOMEM) \<and> r_heap t 0 \<noteq> None \<and>
    (\<nexists>u. rcu_step t u)"
  by (rule rcu_failed_init_leaks [OF demo_rcu_run_reach]) (simp_all add: demo_rcu_run_def)

text \<open>
  C10: unloading always completes. From the moment the exit function has asked the reader to stop, no run
  of the two threads has more than twelve steps, whatever the reader was doing and however the threads are
  scheduled; it can be completed, and a run that cannot go on has returned from the exit function, with
  the reader gone and nothing left allocated.
\<close>

theorem rcu_unload_completes:
  assumes "reachable rcu_step rcu_start s" and "stopping (r_loader s)"
  shows "(\<forall>ts. step_path rcu_step s ts \<longrightarrow> length ts \<le> 12) \<and>
    (\<exists>t. reachable rcu_step s t \<and> r_loader t = Unloaded) \<and>
    (\<forall>t. reachable rcu_step s t \<longrightarrow> (\<nexists>u. rcu_step t u) \<longrightarrow>
       r_loader t = Unloaded \<and> r_reader t = R_Exit \<and> r_heap t = Map.empty)"
proof (intro conjI allI impI)
  have inv: "stop_inv s"
    using rcu_sys.reachable_inv [OF assms(1)] rcu_stop.reachable_inv [OF assms(1)] assms(2)
    by (simp add: stop_inv_def rcu_asked_def)
  then show "length ts \<le> 12" if "step_path rcu_step s ts" for ts
    using rcu_unload.path_bound [OF that] stop_left_bound [of s] by simp
  show "\<exists>t. reachable rcu_step s t \<and> r_loader t = Unloaded"
    using inv by (rule rcu_unload.completes)
  fix t
  assume t: "reachable rcu_step s t" "\<nexists>u. rcu_step t u"
  have "stop_inv t" using t(1) inv by (rule rcu_unload.reachable_from_inv)
  then show un: "r_loader t = Unloaded" using rcu_unload.progress t(2) by blast
  have "rcu_inv t" using \<open>stop_inv t\<close> by (simp add: stop_inv_def)
  with un show "r_reader t = R_Exit" and "r_heap t = Map.empty"
    by (auto simp: rcu_inv_def rcu_mem_def rcu_phase_def places_defs)
qed

lemma rcu_stopping_reach: "reachable rcu_step rcu_start rcu_stopping"
proof -
  define s1 where "s1 = demo_rcu_run\<lparr>r_reader := R_Test, r_loader := Init_Sleep1\<rparr>"
  define s2 where "s2 = s1\<lparr>r_loader := Init_Update2 (U_Alloc 100)\<rparr>"
  define s3 where "s3 = s2\<lparr>r_loader := Init_Update2 U_Done\<rparr>"
  define s4 where "s4 = s3\<lparr>r_loader := Init_Sleep2\<rparr>"
  define s5 where "s5 = s4\<lparr>r_loader := Loaded\<rparr>"
  define s6 where "s6 = s5\<lparr>r_loader := Exit_Stop\<rparr>"
  have init: "example_rcu_init demo_rcu_run s1" "example_rcu_init s1 s2" "example_rcu_init s3 s4" "example_rcu_init s4 s5"
    unfolding s1_def s2_def s4_def s5_def
    by (rule example_rcu_init.run example_rcu_init.sleep1 example_rcu_init.update2_done example_rcu_init.sleep2;
        simp add: demo_rcu_run_def s3_def)+
  have fails: "example_rcu_init s2 s3"
    unfolding s3_def by (rule example_rcu_init.update2 [OF _ update_data.no_memory]) (simp add: s2_def)
  have rmmod: "example_rcu_exit s5 s6"
    unfolding s6_def by (rule example_rcu_exit.rmmod) (simp add: s5_def)
  have "s6\<lparr>r_should_stop := True, r_loader := Exit_Stopping\<rparr> = rcu_stopping"
    by (simp add: s6_def s5_def s4_def s3_def s2_def s1_def demo_rcu_run_def rcu_stopping_def)
  then have stop: "example_rcu_exit s6 rcu_stopping"
    using example_rcu_exit.stop [of s6] by (simp add: s6_def)
  have "step_path rcu_step demo_rcu_run [s1, s2, s3, s4, s5, s6, rcu_stopping]"
    using init fails rmmod stop by (simp add: rcu_step_def)
  from reachable_path [OF this] have "reachable rcu_step demo_rcu_run rcu_stopping" by simp
  then show ?thesis using demo_rcu_run_reach by (rule reachable_trans)
qed

theorem rcu_unload_completes_witness:
  "\<exists>t. reachable rcu_step rcu_stopping t \<and> r_loader t = Unloaded"
  using rcu_unload_completes [OF rcu_stopping_reach] by (simp add: rcu_stopping_def)

end
