(* ===== verification/Completions.thy ===== *)
theory Completions
  imports Transition "HOL-Library.Sublist"
begin

text \<open>
  examples/completions.c: two kernel threads whose start is ordered by a completion, and an unload that
  waits for both. The two threads and the thread that loads and unloads the module are transition
  relations over a common state; a completion is its counter \<open>done\<close> of 32 bits.
\<close>

subsection \<open>Completions (linux/completion.h)\<close>

text \<open>\<open>complete_all\<close> sets the counter to its maximum, which \<open>wait_for_completion\<close> does not use up.\<close>

definition complete_all :: "32 word \<Rightarrow> 32 word" where
  "complete_all don = - 1"

definition complete :: "32 word \<Rightarrow> 32 word" where
  "complete don = (if don = - 1 then don else don + 1)"

text \<open>The counter after \<open>wait_for_completion\<close>; \<open>None\<close> while it has to wait.\<close>

definition wait_for_completion :: "32 word \<Rightarrow> 32 word option" where
  "wait_for_completion don = (if don = 0 then None else Some (if don = - 1 then don else don - 1))"

lemma completion_simps [simp]:
  "wait_for_completion 0 = None" "wait_for_completion (- 1) = Some (- 1)"
  "wait_for_completion (complete_all don) = Some (- 1)" "complete (- 1) = - 1"
  "complete_all don = - 1"
  by (simp_all add: wait_for_completion_def complete_all_def complete_def)

subsection \<open>The state\<close>

text \<open>
  Where a thread is: created but not yet woken, at one of its calls, gone after its last call, or
  stopped before it ran. The crank thread has no \<open>T_Wait\<close>.
\<close>

datatype thread_pc = T_None | T_Parked | T_Wait | T_Print | T_Complete | T_Exit | T_Gone | T_Stopped

datatype comp_pc =
    L_Create_Crank
  | L_Create_Flywheel
  | L_Wake_Flywheel
  | L_Wake_Crank
  | L_Error_2                  \<comment> \<open>at the label \<open>ERROR_THREAD_2\<close>\<close>
  | L_Failed                   \<comment> \<open>init has returned -1\<close>
  | L_Loaded
  | L_Wait_Crank
  | L_Wait_Flywheel
  | L_Print
  | L_Unloaded

datatype line = Turn_the_crank | Flywheel_spins_up | Completions_exit

record completions =
  crank_comp :: "32 word"
  flywheel_comp :: "32 word"
  crank :: thread_pc
  flywheel :: thread_pc
  loader :: comp_pc
  printed :: "line list"       \<comment> \<open>in the order printed, without the line of init\<close>

definition completions_start :: completions where
  "completions_start = \<lparr>crank_comp = 0, flywheel_comp = 0, crank = T_None, flywheel = T_None,
     loader = L_Create_Crank, printed = []\<rparr>"

subsection \<open>The threads\<close>

inductive machine_crank_thread :: "completions \<Rightarrow> completions \<Rightarrow> bool" where
  print: "crank s = T_Print \<Longrightarrow>
    machine_crank_thread s (s\<lparr>printed := printed s @ [Turn_the_crank], crank := T_Complete\<rparr>)"
| complete: "crank s = T_Complete \<Longrightarrow>
    machine_crank_thread s (s\<lparr>crank_comp := complete_all (crank_comp s), crank := T_Exit\<rparr>)"
| exit: "crank s = T_Exit \<Longrightarrow>
    machine_crank_thread s (s\<lparr>crank_comp := complete (crank_comp s), crank := T_Gone\<rparr>)"

inductive machine_flywheel_spinup_thread :: "completions \<Rightarrow> completions \<Rightarrow> bool" where
  wait: "flywheel s = T_Wait \<Longrightarrow> wait_for_completion (crank_comp s) = Some don \<Longrightarrow>
    machine_flywheel_spinup_thread s (s\<lparr>crank_comp := don, flywheel := T_Print\<rparr>)"
| print: "flywheel s = T_Print \<Longrightarrow>
    machine_flywheel_spinup_thread s
      (s\<lparr>printed := printed s @ [Flywheel_spins_up], flywheel := T_Complete\<rparr>)"
| complete: "flywheel s = T_Complete \<Longrightarrow>
    machine_flywheel_spinup_thread s
      (s\<lparr>flywheel_comp := complete_all (flywheel_comp s), flywheel := T_Exit\<rparr>)"
| exit: "flywheel s = T_Exit \<Longrightarrow>
    machine_flywheel_spinup_thread s
      (s\<lparr>flywheel_comp := complete (flywheel_comp s), flywheel := T_Gone\<rparr>)"

text \<open>
  \<open>completions_init\<close> from its first \<open>kthread_create\<close> on. A thread runs once it is woken; stopping one
  that was never woken ends it before it runs.
\<close>

inductive completions_init :: "completions \<Rightarrow> completions \<Rightarrow> bool" where
  crank_made: "loader s = L_Create_Crank \<Longrightarrow>
    completions_init s (s\<lparr>crank := T_Parked, loader := L_Create_Flywheel\<rparr>)"
| crank_failed: "loader s = L_Create_Crank \<Longrightarrow> completions_init s (s\<lparr>loader := L_Failed\<rparr>)"
| flywheel_made: "loader s = L_Create_Flywheel \<Longrightarrow>
    completions_init s (s\<lparr>flywheel := T_Parked, loader := L_Wake_Flywheel\<rparr>)"
| flywheel_failed: "loader s = L_Create_Flywheel \<Longrightarrow> completions_init s (s\<lparr>loader := L_Error_2\<rparr>)"
| wake_flywheel: "loader s = L_Wake_Flywheel \<Longrightarrow>
    completions_init s (s\<lparr>flywheel := T_Wait, loader := L_Wake_Crank\<rparr>)"
| wake_crank: "loader s = L_Wake_Crank \<Longrightarrow>
    completions_init s (s\<lparr>crank := T_Print, loader := L_Loaded\<rparr>)"
| error_2: "loader s = L_Error_2 \<Longrightarrow>
    completions_init s (s\<lparr>crank := T_Stopped, loader := L_Failed\<rparr>)"

inductive completions_exit :: "completions \<Rightarrow> completions \<Rightarrow> bool" where
  rmmod: "loader s = L_Loaded \<Longrightarrow> completions_exit s (s\<lparr>loader := L_Wait_Crank\<rparr>)"
| wait_crank: "loader s = L_Wait_Crank \<Longrightarrow> wait_for_completion (crank_comp s) = Some don \<Longrightarrow>
    completions_exit s (s\<lparr>crank_comp := don, loader := L_Wait_Flywheel\<rparr>)"
| wait_flywheel: "loader s = L_Wait_Flywheel \<Longrightarrow>
    wait_for_completion (flywheel_comp s) = Some don \<Longrightarrow>
    completions_exit s (s\<lparr>flywheel_comp := don, loader := L_Print\<rparr>)"
| print: "loader s = L_Print \<Longrightarrow>
    completions_exit s (s\<lparr>printed := printed s @ [Completions_exit], loader := L_Unloaded\<rparr>)"

definition completions_step :: "completions \<Rightarrow> completions \<Rightarrow> bool" where
  "completions_step s t \<longleftrightarrow> machine_crank_thread s t \<or> machine_flywheel_spinup_thread s t \<or>
     completions_init s t \<or> completions_exit s t"

subsection \<open>The invariant\<close>

text \<open>Which places of the threads go with a place of the loader.\<close>

definition running :: "thread_pc \<Rightarrow> thread_pc \<Rightarrow> bool" where
  "running c f \<longleftrightarrow> c \<in> {T_Print, T_Complete, T_Exit, T_Gone} \<and>
     f \<in> {T_Wait, T_Print, T_Complete, T_Exit, T_Gone}"

fun threads_fit :: "comp_pc \<Rightarrow> thread_pc \<Rightarrow> thread_pc \<Rightarrow> bool" where
  "threads_fit L_Create_Crank c f \<longleftrightarrow> c = T_None \<and> f = T_None"
| "threads_fit L_Create_Flywheel c f \<longleftrightarrow> c = T_Parked \<and> f = T_None"
| "threads_fit L_Wake_Flywheel c f \<longleftrightarrow> c = T_Parked \<and> f = T_Parked"
| "threads_fit L_Wake_Crank c f \<longleftrightarrow> c = T_Parked \<and> f = T_Wait"
| "threads_fit L_Error_2 c f \<longleftrightarrow> c = T_Parked \<and> f = T_None"
| "threads_fit L_Failed c f \<longleftrightarrow> c \<in> {T_None, T_Stopped} \<and> f = T_None"
| "threads_fit L_Loaded c f \<longleftrightarrow> running c f"
| "threads_fit L_Wait_Crank c f \<longleftrightarrow> running c f"
| "threads_fit L_Wait_Flywheel c f \<longleftrightarrow> running c f \<and> c \<in> {T_Exit, T_Gone}"
| "threads_fit L_Print c f \<longleftrightarrow> c \<in> {T_Exit, T_Gone} \<and> f \<in> {T_Exit, T_Gone}"
| "threads_fit L_Unloaded c f \<longleftrightarrow> c \<in> {T_Exit, T_Gone} \<and> f \<in> {T_Exit, T_Gone}"

text \<open>What has been printed, by where everyone is.\<close>

definition lines_due :: "completions \<Rightarrow> line list" where
  "lines_due s = (if crank s \<in> {T_Complete, T_Exit, T_Gone} then [Turn_the_crank] else []) @
     (if flywheel s \<in> {T_Complete, T_Exit, T_Gone} then [Flywheel_spins_up] else []) @
     (if loader s = L_Unloaded then [Completions_exit] else [])"

definition completions_inv :: "completions \<Rightarrow> bool" where
  "completions_inv s \<longleftrightarrow> threads_fit (loader s) (crank s) (flywheel s) \<and>
     crank_comp s = (if crank s \<in> {T_Exit, T_Gone} then - 1 else 0) \<and>
     flywheel_comp s = (if flywheel s \<in> {T_Exit, T_Gone} then - 1 else 0) \<and>
     (flywheel s \<in> {T_Print, T_Complete, T_Exit, T_Gone} \<longrightarrow> crank s \<in> {T_Exit, T_Gone}) \<and>
     printed s = lines_due s"

fun thread_weight :: "thread_pc \<Rightarrow> nat" where
  "thread_weight T_None = 6"
| "thread_weight T_Parked = 5"
| "thread_weight T_Wait = 4"
| "thread_weight T_Print = 3"
| "thread_weight T_Complete = 2"
| "thread_weight T_Exit = 1"
| "thread_weight T_Gone = 0"
| "thread_weight T_Stopped = 0"

fun loader_weight :: "comp_pc \<Rightarrow> nat" where
  "loader_weight L_Create_Crank = 8"
| "loader_weight L_Create_Flywheel = 7"
| "loader_weight L_Wake_Flywheel = 6"
| "loader_weight L_Wake_Crank = 5"
| "loader_weight L_Error_2 = 1"
| "loader_weight L_Failed = 0"
| "loader_weight L_Loaded = 4"
| "loader_weight L_Wait_Crank = 3"
| "loader_weight L_Wait_Flywheel = 2"
| "loader_weight L_Print = 1"
| "loader_weight L_Unloaded = 0"

definition completions_weight :: "completions \<Rightarrow> nat" where
  "completions_weight s = thread_weight (crank s) + thread_weight (flywheel s) + loader_weight (loader s)"

definition completions_finished :: "completions \<Rightarrow> bool" where
  "completions_finished s \<longleftrightarrow> loader s = L_Failed \<or>
     loader s = L_Unloaded \<and> crank s = T_Gone \<and> flywheel s = T_Gone"

lemma crank_inv: "machine_crank_thread s t \<Longrightarrow> completions_inv s \<Longrightarrow> completions_inv t"
  by (cases "loader s"; erule machine_crank_thread.cases)
    (auto simp: running_def completions_inv_def lines_due_def)

lemma flywheel_inv: "machine_flywheel_spinup_thread s t \<Longrightarrow> completions_inv s \<Longrightarrow> completions_inv t"
  by (cases "loader s"; erule machine_flywheel_spinup_thread.cases)
    (auto simp: running_def completions_inv_def lines_due_def split: if_splits)

lemma completions_init_inv: "completions_init s t \<Longrightarrow> completions_inv s \<Longrightarrow> completions_inv t"
  by (induction rule: completions_init.induct) (auto simp: running_def completions_inv_def lines_due_def)

lemma completions_exit_inv: "completions_exit s t \<Longrightarrow> completions_inv s \<Longrightarrow> completions_inv t"
  by (induction rule: completions_exit.induct)
    (auto simp: running_def completions_inv_def lines_due_def split: if_splits)

lemma completions_weight_step:
  "completions_step s t \<Longrightarrow> completions_inv s \<Longrightarrow> completions_weight t < completions_weight s"
  unfolding completions_step_def
  by (elim disjE machine_crank_thread.cases machine_flywheel_spinup_thread.cases
      completions_init.cases completions_exit.cases)
    (auto simp: completions_weight_def completions_inv_def running_def)


lemma completions_progress:
  assumes "completions_inv s" and "\<not> completions_finished s"
  shows "\<exists>t. completions_step s t"
proof -
  have crank: ?thesis if "crank s \<in> {T_Print, T_Complete, T_Exit}"
    using that by (auto simp: completions_step_def intro: machine_crank_thread.intros)
  have flywheel: ?thesis if "flywheel s \<in> {T_Print, T_Complete, T_Exit}"
    using that by (auto simp: completions_step_def intro: machine_flywheel_spinup_thread.intros)
  have waiting: ?thesis if "flywheel s = T_Wait" "crank s = T_Gone"
  proof -
    have "wait_for_completion (crank_comp s) = Some (- 1)"
      using that assms(1) by (simp add: completions_inv_def)
    from machine_flywheel_spinup_thread.wait [OF that(1) this] show ?thesis
      by (auto simp: completions_step_def)
  qed
  show ?thesis
  proof (cases "loader s")
    case L_Wait_Crank
    with assms(1) have c: "crank s \<in> {T_Print, T_Complete, T_Exit, T_Gone}"
      by (simp add: completions_inv_def running_def)
    show ?thesis
    proof (cases "crank s = T_Gone")
      case True
      then have "wait_for_completion (crank_comp s) = Some (- 1)"
        using assms(1) by (simp add: completions_inv_def)
      from completions_exit.wait_crank [OF L_Wait_Crank this] show ?thesis
        by (auto simp: completions_step_def)
    qed (use c crank in auto)
  next
    case L_Wait_Flywheel
    with assms(1) have c: "crank s \<in> {T_Exit, T_Gone}"
      and f: "flywheel s \<in> {T_Wait, T_Print, T_Complete, T_Exit, T_Gone}"
      by (simp_all add: completions_inv_def running_def)
    show ?thesis
    proof (cases "flywheel s = T_Gone")
      case True
      then have "wait_for_completion (flywheel_comp s) = Some (- 1)"
        using assms(1) by (simp add: completions_inv_def)
      from completions_exit.wait_flywheel [OF L_Wait_Flywheel this] show ?thesis
        by (auto simp: completions_step_def)
    qed (use c f crank flywheel waiting in auto)
  next
    case L_Unloaded
    then show ?thesis using assms crank flywheel
      by (auto simp: completions_inv_def completions_finished_def)
  qed (use assms(2) in \<open>auto simp: completions_step_def completions_finished_def
      intro: completions_init.intros completions_exit.intros\<close>)
qed

interpretation completions_sys: terminating_system completions_step completions_start completions_inv
    completions_finished completions_weight
proof unfold_locales
  show "completions_inv completions_start"
    by (simp add: completions_start_def completions_inv_def lines_due_def)
  show "completions_inv t" if "completions_step s t" "completions_inv s" for s t
    using that crank_inv flywheel_inv completions_init_inv completions_exit_inv
    unfolding completions_step_def by blast
qed (rule completions_weight_step completions_progress; assumption)+

lemma lines_due_prefix:
  assumes "completions_inv s"
  shows "prefix (lines_due s) [Turn_the_crank, Flywheel_spins_up, Completions_exit]"
  using assms by (auto simp: completions_inv_def lines_due_def)

lemma finished_lines:
  assumes "completions_inv s" and "completions_finished s"
  shows "loader s = L_Failed \<and> printed s = [] \<or>
    loader s = L_Unloaded \<and> printed s = [Turn_the_crank, Flywheel_spins_up, Completions_exit]"
proof (cases "loader s = L_Failed")
  case True
  with assms(1) have "crank s \<in> {T_None, T_Stopped}" "flywheel s = T_None" "printed s = lines_due s"
    by (simp_all add: completions_inv_def)
  with True show ?thesis by (auto simp: lines_due_def)
next
  case False
  with assms show ?thesis by (simp add: completions_finished_def completions_inv_def lines_due_def)
qed

subsection \<open>Properties\<close>

text \<open>
  C19: in every interleaving the lines come out in the order crank, flywheel, exit; no run is longer than
  20 steps, and a run that cannot go on has either failed to create a thread, having printed nothing, or
  has unloaded the module after printing all three lines. So neither the flywheel nor the unload waits
  for ever.
\<close>

theorem completions_ordered:
  assumes "reachable completions_step completions_start s"
  shows "prefix (printed s) [Turn_the_crank, Flywheel_spins_up, Completions_exit] \<and>
    (\<forall>ts. step_path completions_step completions_start ts \<longrightarrow> length ts \<le> 20) \<and>
    ((\<nexists>t. completions_step s t) \<longrightarrow> loader s = L_Failed \<and> printed s = [] \<or>
       loader s = L_Unloaded \<and> printed s = [Turn_the_crank, Flywheel_spins_up, Completions_exit])"
proof -
  have inv: "completions_inv s" using assms by (rule completions_sys.reachable_inv)
  have "prefix (printed s) [Turn_the_crank, Flywheel_spins_up, Completions_exit]"
    using lines_due_prefix [OF inv] inv by (simp add: completions_inv_def)
  moreover have "length ts \<le> 20" if "step_path completions_step completions_start ts" for ts
    using completions_sys.path_bound [OF that completions_sys.inv_start]
    by (simp add: completions_weight_def completions_start_def)
  moreover have "loader s = L_Failed \<and> printed s = [] \<or>
      loader s = L_Unloaded \<and> printed s = [Turn_the_crank, Flywheel_spins_up, Completions_exit]"
    if "\<nexists>t. completions_step s t"
    using completions_sys.stuck_finished [OF assms that] finished_lines [OF inv] by simp
  ultimately show ?thesis by simp
qed

text \<open>A run that unloads the module while both threads are still at their last call.\<close>

definition at_places :: "32 word \<Rightarrow> 32 word \<Rightarrow> thread_pc \<Rightarrow> thread_pc \<Rightarrow> comp_pc \<Rightarrow> line list \<Rightarrow> completions"
where
  "at_places cc fc c f l ls = \<lparr>crank_comp = cc, flywheel_comp = fc, crank = c, flywheel = f,
     loader = l, printed = ls\<rparr>"

definition demo_unload :: "completions list" where
  "demo_unload =
     (let a = [Turn_the_crank]; b = [Turn_the_crank, Flywheel_spins_up]
      in [at_places 0 0 T_Parked T_None L_Create_Flywheel [],
          at_places 0 0 T_Parked T_Parked L_Wake_Flywheel [],
          at_places 0 0 T_Parked T_Wait L_Wake_Crank [],
          at_places 0 0 T_Print T_Wait L_Loaded [],
          at_places 0 0 T_Complete T_Wait L_Loaded a,
          at_places (- 1) 0 T_Exit T_Wait L_Loaded a,
          at_places (- 1) 0 T_Exit T_Print L_Loaded a,
          at_places (- 1) 0 T_Exit T_Complete L_Loaded b,
          at_places (- 1) (- 1) T_Exit T_Exit L_Loaded b,
          at_places (- 1) (- 1) T_Exit T_Exit L_Wait_Crank b,
          at_places (- 1) (- 1) T_Exit T_Exit L_Wait_Flywheel b,
          at_places (- 1) (- 1) T_Exit T_Exit L_Print b,
          at_places (- 1) (- 1) T_Exit T_Exit L_Unloaded (b @ [Completions_exit])])"

lemma demo_unload_path: "step_path completions_step completions_start demo_unload"
  by (simp add: demo_unload_def Let_def at_places_def completions_start_def completions_step_def
      machine_crank_thread.simps machine_flywheel_spinup_thread.simps completions_init.simps
      completions_exit.simps)

lemma demo_unload_reach:
  "reachable completions_step completions_start (at_places (- 1) (- 1) T_Exit T_Exit L_Unloaded
     [Turn_the_crank, Flywheel_spins_up, Completions_exit])"
  using reachable_path [OF demo_unload_path] by (simp add: demo_unload_def Let_def)

theorem completions_ordered_witness:
  "\<exists>s. reachable completions_step completions_start s \<and> loader s = L_Unloaded \<and>
    prefix (printed s) [Turn_the_crank, Flywheel_spins_up, Completions_exit] \<and> length demo_unload \<le> 20"
  using completions_ordered [OF demo_unload_reach] demo_unload_reach demo_unload_path
  by (auto simp: at_places_def)

text \<open>
  The threads announce the completion twice, and the first time they still have code of the module
  to run: unloading can finish while both threads are at their call of \<open>kthread_complete_and_exit\<close>, and
  then each of them goes on with that call although the module's code is gone.
\<close>

theorem completions_unload_race:
  "\<exists>s t u. reachable completions_step completions_start s \<and> loader s = L_Unloaded \<and>
    crank s = T_Exit \<and> flywheel s = T_Exit \<and>
    machine_crank_thread s t \<and> machine_flywheel_spinup_thread s u"
proof -
  let ?s = "at_places (- 1) (- 1) T_Exit T_Exit L_Unloaded
     [Turn_the_crank, Flywheel_spins_up, Completions_exit]"
  have "machine_crank_thread ?s (?s\<lparr>crank_comp := complete (crank_comp ?s), crank := T_Gone\<rparr>)"
    "machine_flywheel_spinup_thread ?s
       (?s\<lparr>flywheel_comp := complete (flywheel_comp ?s), flywheel := T_Gone\<rparr>)"
    by (rule machine_crank_thread.exit machine_flywheel_spinup_thread.exit; simp add: at_places_def)+
  moreover have "loader ?s = L_Unloaded" "crank ?s = T_Exit" "flywheel ?s = T_Exit"
    by (simp_all add: at_places_def)
  ultimately show ?thesis using demo_unload_reach by blast
qed

end
