(* ===== verification/Ioctl_Dev.thy ===== *)
theory Ioctl_Dev
  imports Lifecycle
begin

text \<open>
  examples/ioctl.c: a character device that keeps one byte per open file, allocated by open and freed
  by close, and one number for the whole driver. The allocations are an explicit store from addresses
  to bytes, a file's \<open>private_data\<close> is an address or NULL, and the open files are a map from file
  numbers to that pointer. A handler's result is \<open>None\<close> when it follows a pointer to nothing.
\<close>

subsection \<open>Integers in user memory\<close>

text \<open>The bytes of an \<open>unsigned int\<close>, the lowest first, and back.\<close>

definition u32_bytes :: "32 word \<Rightarrow> string" where
  "u32_bytes w = map (\<lambda>i. char_of (unat (drop_bit (8 * i) w) mod 256)) [0, 1, 2, 3]"

definition u32_of_bytes :: "string \<Rightarrow> 32 word" where
  "u32_of_bytes cs = word_of_nat (horner_sum of_char 256 cs)"

text \<open>\<open>__put_user(x, (int *)p)\<close>.\<close>

definition put_user_u32 :: "32 word \<Rightarrow> nat \<Rightarrow> umem \<Rightarrow> umem \<times> int" where
  "put_user_u32 x p m =
     (if m p = None \<or> m (p + 1) = None \<or> m (p + 2) = None \<or> m (p + 3) = None then (m, - EFAULT)
      else (put_str m p (u32_bytes x), 0))"

lemma length_u32_bytes [simp]: "length (u32_bytes w) = 4"
  by (simp add: u32_bytes_def)

lemma char_of_mod_256 [simp]: "char_of (n mod 256 :: nat) = char_of n"
  by (simp add: char_of_def bit_take_bit_iff flip: take_bit_eq_mod [of 8, simplified])

lemma unat_ucast_8_32 [simp]: "unat (ucast (v :: 8 word) :: 32 word) = unat v"
  by transfer simp

lemma ucast_of_nat_32_8 [simp]: "(ucast (word_of_nat n :: 32 word) :: 8 word) = word_of_nat n"
  by transfer simp

lemma drop_bit_ucast_8_32: "8 \<le> n \<Longrightarrow> drop_bit n (ucast (v :: 8 word) :: 32 word) = 0"
  by (rule bit_eqI) (auto simp: bit_simps dest: bit_imp_le_length)

lemma u32_bytes_byte: "u32_bytes (ucast (v :: 8 word)) = [char_of (unat v), NUL, NUL, NUL]"
  by (simp add: u32_bytes_def drop_bit_ucast_8_32)

text \<open>Of an integer read from memory, the lowest byte is the first one.\<close>

lemma u32_of_bytes_low: "(ucast (u32_of_bytes (c # cs)) :: 8 word) = word_of_nat (of_char c)"
proof -
  have "(ucast (u32_of_bytes (c # cs)) :: 8 word) = word_of_nat (horner_sum of_char 256 (c # cs))"
    by (simp only: u32_of_bytes_def ucast_of_nat_32_8)
  also have "\<dots> = word_of_nat (of_char c) + 256 * word_of_nat (horner_sum of_char 256 cs)" by simp
  also have "(256 :: 8 word) = 0" by simp
  finally show ?thesis by simp
qed

lemma char_of_byte [simp]: "char_of (unat (word_of_nat (of_char c) :: 8 word)) = c"
  by (simp add: unsigned_of_nat take_bit_eq_mod)

subsection \<open>The driver\<close>

datatype ioctl_cmd =
    IOCTL_VALSET
  | IOCTL_VALGET
  | IOCTL_VALGET_NUM
  | IOCTL_VALSET_NUM
  | Other_cmd                  \<comment> \<open>any other number\<close>

record ioctl_drv =
  ioctl_num :: "32 word"
  io_data :: "nat \<rightharpoonup> 8 word"  \<comment> \<open>the field \<open>val\<close> of the \<open>test_ioctl_data\<close> at an address\<close>

definition test_ioctl_open :: "ioctl_drv \<Rightarrow> nat option \<Rightarrow> ioctl_drv \<times> nat option \<times> int" where
  "test_ioctl_open s kmalloc =
     (case kmalloc of
        None \<Rightarrow> (s, None, - ENOMEM)
      | Some p \<Rightarrow> (s\<lparr>io_data := (io_data s)(p \<mapsto> 0xFF)\<rparr>, Some p, 0))"

definition test_ioctl_close :: "ioctl_drv \<Rightarrow> nat option \<Rightarrow> ioctl_drv \<times> nat option \<times> int" where
  "test_ioctl_close s private_data =
     (case private_data of
        None \<Rightarrow> (s, None, 0)
      | Some p \<Rightarrow> (s\<lparr>io_data := (io_data s)(p := None)\<rparr>, None, 0))"

text \<open>Follow \<open>filp->private_data\<close> to the byte.\<close>

definition file_val :: "ioctl_drv \<Rightarrow> nat option \<Rightarrow> 8 word option" where
  "file_val s private_data = (case private_data of None \<Rightarrow> None | Some p \<Rightarrow> io_data s p)"

definition test_ioctl_ioctl ::
    "ioctl_drv \<Rightarrow> nat option \<Rightarrow> ioctl_cmd \<Rightarrow> 64 word \<Rightarrow> umem \<Rightarrow> (ioctl_drv \<times> umem \<times> int) option" where
  "test_ioctl_ioctl s private_data cmd arg m =
     (case cmd of
        IOCTL_VALSET \<Rightarrow>
          (let (data, uncopied) = copy_from_user (unat arg) 4 m
           in if uncopied \<noteq> 0 then Some (s, m, - EFAULT)
              else (case private_data of
                      None \<Rightarrow> None
                    | Some p \<Rightarrow>
                        if io_data s p = None then None
                        else Some (s\<lparr>io_data := (io_data s)(p \<mapsto> ucast (u32_of_bytes data))\<rparr>, m, 0)))
      | IOCTL_VALGET \<Rightarrow>
          (case file_val s private_data of
             None \<Rightarrow> None
           | Some val \<Rightarrow>
               (let (m, uncopied) = copy_to_user (unat arg) (u32_bytes (ucast val)) m
                in Some (s, m, if uncopied \<noteq> 0 then - EFAULT else 0)))
      | IOCTL_VALGET_NUM \<Rightarrow>
          (let (m, retval) = put_user_u32 (ioctl_num s) (unat arg) m in Some (s, m, retval))
      | IOCTL_VALSET_NUM \<Rightarrow> Some (s\<lparr>ioctl_num := ucast arg\<rparr>, m, 0)
      | Other_cmd \<Rightarrow> Some (s, m, - ENOTTY))"

text \<open>The loop of \<open>test_ioctl_read\<close>, from address \<open>p\<close> for \<open>n\<close> bytes; whether it met a fault.\<close>

fun fill_loop :: "char \<Rightarrow> nat \<Rightarrow> nat \<Rightarrow> umem \<Rightarrow> umem \<times> bool" where
  "fill_loop val p 0 m = (m, False)"
| "fill_loop val p (Suc n) m =
     (let (m, uncopied) = copy_to_user p [val] m
      in if uncopied \<noteq> 0 then (m, True) else fill_loop val (Suc p) n m)"

definition test_ioctl_read ::
    "ioctl_drv \<Rightarrow> nat option \<Rightarrow> umem \<Rightarrow> nat \<Rightarrow> nat \<Rightarrow> (umem \<times> int) option" where
  "test_ioctl_read s private_data m buf count =
     (case file_val s private_data of
        None \<Rightarrow> None
      | Some val \<Rightarrow>
          (let (m, fault) = fill_loop (char_of (unat val)) buf count m
           in Some (m, if fault then - EFAULT else int count)))"

subsection \<open>Loading and unloading\<close>

text \<open>The answers of \<open>alloc_chrdev_region\<close> and \<open>cdev_add\<close>.\<close>

definition ioctl_init :: "int \<times> int \<Rightarrow> int \<times> kop list" where
  "ioctl_init e =
     (let (region, added) = e
      in if region \<noteq> 0 then (region, [])
         else if added \<noteq> 0
         then (added, [Acquire (Chrdev ''ioctltest''), Release (Chrdev ''ioctltest'')])
         else (0, [Acquire (Chrdev ''ioctltest''), Acquire (Cdev ''ioctltest'')]))"

definition ioctl_exit :: "int \<times> int \<Rightarrow> kop list" where
  "ioctl_exit e = [Release (Cdev ''ioctltest''), Release (Chrdev ''ioctltest'')]"

interpretation ioctl_mod: module_lifecycle ioctl_init ioctl_exit
    "\<lambda>_. {Chrdev ''ioctltest'', Cdev ''ioctltest''}" "\<lambda>_. True"
  by unfold_locales (auto simp: ioctl_init_def ioctl_exit_def split: if_splits)

subsection \<open>The open files\<close>

record ioctl_sys =
  io_drv :: ioctl_drv
  io_files :: "nat \<rightharpoonup> nat"     \<comment> \<open>\<open>private_data\<close> of the open files\<close>

definition ioctl_sys_start :: ioctl_sys where
  "ioctl_sys_start = \<lparr>io_drv = \<lparr>ioctl_num = 0, io_data = Map.empty\<rparr>, io_files = Map.empty\<rparr>"

datatype ioctl_event =
    Ev_Open nat "nat option"                 \<comment> \<open>a file number, and what \<open>kmalloc\<close> returns\<close>
  | Ev_Close nat
  | Ev_Ioctl nat ioctl_cmd "64 word" umem
  | Ev_Read nat umem nat nat

definition ev_file :: "ioctl_event \<Rightarrow> nat" where
  "ev_file ev = (case ev of Ev_Open f _ \<Rightarrow> f | Ev_Close f \<Rightarrow> f | Ev_Ioctl f _ _ _ \<Rightarrow> f | Ev_Read f _ _ _ \<Rightarrow> f)"

text \<open>
  One system call. The kernel opens a file number that is not open, with memory that is not in use, and
  calls the other handlers for open files; anything else is \<open>None\<close>, and so is undefined behaviour of a
  handler. An open that fails leaves no open file.
\<close>

definition ioctl_step :: "ioctl_sys \<Rightarrow> ioctl_event \<Rightarrow> ioctl_sys option" where
  "ioctl_step s ev =
     (case ev of
        Ev_Open f kmalloc \<Rightarrow>
          if io_files s f \<noteq> None \<or> file_val (io_drv s) kmalloc \<noteq> None then None
          else (case test_ioctl_open (io_drv s) kmalloc of (drv, private_data, ret) \<Rightarrow>
                  Some (if ret = 0
                        then s\<lparr>io_drv := drv, io_files := (io_files s)(f := private_data)\<rparr>
                        else s\<lparr>io_drv := drv\<rparr>))
      | Ev_Close f \<Rightarrow>
          if io_files s f = None then None
          else (case test_ioctl_close (io_drv s) (io_files s f) of (drv, private_data, ret) \<Rightarrow>
                  Some (s\<lparr>io_drv := drv, io_files := (io_files s)(f := None)\<rparr>))
      | Ev_Ioctl f cmd arg m \<Rightarrow>
          if io_files s f = None then None
          else map_option (\<lambda>(drv, _, _). s\<lparr>io_drv := drv\<rparr>)
                 (test_ioctl_ioctl (io_drv s) (io_files s f) cmd arg m)
      | Ev_Read f m buf count \<Rightarrow>
          if io_files s f = None then None
          else map_option (\<lambda>_. s) (test_ioctl_read (io_drv s) (io_files s f) m buf count))"

fun ioctl_run :: "ioctl_sys \<Rightarrow> ioctl_event list \<Rightarrow> ioctl_sys option" where
  "ioctl_run s [] = Some s"
| "ioctl_run s (ev # evs) = (case ioctl_step s ev of None \<Rightarrow> None | Some s' \<Rightarrow> ioctl_run s' evs)"

text \<open>The events the kernel may deliver in a state.\<close>

definition ev_ok :: "ioctl_sys \<Rightarrow> ioctl_event \<Rightarrow> bool" where
  "ev_ok s ev = (case ev of
     Ev_Open f kmalloc \<Rightarrow> io_files s f = None \<and> file_val (io_drv s) kmalloc = None
   | _ \<Rightarrow> io_files s (ev_file ev) \<noteq> None)"

text \<open>Every open file has its own byte, and nothing else is allocated.\<close>

definition ioctl_inv :: "ioctl_sys \<Rightarrow> bool" where
  "ioctl_inv s \<longleftrightarrow> (\<forall>p. io_data (io_drv s) p \<noteq> None \<longleftrightarrow> (\<exists>f. io_files s f = Some p)) \<and>
     (\<forall>f g p. io_files s f = Some p \<longrightarrow> io_files s g = Some p \<longrightarrow> f = g)"

lemma ioctl_start_inv: "ioctl_inv ioctl_sys_start"
  by (simp add: ioctl_inv_def ioctl_sys_start_def)


subsection \<open>The handlers\<close>

lemma fill_loop_mapped:
  "mapped m p n \<Longrightarrow> fill_loop val p n m = (put_str m p (replicate n val), False)"
proof (induction n arbitrary: p m)
  case 0
  then show ?case by simp
next
  case (Suc n)
  then have p: "m p \<noteq> None" "mapped m (Suc p) n" by (simp_all add: mapped_Suc)
  then have "fst (put_user val p m) = m(p \<mapsto> val)" by (auto simp: put_user_def)
  moreover from this p(2) have "mapped (m(p \<mapsto> val)) (Suc p) n" by (metis mapped_put_user)
  ultimately show ?case using p(1) Suc.IH by simp
qed

text \<open>A file's byte fills the whole buffer of a reader.\<close>

lemma test_ioctl_read_mapped:
  assumes "file_val s private_data = Some val" and "mapped m buf count"
  shows "test_ioctl_read s private_data m buf count =
    Some (put_str m buf (replicate count (char_of (unat val))), int count)"
  using assms by (simp add: test_ioctl_read_def fill_loop_mapped)

lemma test_ioctl_set:
  assumes "mapped m (unat arg) 4" and "io_data s p \<noteq> None"
  shows "test_ioctl_ioctl s (Some p) IOCTL_VALSET arg m =
    Some (s\<lparr>io_data := (io_data s)(p \<mapsto> word_of_nat (of_char (ustr m (unat arg) 4 ! 0)))\<rparr>, m, 0)"
proof -
  have "ustr m (unat arg) 4 = ustr m (unat arg) 4 ! 0 # tl (ustr m (unat arg) 4)"
    by (simp add: ustr_def upt_conv_Cons)
  then have "(ucast (u32_of_bytes (ustr m (unat arg) 4)) :: 8 word) =
      word_of_nat (of_char (ustr m (unat arg) 4 ! 0))"
    by (metis u32_of_bytes_low)
  with assms show ?thesis
    by (simp add: test_ioctl_ioctl_def copy_from_user_mapped)
qed

lemma test_ioctl_get:
  assumes "mapped m (unat arg) 4" and "io_data s p = Some val"
  shows "test_ioctl_ioctl s (Some p) IOCTL_VALGET arg m =
    Some (s, put_str m (unat arg) [char_of (unat val), NUL, NUL, NUL], 0)"
proof -
  have "copy_to_user (unat arg) (u32_bytes (ucast val)) m =
      (put_str m (unat arg) (u32_bytes (ucast val)), 0)"
    using assms(1) by (intro copy_to_user_mapped) simp
  then show ?thesis
    unfolding u32_bytes_byte [symmetric] using assms(2)
    by (simp add: test_ioctl_ioctl_def file_val_def)
qed

subsection \<open>Every file its own byte\<close>

lemma ioctl_handler_data:
  assumes "test_ioctl_ioctl s (Some p) cmd arg m = Some (s', m', ret)"
  shows "dom (io_data s') = dom (io_data s)" and "q \<noteq> p \<or> cmd \<noteq> IOCTL_VALSET \<Longrightarrow> io_data s' q = io_data s q"
  using assms by (auto simp: test_ioctl_ioctl_def file_val_def Let_def split: ioctl_cmd.splits
      if_splits option.splits prod.splits)

lemma ioctl_handler_Some:
  assumes "io_data s p \<noteq> None"
  shows "\<exists>r. test_ioctl_ioctl s (Some p) cmd arg m = Some r"
  using assms by (auto simp: test_ioctl_ioctl_def file_val_def Let_def split: ioctl_cmd.split prod.split)

lemma read_handler_Some:
  "io_data s p \<noteq> None \<Longrightarrow> \<exists>r. test_ioctl_read s (Some p) m buf count = Some r"
  by (auto simp: test_ioctl_read_def file_val_def split: prod.split)

text \<open>A call that does not open, close or set the byte of file \<open>f\<close>.\<close>

definition leaves_file :: "nat \<Rightarrow> ioctl_event \<Rightarrow> bool" where
  "leaves_file f ev = (case ev of Ev_Close g \<Rightarrow> g \<noteq> f | Ev_Ioctl g cmd _ _ \<Rightarrow> g \<noteq> f \<or> cmd \<noteq> IOCTL_VALSET
     | _ \<Rightarrow> True)"

lemma ioctl_inv_data: "ioctl_inv s \<Longrightarrow> io_files s f = Some p \<Longrightarrow> io_data (io_drv s) p \<noteq> None"
  by (auto simp: ioctl_inv_def)

lemma ioctl_inv_inj: "ioctl_inv s \<Longrightarrow> io_files s f = Some p \<Longrightarrow> io_files s g = Some p \<Longrightarrow> f = g"
  by (auto simp: ioctl_inv_def)

lemma ioctl_inv_ioctl:
  assumes "ioctl_inv s" and "dom (io_data drv) = dom (io_data (io_drv s))"
  shows "ioctl_inv (s\<lparr>io_drv := drv\<rparr>)"
proof -
  have "io_data drv p \<noteq> None \<longleftrightarrow> io_data (io_drv s) p \<noteq> None" for p
    using assms(2) by (auto simp: dom_def)
  with assms(1) show ?thesis by (simp add: ioctl_inv_def)
qed

lemma ioctl_inv_open:
  assumes "ioctl_inv s" and "io_files s f = None" and "io_data (io_drv s) p = None"
    and "io_data drv = (io_data (io_drv s))(p \<mapsto> val)"
  shows "ioctl_inv (s\<lparr>io_drv := drv, io_files := (io_files s)(f \<mapsto> p)\<rparr>)"
  using assms by (auto simp: ioctl_inv_def) (metis option.distinct(1))+

lemma ioctl_inv_close:
  assumes "ioctl_inv s" and "io_files s f = Some p"
    and "io_data drv = (io_data (io_drv s))(p := None)"
  shows "ioctl_inv (s\<lparr>io_drv := drv, io_files := (io_files s)(f := None)\<rparr>)"
  using assms unfolding ioctl_inv_def by auto (metis option.inject)

lemma ioctl_step_Some:
  assumes "ioctl_inv s" and "ev_ok s ev"
  shows "\<exists>s'. ioctl_step s ev = Some s'"
proof (cases ev)
  case (Ev_Ioctl f cmd arg m)
  with assms ioctl_handler_Some ioctl_inv_data [OF assms(1), of f] show ?thesis
    by (auto simp: ioctl_step_def ev_ok_def ev_file_def split: option.split)
next
  case (Ev_Read f m buf count)
  with assms read_handler_Some ioctl_inv_data [OF assms(1), of f] show ?thesis
    by (auto simp: ioctl_step_def ev_ok_def ev_file_def split: option.split)
qed (use assms(2) in \<open>auto simp: ioctl_step_def ev_ok_def ev_file_def split: prod.split\<close>)

lemma ioctl_step_inv:
  assumes "ioctl_inv s" and "ioctl_step s ev = Some s'"
  shows "ioctl_inv s'"
proof (cases ev)
  case (Ev_Open f kmalloc)
  then show ?thesis
    using assms ioctl_inv_open [OF assms(1), of f] ioctl_inv_ioctl [OF assms(1)]
    by (auto simp: ioctl_step_def test_ioctl_open_def file_val_def split: if_splits option.splits)
next
  case (Ev_Close f)
  then show ?thesis
    using assms ioctl_inv_close [OF assms(1), of f]
    by (auto simp: ioctl_step_def test_ioctl_close_def split: if_splits option.splits)
next
  case (Ev_Ioctl f cmd arg m)
  then show ?thesis
    using assms ioctl_inv_ioctl [OF assms(1)] ioctl_handler_data(1)
    by (auto simp: ioctl_step_def split: if_splits option.splits)
next
  case (Ev_Read f m buf count)
  then show ?thesis using assms by (auto simp: ioctl_step_def split: if_splits option.splits)
qed

lemma ioctl_step_leaves:
  assumes "ioctl_inv s" and "ioctl_step s ev = Some s'" and "leaves_file f ev"
    and "io_files s f = Some p"
  shows "io_files s' f = Some p \<and> io_data (io_drv s') p = io_data (io_drv s) p"
proof (cases ev)
  case (Ev_Open g kmalloc)
  have "io_data (io_drv s) p \<noteq> None" using assms(1,4) by (rule ioctl_inv_data)
  then show ?thesis
    using Ev_Open assms(2,4)
    by (auto simp: ioctl_step_def test_ioctl_open_def file_val_def split: if_splits option.splits)
next
  case (Ev_Close g)
  then have "io_files s g \<noteq> Some p" using assms(3,4) ioctl_inv_inj [OF assms(1,4), of g]
    by (auto simp: leaves_file_def)
  then show ?thesis
    using Ev_Close assms(2-4)
    by (auto simp: ioctl_step_def test_ioctl_close_def leaves_file_def split: if_splits option.splits)
next
  case (Ev_Ioctl g cmd arg m)
  with assms(2) obtain q drv where q: "io_files s g = Some q" "s' = s\<lparr>io_drv := drv\<rparr>"
    and call: "\<exists>m' ret. test_ioctl_ioctl (io_drv s) (Some q) cmd arg m = Some (drv, m', ret)"
    by (auto simp: ioctl_step_def split: if_splits)
  have "p \<noteq> q \<or> cmd \<noteq> IOCTL_VALSET"
    using assms(3) Ev_Ioctl ioctl_inv_inj [OF assms(1,4), of g] q(1) by (auto simp: leaves_file_def)
  with call ioctl_handler_data(2) q(2) assms(4) show ?thesis by fastforce
next
  case (Ev_Read g m buf count)
  then show ?thesis using assms(2,4) by (auto simp: ioctl_step_def split: if_splits option.splits)
qed

lemma ioctl_run_leaves:
  assumes "ioctl_run s evs = Some s'" and "ioctl_inv s" and "list_all (leaves_file f) evs"
    and "io_files s f = Some p"
  shows "ioctl_inv s' \<and> io_files s' f = Some p \<and> io_data (io_drv s') p = io_data (io_drv s) p"
  using assms
proof (induction evs arbitrary: s)
  case Nil
  then show ?case by simp
next
  case (Cons ev evs)
  then obtain t where t: "ioctl_step s ev = Some t" "ioctl_run t evs = Some s'"
    by (auto split: option.splits)
  from ioctl_step_leaves [OF Cons.prems(2) t(1), of f p] Cons.prems(3,4) have "io_files t f = Some p"
    "io_data (io_drv t) p = io_data (io_drv s) p" by simp_all
  with Cons.IH [OF t(2) ioctl_step_inv [OF Cons.prems(2) t(1)]] Cons.prems(3) show ?case by simp
qed

lemma ioctl_run_inv: "ioctl_run s evs = Some s' \<Longrightarrow> ioctl_inv s \<Longrightarrow> ioctl_inv s'"
  by (induction evs arbitrary: s) (auto split: option.splits intro: ioctl_step_inv)

subsection \<open>Properties\<close>

text \<open>
  A value set on one open file is read back on that file, cut to its lowest byte, whatever has been
  opened, closed, read or set on the other files in between.
\<close>

theorem ioctl_set_get:
  assumes "ioctl_run ioctl_sys_start before = Some s" and "io_files s f = Some p"
    and "mapped m (unat arg) 4"
    and "ioctl_run s (Ev_Ioctl f IOCTL_VALSET arg m # evs) = Some s'"
    and "list_all (leaves_file f) evs" and "mapped m2 (unat arg2) 4"
  shows "test_ioctl_ioctl (io_drv s') (io_files s' f) IOCTL_VALGET arg2 m2 =
    Some (io_drv s', put_str m2 (unat arg2) [ustr m (unat arg) 4 ! 0, NUL, NUL, NUL], 0)"
proof -
  let ?v = "word_of_nat (of_char (ustr m (unat arg) 4 ! 0)) :: 8 word"
  have inv: "ioctl_inv s" using ioctl_run_inv [OF assms(1) ioctl_start_inv] .
  then have data: "io_data (io_drv s) p \<noteq> None" using assms(2) by (rule ioctl_inv_data)
  let ?t = "s\<lparr>io_drv := (io_drv s)\<lparr>io_data := (io_data (io_drv s))(p \<mapsto> ?v)\<rparr>\<rparr>"
  have step: "ioctl_step s (Ev_Ioctl f IOCTL_VALSET arg m) = Some ?t"
    using test_ioctl_set [OF assms(3) data] assms(2) by (simp add: ioctl_step_def)
  with assms(4) have run: "ioctl_run ?t evs = Some s'" by simp
  have "ioctl_inv ?t" using inv step by (rule ioctl_step_inv)
  from ioctl_run_leaves [OF run this assms(5)] assms(2)
  have "io_files s' f = Some p" "io_data (io_drv s') p = Some ?v" by simp_all
  then show ?thesis using test_ioctl_get [OF assms(6)] by simp
qed

text \<open>File 0 is set to the letter A while file 1 is opened, set to B and closed.\<close>

theorem ioctl_set_get_witness:
  "\<exists>s s'. ioctl_run ioctl_sys_start [Ev_Open 0 (Some 100)] = Some s \<and>
    ioctl_run s [Ev_Ioctl 0 IOCTL_VALSET 0 (\<lambda>_. Some CHR ''A''), Ev_Open 1 (Some 200),
      Ev_Ioctl 1 IOCTL_VALSET 0 (\<lambda>_. Some CHR ''B''), Ev_Close 1] = Some s' \<and>
    test_ioctl_ioctl (io_drv s') (io_files s' 0) IOCTL_VALGET 0 (\<lambda>_. Some NUL) =
      Some (io_drv s', put_str (\<lambda>_. Some NUL) 0 [CHR ''A'', NUL, NUL, NUL], 0)"
proof -
  let ?mA = "\<lambda>_ :: nat. Some CHR ''A''" and ?mB = "\<lambda>_ :: nat. Some CHR ''B''"
  let ?d = "\<lparr>ioctl_num = 0, io_data = [100 \<mapsto> 0xFF]\<rparr>"
  let ?s = "\<lparr>io_drv = ?d, io_files = [0 \<mapsto> 100]\<rparr>"
  have open0: "ioctl_run ioctl_sys_start [Ev_Open 0 (Some 100)] = Some ?s"
    by (simp add: ioctl_step_def ioctl_sys_start_def test_ioctl_open_def file_val_def)
  have set: "test_ioctl_ioctl s (Some p) IOCTL_VALSET 0 (\<lambda>_. Some c) =
      Some (s\<lparr>io_data := (io_data s)(p \<mapsto> word_of_nat (of_char c))\<rparr>, \<lambda>_. Some c, 0)"
    if "io_data s p \<noteq> None" for s p c
    using test_ioctl_set [of "\<lambda>_. Some c" 0 s p] that by (simp add: mapped_def ustr_def get_user_def)
  obtain s' where run: "ioctl_run ?s [Ev_Ioctl 0 IOCTL_VALSET 0 ?mA, Ev_Open 1 (Some 200),
      Ev_Ioctl 1 IOCTL_VALSET 0 ?mB, Ev_Close 1] = Some s'"
    using set [of ?d 100 "CHR ''A''"] set [of "\<lparr>ioctl_num = 0, io_data = [100 \<mapsto> 65, 200 \<mapsto> 0xFF]\<rparr>" 200 "CHR ''B''"]
    by (simp add: ioctl_step_def test_ioctl_open_def test_ioctl_close_def file_val_def)
  have "test_ioctl_ioctl (io_drv s') (io_files s' 0) IOCTL_VALGET 0 (\<lambda>_. Some NUL) =
      Some (io_drv s', put_str (\<lambda>_. Some NUL) (unat (0 :: 64 word))
        [ustr ?mA (unat (0 :: 64 word)) 4 ! 0, NUL, NUL, NUL], 0)"
    by (rule ioctl_set_get [OF open0 _ _ run]) (simp_all add: mapped_def leaves_file_def)
  with open0 run show ?thesis by (simp add: ustr_def get_user_def)
qed

text \<open>
  C28: no sequence of opens, closes, ioctls and reads makes a handler follow a pointer to freed memory;
  the memory in use is that of the open files, one piece each, so nothing is left when all are closed.
\<close>

theorem ioctl_safe:
  assumes "ioctl_run ioctl_sys_start evs = Some s" and "ev_ok s ev"
  shows "(\<exists>s'. ioctl_step s ev = Some s') \<and> dom (io_data (io_drv s)) = ran (io_files s) \<and>
    inj_on (io_files s) (dom (io_files s))"
proof -
  have inv: "ioctl_inv s" using ioctl_run_inv [OF assms(1) ioctl_start_inv] .
  have "dom (io_data (io_drv s)) = ran (io_files s)" using inv by (auto simp: ioctl_inv_def ran_def)
  moreover have "inj_on (io_files s) (dom (io_files s))"
    using ioctl_inv_inj [OF inv] by (auto intro!: inj_onI)
  ultimately show ?thesis using ioctl_step_Some [OF inv assms(2)] by simp
qed

theorem ioctl_safe_witness:
  "\<exists>s. ioctl_run ioctl_sys_start [Ev_Open 0 (Some 100), Ev_Open 1 (Some 200), Ev_Close 0] = Some s \<and>
    dom (io_data (io_drv s)) = ran (io_files s) \<and> (\<exists>s'. ioctl_step s (Ev_Close 1) = Some s')"
proof -
  obtain s where s: "ioctl_run ioctl_sys_start [Ev_Open 0 (Some 100), Ev_Open 1 (Some 200), Ev_Close 0] =
      Some s" "io_files s 1 = Some 200"
    by (simp add: ioctl_step_def ioctl_sys_start_def test_ioctl_open_def test_ioctl_close_def
        file_val_def)
  from ioctl_safe [OF s(1), of "Ev_Close 1"] s show ?thesis by (simp add: ev_ok_def ev_file_def)
qed

end
