(* ===== verification/Ioctl_Numbers.thy ===== *)
theory Ioctl_Numbers
  imports Chardev2 Ioctl_Dev
begin

unbundle bit_operations_syntax

text \<open>
  The numbers of the ioctl commands of examples/chardev.h and examples/ioctl.c, as the kernel's macros
  \<open>_IO\<close>, \<open>_IOR\<close>, \<open>_IOW\<close> and \<open>_IOWR\<close> make them, and the \<open>switch\<close> that takes a number to a case of the
  handlers. The size of a pointer is a parameter: it is part of a number.
\<close>

subsection \<open>The encoding\<close>

text \<open>Direction (0 none, 1 written, 2 read, 3 both), magic number, number and size of the argument.\<close>

definition IOC :: "nat \<Rightarrow> nat \<Rightarrow> nat \<Rightarrow> nat \<Rightarrow> 32 word" where
  "IOC dir magic nr sz = push_bit 30 (of_nat dir) OR push_bit 16 (of_nat sz) OR push_bit 8 (of_nat magic) OR of_nat nr"

definition MAJOR_NUM :: nat where "MAJOR_NUM = 100"

definition IOCTL_SET_MSG_number :: "nat \<Rightarrow> 32 word" where
  "IOCTL_SET_MSG_number ptr_size = IOC 1 MAJOR_NUM 0 ptr_size"

definition IOCTL_GET_MSG_number :: "nat \<Rightarrow> 32 word" where
  "IOCTL_GET_MSG_number ptr_size = IOC 2 MAJOR_NUM 1 ptr_size"

definition IOCTL_GET_NTH_BYTE_number :: "32 word" where
  "IOCTL_GET_NTH_BYTE_number = IOC 3 MAJOR_NUM 2 4"

definition IOC_MAGIC :: nat where "IOC_MAGIC = 0x66"

definition IOCTL_VALSET_number :: "32 word" where "IOCTL_VALSET_number = IOC 1 IOC_MAGIC 0 4"
definition IOCTL_VALGET_number :: "32 word" where "IOCTL_VALGET_number = IOC 2 IOC_MAGIC 1 4"
definition IOCTL_VALGET_NUM_number :: "32 word" where "IOCTL_VALGET_NUM_number = IOC 2 IOC_MAGIC 2 4"
definition IOCTL_VALSET_NUM_number :: "32 word" where "IOCTL_VALSET_NUM_number = IOC 0 IOC_MAGIC 3 0"

subsection \<open>From numbers to cases\<close>

definition chardev_cmd_of :: "nat \<Rightarrow> 32 word \<Rightarrow> chardev_cmd" where
  "chardev_cmd_of ptr_size n =
     (if n = IOCTL_SET_MSG_number ptr_size then IOCTL_SET_MSG
      else if n = IOCTL_GET_MSG_number ptr_size then IOCTL_GET_MSG
      else if n = IOCTL_GET_NTH_BYTE_number then IOCTL_GET_NTH_BYTE
      else OTHER_CMD (unat n))"

definition ioctl_cmd_of :: "32 word \<Rightarrow> ioctl_cmd" where
  "ioctl_cmd_of n =
     (if n = IOCTL_VALSET_number then IOCTL_VALSET
      else if n = IOCTL_VALGET_number then IOCTL_VALGET
      else if n = IOCTL_VALGET_NUM_number then IOCTL_VALGET_NUM
      else if n = IOCTL_VALSET_NUM_number then IOCTL_VALSET_NUM
      else Other_cmd)"

lemma chardev_numbers:
  "IOCTL_SET_MSG_number 8 = 0x40086400" "IOCTL_GET_MSG_number 8 = 0x80086401"
  "IOCTL_SET_MSG_number 4 = 0x40046400" "IOCTL_GET_MSG_number 4 = 0x80046401"
  "IOCTL_GET_NTH_BYTE_number = 0xC0046402"
  by (simp_all add: IOCTL_SET_MSG_number_def IOCTL_GET_MSG_number_def IOCTL_GET_NTH_BYTE_number_def
      IOC_def MAJOR_NUM_def push_bit_eq_mult)

lemma ioctl_numbers:
  "IOCTL_VALSET_number = 0x40046600" "IOCTL_VALGET_number = 0x80046601"
  "IOCTL_VALGET_NUM_number = 0x80046602" "IOCTL_VALSET_NUM_number = 0x6603"
  by (simp_all add: IOCTL_VALSET_number_def IOCTL_VALGET_number_def IOCTL_VALGET_NUM_number_def
      IOCTL_VALSET_NUM_number_def IOC_def IOC_MAGIC_def push_bit_eq_mult)

lemmas ioctl_number_simps = chardev_numbers ioctl_numbers

text \<open>The cases of each handler are distinct numbers, so each is reached by its own number alone.\<close>

lemma chardev_cmd_of_numbers:
  assumes "ptr_size \<in> {4, 8}"
  shows "chardev_cmd_of ptr_size n = IOCTL_SET_MSG \<longleftrightarrow> n = IOCTL_SET_MSG_number ptr_size"
    and "chardev_cmd_of ptr_size n = IOCTL_GET_MSG \<longleftrightarrow> n = IOCTL_GET_MSG_number ptr_size"
    and "chardev_cmd_of ptr_size n = IOCTL_GET_NTH_BYTE \<longleftrightarrow> n = IOCTL_GET_NTH_BYTE_number"
  using assms by (auto simp: chardev_cmd_of_def ioctl_number_simps)

lemma ioctl_cmd_of_numbers:
  "ioctl_cmd_of n = IOCTL_VALSET \<longleftrightarrow> n = IOCTL_VALSET_number"
  "ioctl_cmd_of n = IOCTL_VALGET \<longleftrightarrow> n = IOCTL_VALGET_number"
  "ioctl_cmd_of n = IOCTL_VALGET_NUM \<longleftrightarrow> n = IOCTL_VALGET_NUM_number"
  "ioctl_cmd_of n = IOCTL_VALSET_NUM \<longleftrightarrow> n = IOCTL_VALSET_NUM_number"
  by (auto simp: ioctl_cmd_of_def ioctl_number_simps)

subsection \<open>Commands at the wrong device\<close>

text \<open>
  A command of one device does nothing at the other: chardev2.c answers it with success, and so it does
  for its own commands that write or read a message when the program was built for another size of
  pointers; ioctl.c answers with an error.
\<close>

theorem foreign_ioctls:
  assumes "n \<in> {IOCTL_VALSET_number, IOCTL_VALGET_number, IOCTL_VALGET_NUM_number, IOCTL_VALSET_NUM_number,
      IOCTL_SET_MSG_number 4, IOCTL_GET_MSG_number 4}"
    and "n' \<in> {IOCTL_SET_MSG_number 8, IOCTL_GET_MSG_number 8, IOCTL_GET_NTH_BYTE_number}"
    and "c2_already_open s = CDEV_NOT_USED"
  shows "chardev2_device_ioctl s m (chardev_cmd_of 8 n) param = Some (s, m, 0)"
    and "test_ioctl_ioctl d (Some p) (ioctl_cmd_of n') arg m' = Some (d, m', - ENOTTY)"
proof -
  have "chardev_cmd_of 8 n = OTHER_CMD (unat n)"
    using assms(1) by (auto simp: chardev_cmd_of_def ioctl_number_simps)
  with assms(3) show "chardev2_device_ioctl s m (chardev_cmd_of 8 n) param = Some (s, m, 0)"
    by (simp add: chardev2_device_ioctl_def Let_def)
  have "ioctl_cmd_of n' = Other_cmd"
    using assms(2) by (auto simp: ioctl_cmd_of_def ioctl_number_simps)
  then show "test_ioctl_ioctl d (Some p) (ioctl_cmd_of n') arg m' = Some (d, m', - ENOTTY)"
    by (simp add: test_ioctl_ioctl_def)
qed

end
