(* ===== verification/Syscall_Steal.thy ===== *)
theory Syscall_Steal
  imports Lifecycle
begin

unbundle bit_operations_syntax

text \<open>
  examples/syscall-steal.c: a module that puts its own function into the system call table and calls the
  original one from there. Modelled are the search for the table, the exchange of the entry behind the
  processor's write protection, and the spying function. Addresses are words of 64 bits; what is at an
  address of the kernel is a partial function, undefined where a read faults.
\<close>

subsection \<open>The search for the table\<close>

datatype scan_end = Found "64 word" | Not_Found | Page_Fault

text \<open>
  The loop over all addresses of kernels up to 5.4, from \<open>offset\<close> on; \<open>nr\<close> is \<open>__NR_close\<close> and
  \<open>ksys_close\<close> the address of that function. A search that never ends is \<open>None\<close>.
\<close>

partial_function (option) scan_table ::
    "(64 word \<Rightarrow> 64 word option) \<Rightarrow> 64 word \<Rightarrow> 64 word \<Rightarrow> 64 word \<Rightarrow> scan_end option" where
  "scan_table mem nr ksys_close offset =
     (if offset < - 1 then
        (case mem (offset + 8 * nr) of
           None \<Rightarrow> Some Page_Fault
         | Some f \<Rightarrow> if f = ksys_close then Some (Found offset)
                     else scan_table mem nr ksys_close (offset + 8))
      else Some Not_Found)"

text \<open>
  The check of the module parameter \<open>sym\<close>: \<open>sprint_symbol\<close> writes the name of the symbol at that
  address into an array of 40 characters. \<open>None\<close> is a write outside it.
\<close>

definition sct_name :: string where "sct_name = ''sys_call_table''"

definition check_sym :: "(64 word \<Rightarrow> string) \<Rightarrow> 64 word \<Rightarrow> 64 word option" where
  "check_sym sprint_symbol addr =
     (if addr = 0 then Some 0
      else (case c_sprintf (zeros 40) (sprint_symbol addr) of
              None \<Rightarrow> None
            | Some symbol \<Rightarrow> Some (if strncmp_eq sct_name (cstr symbol) 14 then addr else 0)))"

text \<open>What the search uses: the version and configuration, and the kernel's answers.\<close>

record sct_env =
  st_ver :: nat
  st_kprobes :: bool                      \<comment> \<open>\<open>CONFIG_KPROBES\<close>\<close>
  st_page_offset :: "64 word"
  st_mem :: "64 word \<Rightarrow> 64 word option"
  st_nr_close :: "64 word"
  st_ksys_close :: "64 word"
  st_sym :: "64 word"
  st_sprint_symbol :: "64 word \<Rightarrow> string"
  st_register_kprobe :: int
  st_lookup :: "64 word"                  \<comment> \<open>\<open>kallsyms_lookup_name("sys_call_table")\<close>\<close>

definition acquire_sys_call_table :: "sct_env \<Rightarrow> 64 word option" where
  "acquire_sys_call_table e =
     (if st_ver e \<ge> KERNEL_VERSION 5 7 0 then
        (if st_kprobes e then Some (if st_register_kprobe e < 0 then 0 else st_lookup e)
         else check_sym (st_sprint_symbol e) (st_sym e))
      else if st_ver e \<le> KERNEL_VERSION 5 4 0 then
        (case scan_table (st_mem e) (st_nr_close e) (st_ksys_close e) (st_page_offset e) of
           Some (Found sct) \<Rightarrow> Some sct
         | Some Not_Found \<Rightarrow> Some 0
         | _ \<Rightarrow> None)
      else Some (st_lookup e))"

lemma word_less_max [simp]: "x < (- 1 :: 64 word) \<longleftrightarrow> x \<noteq> - 1"
  by (simp add: word_order.not_eq_extremum)

text \<open>An address that is a multiple of eight is never the last address, and the loop steps by eight.\<close>

definition aligned :: "64 word \<Rightarrow> bool" where
  "aligned a \<longleftrightarrow> uint a mod 8 = 0"

lemma aligned_not_max: "aligned a \<Longrightarrow> a \<noteq> - 1"
  by (auto simp: aligned_def unsigned_minus_1_eq_mask mask_eq_exp_minus_1)

lemma aligned_add: "aligned a \<Longrightarrow> aligned (a + 8)"
  by (simp add: aligned_def uint_word_ariths mod_mod_cancel)

lemma scan_table_aligned:
  "aligned offset \<Longrightarrow> scan_table mem nr ksys_close offset =
     (case mem (offset + 8 * nr) of
        None \<Rightarrow> Some Page_Fault
      | Some f \<Rightarrow> if f = ksys_close then Some (Found offset)
                  else scan_table mem nr ksys_close (offset + 8))"
  by (subst scan_table.simps) (simp add: aligned_not_max)

text \<open>It finds the first place whose entry is the function looked for.\<close>

lemma scan_table_finds:
  assumes "aligned offset" and "mem (offset + of_nat (8 * k) + 8 * nr) = Some ksys_close"
    and "\<And>j. j < k \<Longrightarrow> \<exists>f. mem (offset + of_nat (8 * j) + 8 * nr) = Some f \<and> f \<noteq> ksys_close"
  shows "scan_table mem nr ksys_close offset = Some (Found (offset + of_nat (8 * k)))"
  using assms
proof (induction k arbitrary: offset)
  case 0
  then show ?case by (simp add: scan_table_aligned)
next
  case (Suc k)
  have step: "offset + of_nat (8 * Suc j) = offset + 8 + of_nat (8 * j)" for j
    by (simp add: algebra_simps)
  from Suc.prems(3) [of 0] obtain f where f: "mem (offset + 8 * nr) = Some f" "f \<noteq> ksys_close"
    by auto
  have "\<exists>f. mem (offset + 8 + of_nat (8 * j) + 8 * nr) = Some f \<and> f \<noteq> ksys_close" if "j < k" for j
    using Suc.prems(3) [of "Suc j"] that by (simp only: step)
  moreover have "mem (offset + 8 + of_nat (8 * k) + 8 * nr) = Some ksys_close"
    using Suc.prems(2) by (simp only: step)
  ultimately have "scan_table mem nr ksys_close (offset + 8) = Some (Found (offset + 8 + of_nat (8 * k)))"
    using Suc.prems(1) by (intro Suc.IH aligned_add)
  with f Suc.prems(1) show ?case by (simp add: step scan_table_aligned del: of_nat_mult)
qed

text \<open>
  How a search can end: with a place that has the entry, or with an address that cannot be read. The way
  out of the loop with \<open>NULL\<close> is never taken.
\<close>

lemma scan_table_outcome:
  assumes "scan_table mem nr ksys_close offset = Some r" and "aligned offset"
  shows "(\<exists>a. r = Found a \<and> aligned a \<and> mem (a + 8 * nr) = Some ksys_close) \<or>
    (\<exists>a. r = Page_Fault \<and> aligned a \<and> mem (a + 8 * nr) = None)"
  using assms
proof (induction rule: scan_table.raw_induct [rotated, consumes 1, case_names step])
  case (step scan mem nr ksys_close offset r)
  have "offset < - 1" using step.prems aligned_not_max by simp
  with step show ?case using aligned_add [OF step.prems]
    by (auto split: option.splits if_splits)
qed

subsection \<open>The table and the write protection\<close>

text \<open>
  The kernel's state: the words of its memory, the system call table among them, and the control
  register \<open>cr0\<close>, whose bit 16 protects read-only pages. An access to an address where nothing is mapped
  faults, and so does a write while the bit is set (the table is read-only).
\<close>

record kernel =
  k_mem :: "64 word \<Rightarrow> 64 word option"
  k_cr0 :: "64 word"

definition enable_write_protection :: "kernel \<Rightarrow> kernel" where
  "enable_write_protection k = k\<lparr>k_cr0 := set_bit 16 (k_cr0 k)\<rparr>"

definition disable_write_protection :: "kernel \<Rightarrow> kernel" where
  "disable_write_protection k = k\<lparr>k_cr0 := unset_bit 16 (k_cr0 k)\<rparr>"

definition NR_openat :: nat where "NR_openat = 257"

text \<open>The address of the entry \<open>sct[__NR_openat]\<close>, and a write to an address.\<close>

definition entry :: "64 word \<Rightarrow> 64 word" where
  "entry sct = sct + 8 * of_nat NR_openat"

definition write_word :: "64 word \<Rightarrow> 64 word \<Rightarrow> kernel \<Rightarrow> kernel option" where
  "write_word a f k =
     (if bit (k_cr0 k) 16 \<or> k_mem k a = None then None else Some (k\<lparr>k_mem := (k_mem k)(a \<mapsto> f)\<rparr>))"

text \<open>
  The variables of one such module: where its own function is, the user it spies on, and what it has found.
\<close>

record stealer =
  st_ours :: "64 word"
  st_uid :: "32 word"
  sys_call_table_stolen :: "64 word"
  original_call :: "64 word"

text \<open>Both functions work on whatever address the search gave them: it may be wrong, or not be mapped.\<close>

definition syscall_steal_start ::
    "64 word option \<Rightarrow> stealer \<Rightarrow> kernel \<Rightarrow> (stealer \<times> kernel \<times> int) option" where
  "syscall_steal_start acquired s k =
     (case acquired of
        None \<Rightarrow> None
      | Some sct \<Rightarrow>
          (let s = s\<lparr>sys_call_table_stolen := sct\<rparr>
           in if sct = 0 then Some (s, k, - 1)
              else (let k = disable_write_protection k
                    in case k_mem k (entry sct) of
                         None \<Rightarrow> None
                       | Some f \<Rightarrow>
                           (let s = s\<lparr>original_call := f\<rparr>
                            in case write_word (entry sct) (st_ours s) k of
                                 None \<Rightarrow> None
                               | Some k \<Rightarrow> Some (s, enable_write_protection k, 0)))))"

text \<open>\<open>syscall_steal_end\<close>; the flag of the result says whether it warns that somebody else played.\<close>

definition syscall_steal_end :: "stealer \<Rightarrow> kernel \<Rightarrow> (kernel \<times> bool) option" where
  "syscall_steal_end s k =
     (let sct = sys_call_table_stolen s
      in if sct = 0 then Some (k, False)
         else (case k_mem k (entry sct) of
                 None \<Rightarrow> None
               | Some f \<Rightarrow>
                   (let warn = f \<noteq> st_ours s; k = disable_write_protection k
                    in map_option (\<lambda>k. (enable_write_protection k, warn)) (write_word (entry sct) (original_call s) k))))"

lemma protection [simp]:
  "bit (k_cr0 (enable_write_protection k)) 16" "\<not> bit (k_cr0 (disable_write_protection k)) 16"
  "k_mem (enable_write_protection k) = k_mem k" "k_mem (disable_write_protection k) = k_mem k"
  by (simp_all add: enable_write_protection_def disable_write_protection_def bit_simps)

lemma entry_inject [simp]: "entry a = entry b \<longleftrightarrow> a = b"
  by (simp add: entry_def)

subsection \<open>The spying function\<close>

text \<open>
  The loop that prints the file's name byte by byte; \<open>log\<close> is what it has printed. A byte that cannot
  be read is 0, which ends the loop; a name without end is \<open>None\<close>.
\<close>

partial_function (option) name_loop :: "umem \<Rightarrow> nat \<Rightarrow> nat \<Rightarrow> string \<Rightarrow> string option" where
  "name_loop m filename i log =
     (let ch = fst (get_user (filename + i) m); log = log @ [ch]
      in if ch \<noteq> NUL then name_loop m filename (Suc i) log else Some log)"

text \<open>The line that starts the report; the user's number is printed as a signed number.\<close>

definition spy_header :: "32 word \<Rightarrow> string" where
  "spy_header uid = ''Opened file by '' @ dec_int (sint uid) @ '': ''"

text \<open>
  \<open>our_sys_openat\<close>, over the original function: what is logged, if anything, and what the original
  function does with the system's state \<open>k\<close> and returns.
\<close>

definition our_sys_openat ::
    "(int \<Rightarrow> nat \<Rightarrow> int \<Rightarrow> nat \<Rightarrow> 'k \<Rightarrow> 'r) \<Rightarrow> 32 word \<Rightarrow> 32 word \<Rightarrow> umem \<Rightarrow>
     int \<Rightarrow> nat \<Rightarrow> int \<Rightarrow> nat \<Rightarrow> 'k \<Rightarrow> (string option \<times> 'r) option" where
  "our_sys_openat original uid current_uid m dfd filename flags mode k =
     (if current_uid \<noteq> uid then Some (None, original dfd filename flags mode k)
      else (case name_loop m filename 0 [] of
              None \<Rightarrow> None
            | Some log \<Rightarrow> Some (Some (spy_header uid @ log @ [LF]), original dfd filename flags mode k)))"

text \<open>The variant that installs a kprobe instead: whether the handler logs, and its return value.\<close>

definition sys_call_kprobe_pre_handler :: "32 word \<Rightarrow> 32 word \<Rightarrow> bool \<times> int" where
  "sys_call_kprobe_pre_handler uid current_uid = (current_uid = uid, 0)"

text \<open>Loading and unloading in that variant, for the answer of \<open>register_kprobe\<close>.\<close>

definition kprobe_steal_start :: "string \<Rightarrow> int \<Rightarrow> int \<times> kop list" where
  "kprobe_steal_start syscall_sym err = (if err \<noteq> 0 then (err, []) else (0, [Acquire (Kprobe syscall_sym)]))"

definition kprobe_steal_end :: "string \<Rightarrow> int \<Rightarrow> kop list" where
  "kprobe_steal_end syscall_sym err = [Release (Kprobe syscall_sym)]"

interpretation kprobe_steal_mod: module_lifecycle "kprobe_steal_start sym" "kprobe_steal_end sym"
    "\<lambda>_. {Kprobe sym}" "\<lambda>err. err \<le> 0" for sym
  by unfold_locales (auto simp: kprobe_steal_start_def kprobe_steal_end_def split: if_splits)

lemma name_loop_eq:
  assumes "\<And>j. j < n \<Longrightarrow> fst (get_user (filename + i + j) m) \<noteq> NUL"
    and "fst (get_user (filename + i + n) m) = NUL"
  shows "name_loop m filename i log = Some (log @ ustr m (filename + i) n @ [NUL])"
  using assms
proof (induction n arbitrary: i log)
  case 0
  then show ?case by (subst name_loop.simps) (simp add: ustr_def)
next
  case (Suc n)
  have "fst (get_user (filename + i) m) \<noteq> NUL" using Suc.prems(1) [of 0] by simp
  moreover have "name_loop m filename (Suc i) (log @ [fst (get_user (filename + i) m)]) =
      Some (log @ [fst (get_user (filename + i) m)] @ ustr m (filename + Suc i) n @ [NUL])"
    using Suc.prems(1) [of "Suc _"] Suc.prems(2) by (subst Suc.IH) simp_all
  ultimately show ?case by (subst name_loop.simps) (simp add: Let_def ustr_Suc)
qed

text \<open>A name whose end, a NUL or an address that cannot be read, is \<open>n\<close> bytes on.\<close>

definition name_ends :: "umem \<Rightarrow> nat \<Rightarrow> nat \<Rightarrow> bool" where
  "name_ends m filename n \<longleftrightarrow> (\<forall>j<n. fst (get_user (filename + j) m) \<noteq> NUL) \<and>
     fst (get_user (filename + n) m) = NUL"

subsection \<open>Several such modules\<close>

text \<open>Modules loaded one after the other, each with the table it found, and unloaded in some order.\<close>

fun start_all :: "(64 word option \<times> stealer) list \<Rightarrow> kernel \<Rightarrow> (stealer list \<times> kernel) option" where
  "start_all [] k = Some ([], k)"
| "start_all ((acquired, s) # rest) k =
     (case syscall_steal_start acquired s k of
        Some (s, k, ret) \<Rightarrow>
          if ret = 0 then map_option (\<lambda>(ss, k). (s # ss, k)) (start_all rest k) else None
      | None \<Rightarrow> None)"

fun end_all :: "stealer list \<Rightarrow> kernel \<Rightarrow> (kernel \<times> bool list) option" where
  "end_all [] k = Some (k, [])"
| "end_all (s # ss) k =
     (case syscall_steal_end s k of
        None \<Rightarrow> None
      | Some (k, warn) \<Rightarrow> map_option (\<lambda>(k, warns). (k, warn # warns)) (end_all ss k))"

lemma end_all_append:
  "end_all (ss @ ts) k = (case end_all ss k of None \<Rightarrow> None
     | Some (k, ws) \<Rightarrow> map_option (\<lambda>(k, vs). (k, ws @ vs)) (end_all ts k))"
  by (induction ss arbitrary: k)
    (auto split: option.splits prod.splits simp: option.map_comp option.map_ident o_def case_prod_unfold)

definition stolen :: "64 word \<Rightarrow> 64 word \<Rightarrow> kernel \<Rightarrow> kernel" where
  "stolen sct f k = enable_write_protection ((disable_write_protection k)\<lparr>k_mem := (k_mem k)(entry sct \<mapsto> f)\<rparr>)"

lemma stolen_sel [simp]:
  "k_mem (stolen sct f k) = (k_mem k)(entry sct \<mapsto> f)" "bit (k_cr0 (stolen sct f k)) 16"
  by (simp_all add: stolen_def)

lemma start_eq:
  assumes "sct \<noteq> 0" and "k_mem k (entry sct) = Some f"
  shows "syscall_steal_start (Some sct) s k =
    Some (s\<lparr>sys_call_table_stolen := sct, original_call := f\<rparr>, stolen sct (st_ours s) k, 0)"
  using assms by (simp add: syscall_steal_start_def write_word_def Let_def stolen_def)

lemma kernel_restored:
  "enable_write_protection (disable_write_protection (enable_write_protection
      ((disable_write_protection k)\<lparr>k_mem := mem\<rparr>))\<lparr>k_mem := k_mem k\<rparr>) = enable_write_protection k"
  by (cases k) (auto simp: enable_write_protection_def disable_write_protection_def bit_simps intro!: bit_word_eqI)

lemma protected: "bit (k_cr0 k) 16 \<Longrightarrow> enable_write_protection k = k"
  by (cases k) (auto simp: enable_write_protection_def bit_simps intro!: bit_word_eqI)

text \<open>Unloading at once restores the memory, and leaves the protection on.\<close>

lemma start_end:
  assumes "sct \<noteq> 0" and "k_mem k (entry sct) = Some f"
  shows "syscall_steal_end (s\<lparr>sys_call_table_stolen := sct, original_call := f\<rparr>) (stolen sct (st_ours s) k) =
    Some (enable_write_protection k, False)"
proof -
  have "(k_mem k)(entry sct \<mapsto> f) = k_mem k" using assms(2) by (simp add: fun_upd_idem)
  then show ?thesis
    using assms kernel_restored [of k "(k_mem k)(entry sct \<mapsto> st_ours s)"]
    by (simp add: syscall_steal_end_def write_word_def Let_def stolen_def)
qed

text \<open>The addresses that modules have found are good when an entry can be read there.\<close>

definition found_ok :: "(64 word \<times> stealer) list \<Rightarrow> kernel \<Rightarrow> bool" where
  "found_ok mods k \<longleftrightarrow> (\<forall>sct\<in>fst ` set mods. sct \<noteq> 0 \<and> k_mem k (entry sct) \<noteq> None)"

lemma found_ok_Cons:
  "found_ok ((sct, s) # mods) k \<longleftrightarrow> sct \<noteq> 0 \<and> k_mem k (entry sct) \<noteq> None \<and> found_ok mods k"
  by (simp add: found_ok_def)

lemma found_ok_stolen: "found_ok mods k \<Longrightarrow> found_ok mods (stolen sct f k)"
  by (simp add: found_ok_def)

abbreviation load_all :: "(64 word \<times> stealer) list \<Rightarrow> kernel \<Rightarrow> (stealer list \<times> kernel) option" where
  "load_all mods k \<equiv> start_all (map (\<lambda>(sct, s). (Some sct, s)) mods) k"

text \<open>The function at an address after loading: that of the last module whose entry it is.\<close>

definition last_of :: "64 word \<Rightarrow> (64 word \<times> stealer) list \<Rightarrow> 64 word option" where
  "last_of a mods = fold (\<lambda>(sct, s) f. if entry sct = a then Some (st_ours s) else f) mods None"

lemma fold_last_of:
  "fold (\<lambda>(sct, s) f. if entry sct = a then Some (st_ours s) else f) mods f0 =
    (case last_of a mods of None \<Rightarrow> f0 | Some f \<Rightarrow> Some f)"
  unfolding last_of_def
proof (induction mods rule: rev_induct)
  case (snoc sm mods)
  then show ?case by (cases sm) simp
qed simp

lemma last_of_Cons:
  "last_of a ((sct, s) # mods) =
    (case last_of a mods of None \<Rightarrow> if entry sct = a then Some (st_ours s) else None | Some f \<Rightarrow> Some f)"
  using fold_last_of [of a mods "if entry sct = a then Some (st_ours s) else None"] by (simp add: last_of_def)


lemma load_all_Cons:
  assumes "found_ok ((sct, s) # mods) k"
  obtains f where "k_mem k (entry sct) = Some f"
    and "load_all ((sct, s) # mods) k = map_option (\<lambda>(ss, k'). (s\<lparr>sys_call_table_stolen := sct, original_call := f\<rparr> # ss, k'))
      (load_all mods (stolen sct (st_ours s) k))"
proof -
  from assms obtain f where "k_mem k (entry sct) = Some f" "sct \<noteq> 0" by (auto simp: found_ok_Cons)
  with that [of f] start_eq [of sct k f s] show ?thesis by simp
qed

text \<open>Loading succeeds, and modules that are unloaded in the opposite order leave everything as it was.\<close>

lemma load_all_Some:
  assumes "found_ok mods k"
  shows "\<exists>ss k'. load_all mods k = Some (ss, k') \<and> map st_ours ss = map (st_ours \<circ> snd) mods \<and>
    (\<forall>a. k_mem k' a = (case last_of a mods of None \<Rightarrow> k_mem k a | Some f \<Rightarrow> Some f)) \<and>
    end_all (rev ss) k' = Some (if mods = [] then k else enable_write_protection k, replicate (length mods) False)"
  using assms
proof (induction mods arbitrary: k)
  case Nil
  then show ?case by (simp add: last_of_def)
next
  case (Cons sm mods)
  obtain sct s where sm: "sm = (sct, s)" by (cases sm)
  note ok = Cons.prems [unfolded sm]
  obtain f where f: "k_mem k (entry sct) = Some f" and load: "load_all ((sct, s) # mods) k = map_option
      (\<lambda>(ss, k'). (s\<lparr>sys_call_table_stolen := sct, original_call := f\<rparr> # ss, k')) (load_all mods (stolen sct (st_ours s) k))"
    using load_all_Cons [OF ok] .
  have "found_ok mods (stolen sct (st_ours s) k)" using ok found_ok_stolen by (simp add: found_ok_Cons)
  from Cons.IH [OF this] obtain ss k' where rest: "load_all mods (stolen sct (st_ours s) k) = Some (ss, k')"
    "map st_ours ss = map (st_ours \<circ> snd) mods"
    "\<And>a. k_mem k' a = (case last_of a mods of None \<Rightarrow> k_mem (stolen sct (st_ours s) k) a | Some f \<Rightarrow> Some f)"
    "end_all (rev ss) k' = Some (if mods = [] then stolen sct (st_ours s) k
       else enable_write_protection (stolen sct (st_ours s) k), replicate (length mods) False)" by blast
  have "end_all (rev ss) k' = Some (stolen sct (st_ours s) k, replicate (length mods) False)"
    using rest(4) by (simp add: protected)
  moreover have "syscall_steal_end (s\<lparr>sys_call_table_stolen := sct, original_call := f\<rparr>) (stolen sct (st_ours s) k) =
      Some (enable_write_protection k, False)" using start_end [OF _ f, of s] ok by (simp add: found_ok_Cons)
  moreover have "k_mem k' a = (case last_of a ((sct, s) # mods) of None \<Rightarrow> k_mem k a | Some f \<Rightarrow> Some f)" for a
    using rest(3) [of a] by (simp add: last_of_Cons split: option.split)
  ultimately show ?case using load rest(1,2)
    by (simp add: sm end_all_append replicate_append_same)
qed

lemma start_all_append:
  "start_all (xs @ ys) k = (case start_all xs k of None \<Rightarrow> None
     | Some (ss, k) \<Rightarrow> map_option (\<lambda>(ts, k). (ss @ ts, k)) (start_all ys k))"
  by (induction xs arbitrary: k)
    (auto split: option.splits prod.splits simp: option.map_comp option.map_ident o_def case_prod_unfold)

subsection \<open>The call through the table\<close>

text \<open>
  A call of the function at \<open>addr\<close>: the kernel's own function, at \<open>base\<close>, or that of a loaded module, whose
  code is there and which goes on with its \<open>original_call\<close> and the arguments it passes on. The result is what the modules log and what
  the kernel's function does and returns; running code that is not there is \<open>None\<close>.
\<close>

partial_function (option) call_openat ::
    "(64 word \<Rightarrow> stealer option) \<Rightarrow> 64 word \<Rightarrow> (int \<Rightarrow> nat \<Rightarrow> int \<Rightarrow> nat \<Rightarrow> 'k \<Rightarrow> 'r) \<Rightarrow> 32 word \<Rightarrow> umem \<Rightarrow>
     int \<Rightarrow> nat \<Rightarrow> int \<Rightarrow> nat \<Rightarrow> 'k \<Rightarrow> 64 word \<Rightarrow> (string list \<times> 'r) option" where
  "call_openat code base sys_openat current_uid m dfd filename flags mode k addr =
     (if addr = base then Some ([], sys_openat dfd filename flags mode k)
      else (case code addr of
              None \<Rightarrow> None
            | Some s \<Rightarrow>
                (case our_sys_openat (\<lambda>dfd filename flags mode k. (original_call s, dfd, filename, flags, mode, k))
                        (st_uid s) current_uid m dfd filename flags mode k of
                   None \<Rightarrow> None
                 | Some (line, next, dfd, filename, flags, mode, k) \<Rightarrow>
                     Option.bind (call_openat code base sys_openat current_uid m dfd filename flags mode k next)
                       (\<lambda>(lines, ret). Some ((case line of None \<Rightarrow> [] | Some l \<Rightarrow> [l]) @ lines, ret)))))"

text \<open>
  The system call. Kernels call through their table, which is at \<open>table\<close>, or call the function
  directly: those for x86 do the latter from 6.9 on, and from 5.15.154, 6.1.85, 6.6.26 and 6.8.5 on in
  the older series. What a module puts into the table then has no effect.
\<close>

definition sys_call ::
    "bool \<Rightarrow> 64 word \<Rightarrow> (64 word \<Rightarrow> stealer option) \<Rightarrow> 64 word \<Rightarrow> (int \<Rightarrow> nat \<Rightarrow> int \<Rightarrow> nat \<Rightarrow> 'k \<Rightarrow> 'r) \<Rightarrow> 32 word \<Rightarrow>
     umem \<Rightarrow> int \<Rightarrow> nat \<Rightarrow> int \<Rightarrow> nat \<Rightarrow> 'k \<Rightarrow> kernel \<Rightarrow> (string list \<times> 'r) option" where
  "sys_call by_table table code base sys_openat current_uid m dfd filename flags mode st k =
     (if by_table
      then Option.bind (k_mem k (entry table))
             (call_openat code base sys_openat current_uid m dfd filename flags mode st)
      else Some ([], sys_openat dfd filename flags mode st))"

text \<open>The code of the modules that are loaded, and what one of them logs.\<close>

definition loaded_code :: "stealer list \<Rightarrow> 64 word \<Rightarrow> stealer option" where
  "loaded_code ss addr = find (\<lambda>s. st_ours s = addr) ss"

definition spy_line :: "umem \<Rightarrow> nat \<Rightarrow> nat \<Rightarrow> 32 word \<Rightarrow> string" where
  "spy_line m filename n uid = spy_header uid @ ustr m filename n @ [NUL, LF]"

lemma our_sys_openat_eq:
  assumes "name_ends m filename n"
  shows "our_sys_openat original uid current_uid m dfd filename flags mode k =
    Some (if current_uid = uid then Some (spy_line m filename n uid) else None, original dfd filename flags mode k)"
proof -
  have "name_loop m filename 0 [] = Some (ustr m filename n @ [NUL])"
    using assms name_loop_eq [of n filename 0 m "[]"] by (simp add: name_ends_def)
  then show ?thesis by (simp add: our_sys_openat_def spy_line_def)
qed

lemma loaded_code_Some:
  assumes "s \<in> set ss" and "distinct (map st_ours ss)"
  shows "loaded_code ss (st_ours s) = Some s"
  using assms by (induction ss) (auto simp: loaded_code_def)

text \<open>
  Modules that have found the table stand in a chain, from the last one loaded to the kernel's own
  function.
\<close>

lemma call_chain:
  assumes "load_all mods k = Some (ss, k')" and "found_ok mods k" and "fst ` set mods \<subseteq> {table}"
    and "k_mem k (entry table) = Some base"
    and "\<forall>s\<in>set ss. code (st_ours s) = Some s \<and> st_ours s \<noteq> base" and "name_ends m filename n"
  shows "\<exists>addr. k_mem k' (entry table) = Some addr \<and>
    call_openat code base sys_openat current_uid m dfd filename flags mode st addr =
      Some (map (spy_line m filename n \<circ> st_uid) (filter (\<lambda>s. st_uid s = current_uid) (rev ss)),
        sys_openat dfd filename flags mode st)"
  using assms(1-3,5)
proof (induction mods arbitrary: ss k' rule: rev_induct)
  case Nil
  with assms(4) show ?case by (simp add: call_openat.simps [of code base])
next
  case (snoc sm mods)
  obtain s where sm: "sm = (table, s)" using snoc.prems(3) by (cases sm) auto
  have ok: "found_ok mods k" "table \<noteq> 0" using snoc.prems(2) by (auto simp: found_ok_def sm)
  from snoc.prems(1) obtain ss0 k0 where init: "load_all mods k = Some (ss0, k0)"
    and last: "load_all [(table, s)] k0 = Some (drop (length ss0) ss, k')" and ss: "ss = ss0 @ drop (length ss0) ss"
    by (auto simp: start_all_append sm split: option.splits prod.splits)
  have sub: "set ss0 \<subseteq> set ss" using ss by (metis set_append Un_upper1)
  with snoc.prems(3,4) have "\<exists>addr. k_mem k0 (entry table) = Some addr \<and>
    call_openat code base sys_openat current_uid m dfd filename flags mode st addr =
      Some (map (spy_line m filename n \<circ> st_uid) (filter (\<lambda>s. st_uid s = current_uid) (rev ss0)),
        sys_openat dfd filename flags mode st)"
    by (intro snoc.IH [OF init ok(1)]) auto
  then obtain addr where addr: "k_mem k0 (entry table) = Some addr"
    "call_openat code base sys_openat current_uid m dfd filename flags mode st addr =
      Some (map (spy_line m filename n \<circ> st_uid) (filter (\<lambda>s. st_uid s = current_uid) (rev ss0)),
        sys_openat dfd filename flags mode st)" by blast
  define t where "t = s\<lparr>sys_call_table_stolen := table, original_call := addr\<rparr>"
  have t: "ss = ss0 @ [t]" "k' = stolen table (st_ours t) k0" "original_call t = addr"
    using last ss start_eq [OF ok(2) addr(1), of s] by (auto simp: t_def)
  then have "code (st_ours t) = Some t" "st_ours t \<noteq> base" using snoc.prems(4) by auto
  with t addr(2) show ?case
    by (subst call_openat.simps) (simp add: our_sys_openat_eq [OF assms(6)])
qed

lemma load_all_code:
  assumes "map st_ours ss = map (st_ours \<circ> snd) mods" and "distinct (base # map (st_ours \<circ> snd) mods)"
  shows "\<forall>s\<in>set ss. loaded_code ss (st_ours s) = Some s \<and> st_ours s \<noteq> base"
proof
  fix s assume s: "s \<in> set ss"
  have "distinct (map st_ours ss)" "base \<notin> set (map st_ours ss)" using assms by auto
  with s show "loaded_code ss (st_ours s) = Some s \<and> st_ours s \<noteq> base"
    using loaded_code_Some [OF s] by auto
qed

subsection \<open>Properties\<close>


definition demo_stealer :: "64 word \<Rightarrow> stealer" where
  "demo_stealer f = \<lparr>st_ours = f, st_uid = 1000, sys_call_table_stolen = 0, original_call = 0\<rparr>"

text \<open>A kernel with its table at 0x9000.\<close>

definition demo_kernel :: kernel where
  "demo_kernel = \<lparr>k_mem = (\<lambda>a. if 0x9000 \<le> a \<and> a < 0xC000 then Some 0x1000 else None), k_cr0 = 0x80050033\<rparr>"

lemma demo_entry: "entry 0x9000 = 0x9808" "entry 0xA000 = 0xA808"
  by (simp_all add: entry_def NR_openat_def)


text \<open>
  Two such modules unloaded in the order they were loaded leave the entry of the system call table
  pointing at the function of the first, which is gone, and not at the original. Both have warned. Where the
  kernel calls through the table, the next process that opens a file runs into freed memory.
\<close>

theorem steal_wrong_order_dangles:
  assumes "sct \<noteq> 0" and "st_ours a \<noteq> st_ours b" and "k_mem k (entry sct) = Some base"
    and "base \<noteq> st_ours b" and "base \<noteq> st_ours a"
  shows "\<exists>a' b' k' k''. start_all [(Some sct, a), (Some sct, b)] k = Some ([a', b'], k') \<and>
    end_all [a', b'] k' = Some (k'', [True, True]) \<and> k_mem k'' (entry sct) = Some (st_ours a) \<and>
    sys_call True sct (loaded_code []) base sys_openat current_uid m dfd filename flags mode st k'' = None"
proof -
  let ?k1 = "stolen sct (st_ours a) k"
  let ?k2 = "stolen sct (st_ours b) ?k1"
  let ?k3 = "stolen sct base ?k2"
  let ?a = "a\<lparr>sys_call_table_stolen := sct, original_call := base\<rparr>"
  let ?b = "b\<lparr>sys_call_table_stolen := sct, original_call := st_ours a\<rparr>"
  have one: "k_mem ?k1 (entry sct) = Some (st_ours a)" by simp
  have "start_all [(Some sct, a), (Some sct, b)] k = Some ([?a, ?b], ?k2)"
    using start_eq [OF assms(1,3), of a] start_eq [OF assms(1) one, of b] by simp
  moreover have "syscall_steal_end ?a ?k2 = Some (?k3, True)" "syscall_steal_end ?b ?k3 = Some (stolen sct (st_ours a) ?k3, True)"
    using assms by (simp_all add: syscall_steal_end_def write_word_def Let_def stolen_def)
  then have "end_all [?a, ?b] ?k2 = Some (stolen sct (st_ours a) ?k3, [True, True])" by simp
  moreover have "call_openat (loaded_code []) base sys_openat current_uid m dfd filename flags mode st (st_ours a) = None"
    using assms(5) by (subst call_openat.simps) (auto simp: loaded_code_def)
  ultimately show ?thesis
    by (intro exI [of _ ?a] exI [of _ ?b] exI [of _ ?k2] exI [of _ "stolen sct (st_ours a) ?k3"]) (simp add: sys_call_def)
qed

theorem steal_wrong_order_dangles_witness:
  "\<exists>a' b' k' k''. start_all [(Some 0x9000, demo_stealer 0xF000), (Some 0x9000, demo_stealer 0xF100)]
      demo_kernel = Some ([a', b'], k') \<and>
    end_all [a', b'] k' = Some (k'', [True, True]) \<and> k_mem k'' (entry 0x9000) = Some 0xF000"
proof -
  have "k_mem demo_kernel (entry 0x9000) = Some 0x1000" by (simp add: demo_kernel_def demo_entry)
  then show ?thesis
    using steal_wrong_order_dangles [where sct = "0x9000" and a = "demo_stealer 0xF000" and b = "demo_stealer 0xF100"
        and k = demo_kernel and base = "0x1000" and sys_openat = "\<lambda>_ _ _ _ _. ()" and st = "()" and m = Map.empty
        and current_uid = 0 and dfd = 0 and filename = 0 and flags = 0 and mode = 0]
    by (simp add: demo_stealer_def del: start_all.simps end_all.simps) blast
qed

text \<open>
  C24: spying changes nothing for the caller. While modules that have all found the table are loaded one
  after the other, each spying on some user, and unloaded in the opposite order, at every moment a call of
  \<open>openat\<close> by any user with any name that has an end does to the system and returns what the kernel's own
  function does. Where the kernel calls through its table, the call is logged before once by every
  loaded module that spies on that user, the last loaded first; where it does not (on x86 from 6.9 on and in
  the later releases of older series), nothing is logged: the modules load but never see a call.
\<close>

theorem steal_transparent:
  assumes "k_mem k (entry table) = Some base" and "table \<noteq> 0" and "fst ` set (mods @ mods') \<subseteq> {table}"
    and "start_all (map (\<lambda>(sct, s). (Some sct, s)) (mods @ mods')) k = Some (ss, k')"
    and "name_ends m filename n" and "distinct (base # map (st_ours \<circ> snd) (mods @ mods'))"
  shows "\<exists>k''. end_all (rev (drop (length mods) ss)) k' = Some (k'', replicate (length mods') False) \<and>
    sys_call by_table table (loaded_code (take (length mods) ss)) base sys_openat current_uid m
        dfd filename flags mode st k'' =
      Some (if by_table
            then map (spy_line m filename n \<circ> st_uid)
                   (filter (\<lambda>s. st_uid s = current_uid) (rev (take (length mods) ss)))
            else [],
        sys_openat dfd filename flags mode st)"
proof -
  have ok: "found_ok mods k" "found_ok mods' k" using assms(1-3) by (auto simp: found_ok_def)
  from load_all_Some [OF ok(1)] obtain ss1 k1 where first: "load_all mods k = Some (ss1, k1)"
    "map st_ours ss1 = map (st_ours \<circ> snd) mods"
    "\<And>a. k_mem k1 a = (case last_of a mods of None \<Rightarrow> k_mem k a | Some f \<Rightarrow> Some f)" by blast
  have "found_ok mods' k1" using ok(2) by (auto simp: found_ok_def first(3) split: option.split)
  from load_all_Some [OF this] obtain ss2 k2 where rest: "load_all mods' k1 = Some (ss2, k2)"
    "map st_ours ss2 = map (st_ours \<circ> snd) mods'"
    "end_all (rev ss2) k2 = Some (if mods' = [] then k1 else enable_write_protection k1, replicate (length mods') False)"
    by blast
  have ss: "ss = ss1 @ ss2" "k' = k2" using assms(4) first(1) rest(1) by (simp_all add: start_all_append)
  have len: "length ss1 = length mods" using first(2) by (metis length_map)
  have "\<forall>s\<in>set ss1. loaded_code ss1 (st_ours s) = Some s \<and> st_ours s \<noteq> base"
    using load_all_code [OF first(2), of base] assms(6) by simp
  then obtain addr where addr: "k_mem k1 (entry table) = Some addr"
    "call_openat (loaded_code ss1) base sys_openat current_uid m dfd filename flags mode st addr =
      Some (map (spy_line m filename n \<circ> st_uid) (filter (\<lambda>s. st_uid s = current_uid) (rev ss1)),
        sys_openat dfd filename flags mode st)"
    using call_chain [OF first(1) ok(1) _ assms(1) _ assms(5), of "loaded_code ss1"] assms(3) by fastforce
  then have "sys_call by_table table (loaded_code ss1) base sys_openat current_uid m dfd filename flags mode st
      (if mods' = [] then k1 else enable_write_protection k1) = Some (if by_table
        then map (spy_line m filename n \<circ> st_uid) (filter (\<lambda>s. st_uid s = current_uid) (rev ss1)) else [],
        sys_openat dfd filename flags mode st)"
    by (simp add: sys_call_def)
  with rest(3) ss len show ?thesis by auto
qed

theorem steal_transparent_witness:
  "\<exists>ss k'. start_all [(Some 0x9000, demo_stealer 0xF000), (Some 0x9000, (demo_stealer 0xF100)\<lparr>st_uid := 7\<rparr>)] demo_kernel =
      Some (ss, k') \<and>
    sys_call True 0x9000 (loaded_code ss) 0x1000 (\<lambda>dfd name flags mode k. (3 :: int, k + 1)) 1000 [10 \<mapsto> CHR ''a''] 0 10 0 0
      (7 :: nat) k' = Some ([spy_header 1000 @ [CHR ''a'', NUL, LF]], 3, 8)"
proof -
  let ?mods = "[(0x9000 :: 64 word, demo_stealer 0xF000), (0x9000, (demo_stealer 0xF100)\<lparr>st_uid := 7\<rparr>)]"
  have ends: "name_ends [10 \<mapsto> CHR ''a''] 10 1" by (simp add: name_ends_def get_user_def)
  have mem: "k_mem demo_kernel (entry 0x9000) = Some 0x1000" by (simp add: demo_kernel_def demo_entry)
  obtain ss k' where run: "start_all (map (\<lambda>(sct, s). (Some sct, s)) (?mods @ [])) demo_kernel = Some (ss, k')"
    and ss: "map st_uid ss = [1000, 7]" "length ss = 2"
    using mem by (simp add: start_eq demo_stealer_def)
  then obtain s t where st: "ss = [s, t]" "st_uid s = 1000" "st_uid t = 7"
    by (auto simp: numeral_2_eq_2 length_Suc_conv)
  let ?sys = "\<lambda>dfd name flags mode k. (3 :: int, k + 1 :: nat)"
  have "sys_call True 0x9000 (loaded_code ss) 0x1000 ?sys 1000 [10 \<mapsto> CHR ''a''] 0 10 0 0 7 k' =
      Some (map (spy_line [10 \<mapsto> CHR ''a''] 10 1 \<circ> st_uid) (filter (\<lambda>s. st_uid s = 1000) (rev ss)), 3, 8)"
    using steal_transparent [OF mem _ _ run ends, where current_uid = 1000 and sys_openat = ?sys and dfd = 0
        and flags = 0 and mode = 0 and st = 7 and by_table = True] ss(2)
    by (simp add: demo_stealer_def)
  moreover have "map (spy_line [10 \<mapsto> CHR ''a''] 10 1 \<circ> st_uid) (filter (\<lambda>s. st_uid s = 1000) (rev ss)) =
      [spy_header 1000 @ [CHR ''a'', NUL, LF]]"
    by (simp add: st spy_line_def ustr_def get_user_def)
  ultimately show ?thesis using run by auto
qed

text \<open>
  C25: the search through the kernel's memory, for kernels up to 5.4, finds the first place whose entry
  is \<open>ksys_close\<close> when there is one and everything before it can be read. When there is none and all
  memory can be read it never returns: its last line, which gives up, is never reached.
\<close>

theorem scan_table_search:
  assumes "aligned offset"
  shows "(\<forall>k. mem (offset + of_nat (8 * k) + 8 * nr) = Some f \<and>
      (\<forall>j<k. \<exists>g. mem (offset + of_nat (8 * j) + 8 * nr) = Some g \<and> g \<noteq> f) \<longrightarrow>
      scan_table mem nr f offset = Some (Found (offset + of_nat (8 * k)))) \<and>
    ((\<forall>a. \<exists>g. mem a = Some g \<and> g \<noteq> f) \<longrightarrow> scan_table mem nr f offset = None)"
proof (intro conjI allI impI)
  fix k
  assume "mem (offset + of_nat (8 * k) + 8 * nr) = Some f \<and>
      (\<forall>j<k. \<exists>g. mem (offset + of_nat (8 * j) + 8 * nr) = Some g \<and> g \<noteq> f)"
  then show "scan_table mem nr f offset = Some (Found (offset + of_nat (8 * k)))"
    using assms by (intro scan_table_finds) auto
next
  assume none: "\<forall>a. \<exists>g. mem a = Some g \<and> g \<noteq> f"
  show "scan_table mem nr f offset = None"
  proof (cases "scan_table mem nr f offset")
    case (Some r)
    from scan_table_outcome [OF Some assms] none show ?thesis by (metis option.distinct(1) option.inject)
  qed
qed

text \<open>A memory in which the third place has the entry.\<close>

theorem scan_table_search_witness:
  "scan_table (\<lambda>a. Some (if a = 1000 + 16 + 8 * 3 then 77 else 1)) 3 77 1000 = Some (Found (1000 + of_nat (8 * 2))) \<and>
    scan_table (\<lambda>a. Some 1) 3 77 1000 = None"
proof -
  have al: "aligned 1000" by (simp add: aligned_def)
  let ?mem = "\<lambda>a :: 64 word. Some (if a = 1000 + 16 + 8 * 3 then 77 else 1 :: 64 word)"
  have "?mem (1000 + of_nat (8 * 2) + 8 * 3) = Some 77 \<and>
      (\<forall>j<2. \<exists>g. ?mem (1000 + of_nat (8 * j) + 8 * 3) = Some g \<and> g \<noteq> 77)"
    by (auto simp: less_2_cases_iff)
  moreover have "\<forall>a :: 64 word. \<exists>g. Some 1 = Some g \<and> g \<noteq> (77 :: 64 word)" by simp
  ultimately show ?thesis
    using scan_table_search [OF al, of ?mem 3 77, THEN conjunct1, THEN spec [of _ 2]]
      scan_table_search [OF al, of "\<lambda>_. Some 1" 3 77, THEN conjunct2] by simp
qed

end
