(* ===== verification/Vnetloop.thy ===== *)
theory Vnetloop
  imports Lifecycle Transition
begin

unbundle bit_operations_syntax

text \<open>
  examples/vnetloop.c: an Ethernet device that hands every transmitted packet back to the receive path
  and counts packets and bytes. A packet is the list of its bytes. The statistics are kept in four
  counters of 64 bits under a \<open>u64_stats_sync\<close>: the transmit path updates them between two marks, and a
  reader that saw an update begin starts again. \<open>eth_type_trans\<close> of the kernel is a parameter.
\<close>

subsection \<open>The device\<close>

datatype counter = Tx_packets | Tx_bytes | Rx_packets | Rx_bytes

text \<open>There are four counters, so what holds of each of them can be evaluated.\<close>

instantiation counter :: enum
begin

definition enum_counter :: "counter list" where
  "enum_counter = [Tx_packets, Tx_bytes, Rx_packets, Rx_bytes]"

definition enum_all_counter :: "(counter \<Rightarrow> bool) \<Rightarrow> bool" where
  "enum_all_counter P \<longleftrightarrow> P Tx_packets \<and> P Tx_bytes \<and> P Rx_packets \<and> P Rx_bytes"

definition enum_ex_counter :: "(counter \<Rightarrow> bool) \<Rightarrow> bool" where
  "enum_ex_counter P \<longleftrightarrow> P Tx_packets \<or> P Tx_bytes \<or> P Rx_packets \<or> P Rx_bytes"

instance
proof
  have UNIV: "c \<in> set [Tx_packets, Tx_bytes, Rx_packets, Rx_bytes]" for c by (cases c) simp_all
  then show "(UNIV :: counter set) = set enum_class.enum" by (auto simp only: enum_counter_def)
  show "distinct (enum_class.enum :: counter list)" by (simp add: enum_counter_def)
  fix P :: "counter \<Rightarrow> bool"
  have "(\<forall>c. P c) \<longleftrightarrow> (\<forall>c\<in>set [Tx_packets, Tx_bytes, Rx_packets, Rx_bytes]. P c)" using UNIV by blast
  then show "enum_class.enum_all P \<longleftrightarrow> Ball UNIV P" by (simp add: enum_all_counter_def)
  have "(\<exists>c. P c) \<longleftrightarrow> (\<exists>c\<in>set [Tx_packets, Tx_bytes, Rx_packets, Rx_bytes]. P c)" using UNIV by blast
  then show "enum_class.enum_ex P \<longleftrightarrow> Bex UNIV P" by (simp add: enum_ex_counter_def)
qed

end

type_synonym vnetloop_priv = "counter \<Rightarrow> 64 word"
type_synonym packet = "8 word list"

record 'proto vnetloop =
  vn_priv :: vnetloop_priv
  vn_received :: "('proto \<times> packet) list"     \<comment> \<open>given to \<open>netif_rx\<close>, the last one last\<close>
  vn_carrier :: bool
  vn_queue :: bool

text \<open>\<open>skb->len\<close>, an \<open>unsigned int\<close>.\<close>

definition skb_len :: "packet \<Rightarrow> 32 word" where
  "skb_len skb = of_nat (length skb)"

text \<open>One addition to a counter, and those of a transmission, in the order of the code.\<close>

definition bump :: "vnetloop_priv \<Rightarrow> counter \<times> 64 word \<Rightarrow> vnetloop_priv" where
  "bump priv u = priv(fst u := priv (fst u) + snd u)"

definition xmit_updates :: "32 word \<Rightarrow> 32 word option \<Rightarrow> (counter \<times> 64 word) list" where
  "xmit_updates len rx_len =
     (case rx_len of
        Some rx \<Rightarrow> [(Tx_packets, 1), (Tx_bytes, ucast len), (Rx_packets, 1), (Rx_bytes, ucast rx)]
      | None \<Rightarrow> [(Tx_packets, 1), (Tx_bytes, ucast len)])"

text \<open>
  \<open>vnetloop_xmit\<close>; \<open>copied\<close> says whether \<open>skb_copy\<close> found memory. The result is always
  \<open>NETDEV_TX_OK\<close>, which is 0.
\<close>

definition vnetloop_xmit ::
    "(packet \<Rightarrow> 'proto \<times> packet) \<Rightarrow> bool \<Rightarrow> packet \<Rightarrow> 'proto vnetloop \<Rightarrow> 'proto vnetloop \<times> int" where
  "vnetloop_xmit eth_type_trans copied skb s =
     (let len = skb_len skb
      in if copied then
           (let (protocol, rx_skb) = eth_type_trans skb
            in (s\<lparr>vn_priv := foldl bump (vn_priv s) (xmit_updates len (Some (skb_len rx_skb))),
                  vn_received := vn_received s @ [(protocol, rx_skb)]\<rparr>, 0))
         else (s\<lparr>vn_priv := foldl bump (vn_priv s) (xmit_updates len None)\<rparr>, 0))"

definition vnetloop_open :: "'proto vnetloop \<Rightarrow> 'proto vnetloop \<times> int" where
  "vnetloop_open s = (s\<lparr>vn_carrier := True, vn_queue := True\<rparr>, 0)"

definition vnetloop_stop :: "'proto vnetloop \<Rightarrow> 'proto vnetloop \<times> int" where
  "vnetloop_stop s = (s\<lparr>vn_queue := False, vn_carrier := False\<rparr>, 0)"

text \<open>
  The table of functions the network stack calls, and what \<open>vnetloop_setup\<close> puts into a new
  \<open>struct net_device\<close>; the random address is the kernel's. The parameter of the table is the type of
  the function that reads the statistics.
\<close>

record ('proto, 'stats) net_device_ops =
  ndo_open :: "'proto vnetloop \<Rightarrow> 'proto vnetloop \<times> int"
  ndo_stop :: "'proto vnetloop \<Rightarrow> 'proto vnetloop \<times> int"
  ndo_start_xmit :: "bool \<Rightarrow> packet \<Rightarrow> 'proto vnetloop \<Rightarrow> 'proto vnetloop \<times> int"
  ndo_get_stats64 :: 'stats

record ('proto, 'stats) net_device =
  nd_netdev_ops :: "('proto, 'stats) net_device_ops option"
  nd_flags :: "32 word"
  nd_features :: "64 word"
  nd_addr :: "8 word list"

definition IFF_NOARP :: "32 word" where "IFF_NOARP = 0x80"
definition NETIF_F_HW_CSUM :: "64 word" where "NETIF_F_HW_CSUM = 8"

text \<open>
  The device as \<open>alloc_etherdev\<close> makes it: with cleared private data, the carrier on and the queue not
  stopped. \<open>vnetloop_init\<close> changes neither.
\<close>

definition vnetloop_start :: "'proto vnetloop" where
  "vnetloop_start = \<lparr>vn_priv = (\<lambda>_. 0), vn_received = [], vn_carrier = True, vn_queue = True\<rparr>"

subsection \<open>Loading and unloading\<close>

text \<open>Whether \<open>alloc_etherdev\<close> found memory, and the answer of \<open>register_netdev\<close>.\<close>

definition vnetloop_init :: "bool \<times> int \<Rightarrow> int \<times> kop list" where
  "vnetloop_init e =
     (let (dev, registered) = e
      in if \<not> dev then (- ENOMEM, [])
         else if registered \<noteq> 0
         then (registered, [Acquire (Netdev ''vnetloop%d''), Release (Netdev ''vnetloop%d'')])
         else (0, [Acquire (Netdev ''vnetloop%d''), Acquire (Live_Netdev ''vnetloop%d'')]))"

definition vnetloop_exit :: "bool \<times> int \<Rightarrow> kop list" where
  "vnetloop_exit e = [Release (Live_Netdev ''vnetloop%d''), Release (Netdev ''vnetloop%d'')]"

interpretation vnetloop_mod: module_lifecycle vnetloop_init vnetloop_exit
    "\<lambda>_. {Netdev ''vnetloop%d'', Live_Netdev ''vnetloop%d''}" "\<lambda>_. True"
  by unfold_locales (auto simp: vnetloop_init_def vnetloop_exit_def split: if_splits)

subsection \<open>The counts\<close>

fun xmit_all ::
    "(packet \<Rightarrow> 'proto \<times> packet) \<Rightarrow> (bool \<times> packet) list \<Rightarrow> 'proto vnetloop \<Rightarrow> 'proto vnetloop" where
  "xmit_all ett [] s = s"
| "xmit_all ett ((copied, skb) # rest) s = xmit_all ett rest (fst (vnetloop_xmit ett copied skb s))"

lemma bump_simps [simp]: "bump priv (c, n) d = (if d = c then priv c + n else priv d)"
  by (simp add: bump_def)

text \<open>The packets of a run that could be copied, as they come back.\<close>

definition looped :: "(packet \<Rightarrow> 'proto \<times> packet) \<Rightarrow> (bool \<times> packet) list \<Rightarrow> ('proto \<times> packet) list" where
  "looped ett pkts = map (ett \<circ> snd) (filter fst pkts)"

lemma xmit_received [simp]:
  "vn_received (fst (vnetloop_xmit ett copied skb s)) = vn_received s @ looped ett [(copied, skb)]"
  by (simp add: vnetloop_xmit_def looped_def Let_def split: prod.split)

lemma xmit_counts [simp]:
  "vn_priv (fst (vnetloop_xmit ett copied skb s)) Tx_packets = vn_priv s Tx_packets + 1"
  "vn_priv (fst (vnetloop_xmit ett copied skb s)) Tx_bytes = vn_priv s Tx_bytes + ucast (skb_len skb)"
  "vn_priv (fst (vnetloop_xmit ett copied skb s)) Rx_packets =
     vn_priv s Rx_packets + (if copied then 1 else 0)"
  "vn_priv (fst (vnetloop_xmit ett copied skb s)) Rx_bytes =
     vn_priv s Rx_bytes + (if copied then ucast (skb_len (snd (ett skb))) else 0)"
  by (simp_all add: vnetloop_xmit_def xmit_updates_def Let_def split: prod.split)

lemma xmit_all_counts:
  "vn_received (xmit_all ett pkts s) = vn_received s @ looped ett pkts"
  "vn_priv (xmit_all ett pkts s) Tx_packets = vn_priv s Tx_packets + of_nat (length pkts)"
  "vn_priv (xmit_all ett pkts s) Tx_bytes =
     vn_priv s Tx_bytes + (\<Sum>p\<leftarrow>pkts. ucast (skb_len (snd p)))"
  "vn_priv (xmit_all ett pkts s) Rx_packets = vn_priv s Rx_packets + of_nat (length (looped ett pkts))"
  "vn_priv (xmit_all ett pkts s) Rx_bytes =
     vn_priv s Rx_bytes + (\<Sum>p\<leftarrow>looped ett pkts. ucast (skb_len (snd p)))"
  by (induction ett pkts s rule: xmit_all.induct) (simp_all add: looped_def algebra_simps)

subsection \<open>Reading the statistics while packets are sent\<close>

text \<open>
  \<open>vnetloop_get_stats64\<close> beside the transmit path. On processors with words of 32 bits (\<open>marks\<close>) the
  version counts the marks of the \<open>u64_stats_sync\<close>: it is odd during an update, \<open>u64_stats_fetch_begin\<close>
  waits until it is even, and \<open>u64_stats_fetch_retry\<close> compares it. On those with words of 64 bits a
  counter is read in one access, and the marks are empty: the version stays 0. Every access to a counter
  is a step. \<open>sy_sent\<close> is not in the code: it records the lengths of the packets whose update has begun.
\<close>

datatype writer_pc = W_Idle | W_Update "(counter \<times> 64 word) list"

datatype stats_pc =
    S_Begin
  | S_Read nat "counter list" "counter \<Rightarrow> 64 word"  \<comment> \<open>version, counters left to read, \<open>stats\<close>\<close>
  | S_Done "counter \<Rightarrow> 64 word"

record stats_sys =
  sy_priv :: vnetloop_priv
  sy_version :: nat
  sy_writer :: writer_pc
  sy_reader :: stats_pc
  sy_sent :: "(32 word \<times> 32 word option) list"

definition stats_start :: stats_sys where
  "stats_start = \<lparr>sy_priv = (\<lambda>_. 0), sy_version = 0, sy_writer = W_Idle, sy_reader = S_Begin, sy_sent = []\<rparr>"

definition next_version :: "bool \<Rightarrow> nat \<Rightarrow> nat" where
  "next_version marks v = (if marks then Suc v else v)"

inductive xmit_step :: "bool \<Rightarrow> stats_sys \<Rightarrow> stats_sys \<Rightarrow> bool" for marks where
  update_begin: "sy_writer s = W_Idle \<Longrightarrow>
    xmit_step marks s (s\<lparr>sy_version := next_version marks (sy_version s),
      sy_writer := W_Update (xmit_updates len rx_len), sy_sent := sy_sent s @ [(len, rx_len)]\<rparr>)"
| update: "sy_writer s = W_Update (u # us) \<Longrightarrow>
    xmit_step marks s (s\<lparr>sy_priv := bump (sy_priv s) u, sy_writer := W_Update us\<rparr>)"
| update_end: "sy_writer s = W_Update [] \<Longrightarrow>
    xmit_step marks s (s\<lparr>sy_version := next_version marks (sy_version s), sy_writer := W_Idle\<rparr>)"

inductive vnetloop_get_stats64 :: "stats_sys \<Rightarrow> stats_sys \<Rightarrow> bool" where
  fetch_begin: "sy_reader s = S_Begin \<Longrightarrow> even (sy_version s) \<Longrightarrow>
    vnetloop_get_stats64 s (s\<lparr>sy_reader :=
      S_Read (sy_version s) [Tx_packets, Tx_bytes, Rx_packets, Rx_bytes] stats\<rparr>)"
| read_counter: "sy_reader s = S_Read start (c # cs) stats \<Longrightarrow>
    vnetloop_get_stats64 s (s\<lparr>sy_reader := S_Read start cs (stats(c := sy_priv s c))\<rparr>)"
| retry: "sy_reader s = S_Read start [] stats \<Longrightarrow> sy_version s \<noteq> start \<Longrightarrow>
    vnetloop_get_stats64 s (s\<lparr>sy_reader := S_Begin\<rparr>)"
| finish: "sy_reader s = S_Read start [] stats \<Longrightarrow> sy_version s = start \<Longrightarrow>
    vnetloop_get_stats64 s (s\<lparr>sy_reader := S_Done stats\<rparr>)"

definition stats_step :: "bool \<Rightarrow> stats_sys \<Rightarrow> stats_sys \<Rightarrow> bool" where
  "stats_step marks s t \<longleftrightarrow> xmit_step marks s t \<or> vnetloop_get_stats64 s t"

text \<open>What the counters should be after whole packets.\<close>

definition totals :: "(32 word \<times> 32 word option) list \<Rightarrow> vnetloop_priv" where
  "totals sent = foldl bump (\<lambda>_. 0) (concat (map (\<lambda>(len, rx_len). xmit_updates len rx_len) sent))"

lemma totals_snoc: "totals (sent @ [(len, rx_len)]) = foldl bump (totals sent) (xmit_updates len rx_len)"
  by (simp add: totals_def)

definition whole_packets :: "(32 word \<times> 32 word option) list \<Rightarrow> vnetloop_priv \<Rightarrow> bool" where
  "whole_packets sent stats \<longleftrightarrow> (\<exists>n\<le>length sent. stats = totals (take n sent))"

text \<open>One counter as it was after some whole packets.\<close>

definition whole_count :: "(32 word \<times> 32 word option) list \<Rightarrow> counter \<Rightarrow> 64 word \<Rightarrow> bool" where
  "whole_count sent c v \<longleftrightarrow> (\<exists>n\<le>length sent. v = totals (take n sent) c)"

lemma whole_packets_all [simp]: "whole_packets sent (totals sent)"
  unfolding whole_packets_def by (intro exI [of _ "length sent"]) simp

lemma whole_count_all [simp]: "whole_count sent c (totals sent c)"
  unfolding whole_count_def by (intro exI [of _ "length sent"]) simp

lemma whole_count_butlast: "whole_count sent c (totals (butlast sent) c)"
  unfolding whole_count_def by (intro exI [of _ "length sent - 1"]) (simp add: butlast_conv_take)

lemma whole_packets_more: "whole_packets sent stats \<Longrightarrow> whole_packets (sent @ rest) stats"
  unfolding whole_packets_def by (elim exE conjE, rule_tac x = n in exI) simp

lemma whole_count_more: "whole_count sent c v \<Longrightarrow> whole_count (sent @ rest) c v"
  unfolding whole_count_def by (elim exE conjE, rule_tac x = n in exI) simp

lemma foldl_bump_other: "c \<notin> fst ` set us \<Longrightarrow> foldl bump priv us c = priv c"
  by (induction us arbitrary: priv) (auto simp: bump_def)

text \<open>A transmission changes each counter at most once.\<close>

lemma xmit_updates_distinct: "distinct (map fst (xmit_updates len rx_len))"
  by (simp add: xmit_updates_def split: option.split)

text \<open>
  During an update the counters that are still to be changed are as they were before the packet, the
  others as they will be after it.
\<close>

definition stats_writer_inv :: "bool \<Rightarrow> stats_sys \<Rightarrow> bool" where
  "stats_writer_inv marks s \<longleftrightarrow> (\<not> marks \<longrightarrow> sy_version s = 0) \<and> (case sy_writer s of
     W_Idle \<Rightarrow> even (sy_version s) \<and> sy_priv s = totals (sy_sent s)
   | W_Update us \<Rightarrow> (marks \<longrightarrow> odd (sy_version s)) \<and> foldl bump (sy_priv s) us = totals (sy_sent s) \<and>
       distinct (map fst us) \<and> (\<forall>c\<in>fst ` set us. sy_priv s c = totals (butlast (sy_sent s)) c))"

text \<open>What a reader has read since the version it started from is what the counters hold.\<close>

definition stats_reader_inv :: "bool \<Rightarrow> stats_sys \<Rightarrow> bool" where
  "stats_reader_inv marks s \<longleftrightarrow> (case sy_reader s of
     S_Begin \<Rightarrow> True
   | S_Read start cs stats \<Rightarrow> even start \<and> start \<le> sy_version s \<and> length cs \<le> 4 \<and>
       (marks \<and> start = sy_version s \<longrightarrow> (\<forall>c. c \<notin> set cs \<longrightarrow> stats c = sy_priv s c)) \<and>
       (\<forall>c. c \<notin> set cs \<longrightarrow> whole_count (sy_sent s) c (stats c))
   | S_Done stats \<Rightarrow> (marks \<longrightarrow> whole_packets (sy_sent s) stats) \<and>
       (\<forall>c. whole_count (sy_sent s) c (stats c)))"

lemma all_counters: "c \<in> set [Tx_packets, Tx_bytes, Rx_packets, Rx_bytes]"
  using UNIV_I [of c] by (simp only: UNIV_enum enum_counter_def)

lemma writer_inv_reader [simp]: "stats_writer_inv marks (s\<lparr>sy_reader := r\<rparr>) = stats_writer_inv marks s"
  by (simp add: stats_writer_inv_def split: writer_pc.split)

lemma writer_inv_idle:
  "stats_writer_inv marks s \<Longrightarrow> sy_writer s = W_Idle \<Longrightarrow> even (sy_version s) \<and> sy_priv s = totals (sy_sent s)"
  by (simp add: stats_writer_inv_def)

lemma writer_inv_counts:
  assumes "stats_writer_inv marks s"
  shows "whole_count (sy_sent s) c (sy_priv s c)"
proof (cases "sy_writer s")
  case W_Idle
  with assms show ?thesis by (simp add: stats_writer_inv_def)
next
  case (W_Update us)
  show ?thesis
  proof (cases "c \<in> fst ` set us")
    case True
    with assms W_Update have "sy_priv s c = totals (butlast (sy_sent s)) c"
      by (auto simp: stats_writer_inv_def)
    then show ?thesis by (simp add: whole_count_butlast)
  next
    case False
    then have "sy_priv s c = foldl bump (sy_priv s) us c" by (simp add: foldl_bump_other)
    with assms W_Update show ?thesis by (simp add: stats_writer_inv_def)
  qed
qed

lemma xmit_step_writer:
  assumes "xmit_step marks s t" and "stats_writer_inv marks s"
  shows "stats_writer_inv marks t"
  using assms
proof (induction rule: xmit_step.induct)
  case (update_begin s len rx_len)
  then show ?case
    by (auto simp: stats_writer_inv_def next_version_def totals_snoc xmit_updates_distinct)
next
  case (update s u us)
  then show ?case by (cases u) (auto simp: stats_writer_inv_def)
next
  case (update_end s)
  then show ?case by (auto simp: stats_writer_inv_def next_version_def)
qed

lemma xmit_step_reader:
  "xmit_step marks s t \<Longrightarrow> stats_writer_inv marks s \<Longrightarrow> stats_reader_inv marks s \<Longrightarrow> stats_reader_inv marks t"
  by (induction rule: xmit_step.induct)
    (auto simp: stats_writer_inv_def stats_reader_inv_def next_version_def whole_packets_more
      whole_count_more split: stats_pc.splits)

lemma get_stats_inv:
  assumes "vnetloop_get_stats64 s t" and "stats_writer_inv marks s" and "stats_reader_inv marks s"
  shows "stats_writer_inv marks t \<and> stats_reader_inv marks t"
  using assms
proof (induction rule: vnetloop_get_stats64.induct)
  case (fetch_begin s stats)
  then show ?case using all_counters by (auto simp: stats_reader_inv_def)
next
  case (read_counter s start c cs stats)
  then show ?case using writer_inv_counts [OF read_counter(2)] by (simp add: stats_reader_inv_def)
next
  case (finish s start stats)
  then have "even (sy_version s)" "marks \<longrightarrow> stats = sy_priv s" by (auto simp: stats_reader_inv_def)
  then have "marks \<longrightarrow> stats = totals (sy_sent s)"
    using finish by (auto simp: stats_writer_inv_def split: writer_pc.splits)
  with finish show ?case by (simp add: stats_reader_inv_def)
qed (simp_all add: stats_reader_inv_def)

interpretation stats: invariant_system "stats_step marks" stats_start
    "\<lambda>s. stats_writer_inv marks s \<and> stats_reader_inv marks s" for marks
proof unfold_locales
  show "stats_writer_inv marks stats_start \<and> stats_reader_inv marks stats_start"
    by (simp add: stats_start_def stats_writer_inv_def stats_reader_inv_def totals_def)
qed (auto simp: stats_step_def xmit_step_writer xmit_step_reader get_stats_inv)

subsection \<open>The device under the network stack\<close>

definition vnetloop_netdev_ops ::
    "(packet \<Rightarrow> 'proto \<times> packet) \<Rightarrow> ('proto, stats_sys \<Rightarrow> stats_sys \<Rightarrow> bool) net_device_ops" where
  "vnetloop_netdev_ops eth_type_trans =
     \<lparr>ndo_open = vnetloop_open, ndo_stop = vnetloop_stop, ndo_start_xmit = vnetloop_xmit eth_type_trans,
      ndo_get_stats64 = vnetloop_get_stats64\<rparr>"

definition vnetloop_setup ::
    "(packet \<Rightarrow> 'proto \<times> packet) \<Rightarrow> 8 word list \<Rightarrow>
     ('proto, stats_sys \<Rightarrow> stats_sys \<Rightarrow> bool) net_device \<Rightarrow>
     ('proto, stats_sys \<Rightarrow> stats_sys \<Rightarrow> bool) net_device" where
  "vnetloop_setup eth_type_trans random dev =
     dev\<lparr>nd_netdev_ops := Some (vnetloop_netdev_ops eth_type_trans),
         nd_flags := nd_flags dev OR IFF_NOARP,
         nd_features := nd_features dev OR NETIF_F_HW_CSUM,
         nd_addr := random\<rparr>"

text \<open>
  The network stack calls the device through its table: to bring it up when it is down, to bring it
  down when it is up, and with a packet when it is up and its queue is not stopped. It keeps in a flag of
  its own whether the device is up. A device without a table cannot be used.
\<close>

datatype net_event = Ifup | Ifdown | Transmit bool packet

fun net_event_step ::
    "('proto, 'stats) net_device_ops \<Rightarrow> bool \<times> 'proto vnetloop \<Rightarrow> net_event \<Rightarrow> bool \<times> 'proto vnetloop" where
  "net_event_step ops (up, s) Ifup = (if up then (up, s) else (case ndo_open ops s of (s, ret) \<Rightarrow> (ret = 0, s)))"
| "net_event_step ops (up, s) Ifdown = (if up then (False, fst (ndo_stop ops s)) else (up, s))"
| "net_event_step ops (up, s) (Transmit copied skb) =
     (up, if up \<and> vn_queue s then fst (ndo_start_xmit ops copied skb s) else s)"

definition net_run ::
    "('proto, 'stats) net_device \<Rightarrow> 'proto vnetloop \<Rightarrow> net_event list \<Rightarrow> (bool \<times> 'proto vnetloop) option" where
  "net_run dev s evs = map_option (\<lambda>ops. foldl (net_event_step ops) (False, s) evs) (nd_netdev_ops dev)"

text \<open>The packets that meet a device that is up, and whether it is up in the end.\<close>

fun sent_up :: "bool \<Rightarrow> net_event list \<Rightarrow> (bool \<times> packet) list" where
  "sent_up up [] = []"
| "sent_up up (Ifup # evs) = sent_up True evs"
| "sent_up up (Ifdown # evs) = sent_up False evs"
| "sent_up up (Transmit copied skb # evs) = (if up then [(copied, skb)] else []) @ sent_up up evs"

fun ends_up :: "bool \<Rightarrow> net_event list \<Rightarrow> bool" where
  "ends_up up [] = up"
| "ends_up up (Ifup # evs) = ends_up True evs"
| "ends_up up (Ifdown # evs) = ends_up False evs"
| "ends_up up (Transmit copied skb # evs) = ends_up up evs"

lemma xmit_link [simp]:
  "vn_queue (fst (vnetloop_xmit ett copied skb s)) = vn_queue s"
  "vn_carrier (fst (vnetloop_xmit ett copied skb s)) = vn_carrier s"
  by (simp_all add: vnetloop_xmit_def Let_def split: prod.split)

lemma xmit_with_link:
  "fst (vnetloop_xmit ett copied skb (s\<lparr>vn_carrier := c, vn_queue := q\<rparr>)) =
     (fst (vnetloop_xmit ett copied skb s))\<lparr>vn_carrier := c, vn_queue := q\<rparr>"
  by (simp add: vnetloop_xmit_def Let_def split: prod.split)

lemma xmit_all_with_link:
  "xmit_all ett pkts (s\<lparr>vn_carrier := c, vn_queue := q\<rparr>) = (xmit_all ett pkts s)\<lparr>vn_carrier := c, vn_queue := q\<rparr>"
  by (induction ett pkts s rule: xmit_all.induct) (simp_all add: xmit_with_link)

lemma stop_link: "fst (vnetloop_stop s) = s\<lparr>vn_carrier := False, vn_queue := False\<rparr>"
  by (cases s) (simp add: vnetloop_stop_def)

lemma start_link: "vnetloop_start\<lparr>vn_carrier := True, vn_queue := True\<rparr> = vnetloop_start"
  by (simp add: vnetloop_start_def)

text \<open>Carrier and queue in the end: as the device's state, or as they were if it has never been up.\<close>

definition link_on :: "bool \<Rightarrow> bool \<Rightarrow> net_event list \<Rightarrow> bool" where
  "link_on up link evs \<longleftrightarrow> ends_up up evs \<or> (\<not> up \<and> Ifup \<notin> set evs \<and> link)"

text \<open>Bringing the device up and down leaves the counters, and only decides which packets are sent.\<close>

lemma net_run_xmit_all:
  "up \<longrightarrow> link \<Longrightarrow>
    foldl (net_event_step (vnetloop_netdev_ops ett)) (up, s\<lparr>vn_carrier := link, vn_queue := link\<rparr>) evs =
     (ends_up up evs,
      (xmit_all ett (sent_up up evs) s)\<lparr>vn_carrier := link_on up link evs, vn_queue := link_on up link evs\<rparr>)"
proof (induction evs arbitrary: s up link)
  case Nil
  then show ?case by (cases up) (simp_all add: link_on_def)
next
  case (Cons ev evs)
  show ?case
  proof (cases ev)
    case Ifup
    with Cons.prems Cons.IH [of True True s] Cons.IH [of up link s] show ?thesis
      by (cases up) (simp_all add: vnetloop_netdev_ops_def vnetloop_open_def link_on_def)
  next
    case Ifdown
    with Cons.prems Cons.IH [of False False s] Cons.IH [of up link s] show ?thesis
      by (cases up) (simp_all add: vnetloop_netdev_ops_def stop_link link_on_def)
  next
    case (Transmit copied skb)
    with Cons.prems Cons.IH [of up link "fst (vnetloop_xmit ett copied skb s)"] Cons.IH [of up link s] show ?thesis
      by (cases up) (simp_all add: vnetloop_netdev_ops_def xmit_with_link link_on_def)
  qed
qed

subsection \<open>A reader that is left alone\<close>

text \<open>How many steps the reader has left when no version changes any more.\<close>

definition reader_left :: "stats_sys \<Rightarrow> nat" where
  "reader_left s =
     (case sy_reader s of
        S_Begin \<Rightarrow> 6
      | S_Read start cs stats \<Rightarrow> Suc (length cs) + (if sy_version s = start then 0 else 6)
      | S_Done stats \<Rightarrow> 0)"

definition reader_done :: "stats_sys \<Rightarrow> bool" where
  "reader_done s \<longleftrightarrow> (\<exists>stats. sy_reader s = S_Done stats)"

lemma get_stats_quiet:
  "vnetloop_get_stats64 s t \<Longrightarrow>
     sy_writer t = sy_writer s \<and> sy_sent t = sy_sent s \<and> reader_left t < reader_left s"
  by (induction rule: vnetloop_get_stats64.induct) (simp_all add: reader_left_def)

lemma reader_progress:
  assumes "even (sy_version s)" and "\<not> reader_done s"
  shows "\<exists>t. vnetloop_get_stats64 s t"
proof (cases "sy_reader s")
  case S_Begin
  with assms(1) show ?thesis by (blast intro: fetch_begin)
next
  case (S_Read start cs stats)
  then show ?thesis
    by (cases cs; cases "sy_version s = start") (blast intro: read_counter retry finish)+
next
  case (S_Done stats)
  with assms(2) show ?thesis by (simp add: reader_done_def)
qed

interpretation stats_alone: terminating_system vnetloop_get_stats64 stats_start
    "\<lambda>s. stats_writer_inv marks s \<and> stats_reader_inv marks s \<and> sy_writer s = W_Idle" reader_done reader_left
    for marks
proof unfold_locales
  fix s
  assume "stats_writer_inv marks s \<and> stats_reader_inv marks s \<and> sy_writer s = W_Idle" "\<not> reader_done s"
  then show "\<exists>t. vnetloop_get_stats64 s t"
    using writer_inv_idle by (blast intro: reader_progress)
qed (use stats.inv_start get_stats_inv get_stats_quiet in \<open>auto simp: stats_start_def\<close>)

text \<open>What a reader that began when nothing was sent has read is what the counters hold.\<close>

definition reader_fresh :: "stats_sys \<Rightarrow> bool" where
  "reader_fresh s \<longleftrightarrow> (case sy_reader s of
     S_Begin \<Rightarrow> True
   | S_Read start cs stats \<Rightarrow> start = sy_version s \<and> (\<forall>c. c \<notin> set cs \<longrightarrow> stats c = sy_priv s c)
   | S_Done stats \<Rightarrow> stats = sy_priv s)"

lemma get_stats_fresh:
  "vnetloop_get_stats64 s t \<Longrightarrow> reader_fresh s \<Longrightarrow> reader_fresh t \<and> sy_priv t = sy_priv s"
proof (induction rule: vnetloop_get_stats64.induct)
  case (fetch_begin s stats)
  then show ?case using all_counters by (auto simp: reader_fresh_def)
qed (auto simp: reader_fresh_def)

lemma reads_fresh:
  "reachable vnetloop_get_stats64 s t \<Longrightarrow> reader_fresh s \<Longrightarrow> reader_fresh t \<and> sy_priv t = sy_priv s"
  by (induction rule: reachable.induct) (auto dest: get_stats_fresh)

subsection \<open>Properties\<close>

text \<open>The state and the statistics of a reader that meets one packet of 60 bytes that could not be copied.\<close>

definition stats_at :: "vnetloop_priv \<Rightarrow> nat \<Rightarrow> writer_pc \<Rightarrow> stats_pc \<Rightarrow> stats_sys" where
  "stats_at priv v w r = \<lparr>sy_priv = priv, sy_version = v, sy_writer = w, sy_reader = r, sy_sent = [(60, None)]\<rparr>"

lemma one_packet_sent:
  "reachable (stats_step True) stats_start (stats_at (totals [(60, None)]) 2 W_Idle S_Begin)"
proof -
  have "step_path (stats_step True) stats_start
      [stats_at (\<lambda>_. 0) 1 (W_Update [(Tx_packets, 1), (Tx_bytes, 60)]) S_Begin,
       stats_at (bump (\<lambda>_. 0) (Tx_packets, 1)) 1 (W_Update [(Tx_bytes, 60)]) S_Begin,
       stats_at (totals [(60, None)]) 1 (W_Update []) S_Begin,
       stats_at (totals [(60, None)]) 2 W_Idle S_Begin]"
    by (auto simp: stats_step_def stats_start_def stats_at_def xmit_step.simps next_version_def
        xmit_updates_def totals_def intro!: exI [of _ 60] exI [of _ None])
  from reachable_path [OF this] show ?thesis by simp
qed

text \<open>
  C27: under the network stack, through the table that \<open>vnetloop_setup\<close> puts into the device: of the
  packets given to the device while it is up, those that could be copied come back in order, once each,
  through \<open>eth_type_trans\<close>, and nothing else comes back; the counters of sent packets and bytes count
  all of them, those of received ones the copies as they came back, and they outlive bringing the device
  down; every transmission reports success. Once the device has been up for the first time, its carrier
  is on and its queue runs exactly while it is up; before that both are as \<open>alloc_etherdev\<close> has left them,
  that is, the carrier is on although the device is down.
\<close>

theorem vnetloop_loops_back:
  "(\<exists>t. net_run (vnetloop_setup ett random dev) vnetloop_start evs = Some (ends_up False evs, t) \<and>
      (let sent = sent_up False evs; back = map (ett \<circ> snd) (filter fst sent)
       in vn_received t = back \<and>
          vn_priv t Tx_packets = of_nat (length sent) \<and>
          vn_priv t Tx_bytes = (\<Sum>p\<leftarrow>sent. ucast (skb_len (snd p))) \<and>
          vn_priv t Rx_packets = of_nat (length back) \<and>
          vn_priv t Rx_bytes = (\<Sum>p\<leftarrow>back. ucast (skb_len (snd p))) \<and>
          vn_carrier t = (if Ifup \<in> set evs then ends_up False evs else True) \<and>
          vn_queue t = (if Ifup \<in> set evs then ends_up False evs else True))) \<and>
   snd (vnetloop_xmit ett copied skb s) = 0"
proof -
  have "foldl (net_event_step (vnetloop_netdev_ops ett)) (False, vnetloop_start) evs =
      (ends_up False evs, (xmit_all ett (sent_up False evs) vnetloop_start)
        \<lparr>vn_carrier := link_on False True evs, vn_queue := link_on False True evs\<rparr>)"
    using net_run_xmit_all [of False True ett vnetloop_start evs] by (simp only: start_link simp_thms)
  then have "net_run (vnetloop_setup ett random dev) vnetloop_start evs =
      Some (ends_up False evs, (xmit_all ett (sent_up False evs) vnetloop_start)
        \<lparr>vn_carrier := link_on False True evs, vn_queue := link_on False True evs\<rparr>)"
    by (simp add: net_run_def vnetloop_setup_def)
  moreover have "snd (vnetloop_xmit ett copied skb s) = 0"
    by (simp add: vnetloop_xmit_def Let_def split: prod.split)
  ultimately show ?thesis
    by (simp add: xmit_all_counts looped_def Let_def) (simp add: vnetloop_start_def link_on_def)
qed

text \<open>
  C18: the statistics a reader gets beside transmissions on another processor: each counter is what it
  was after some number of whole packets, and where the processor's words have 32 bits, so that the
  marks of the update are in force, all four are from the same number of packets.
\<close>

theorem vnetloop_stats_consistent:
  assumes "reachable (stats_step marks) stats_start s" and "sy_reader s = S_Done stats"
  shows "(\<forall>c. \<exists>n\<le>length (sy_sent s). stats c = totals (take n (sy_sent s)) c) \<and>
    (marks \<longrightarrow> (\<exists>n\<le>length (sy_sent s). stats = totals (take n (sy_sent s))))"
  using stats.reachable_inv [OF assms(1)] assms(2)
  by (simp add: stats_reader_inv_def whole_packets_def whole_count_def)

text \<open>
  C26: a reader of the statistics is held up only by transmissions: when none is under way and none
  begins, whatever it has read so far, it is finished after at most eleven steps, however it came there;
  and a reader that begins then gets the counts of all packets that were sent.
\<close>

theorem vnetloop_stats_settle:
  assumes "reachable (stats_step marks) stats_start s" and "sy_writer s = W_Idle"
  shows "(step_path vnetloop_get_stats64 s ts \<longrightarrow> length ts \<le> 11) \<and>
    (\<exists>u stats. reachable vnetloop_get_stats64 s u \<and> sy_reader u = S_Done stats) \<and>
    (reachable vnetloop_get_stats64 s t \<and> (\<nexists>u. vnetloop_get_stats64 t u) \<longrightarrow>
      (\<exists>stats. sy_reader t = S_Done stats \<and> (sy_reader s = S_Begin \<longrightarrow> stats = totals (sy_sent s))))"
proof -
  have inv: "stats_writer_inv marks s \<and> stats_reader_inv marks s \<and> sy_writer s = W_Idle"
    using stats.reachable_inv [OF assms(1)] assms(2) by simp
  have "reader_left s \<le> 11"
    using inv by (auto simp: reader_left_def stats_reader_inv_def split: stats_pc.split)
  then have bound: "step_path vnetloop_get_stats64 s ts \<longrightarrow> length ts \<le> 11"
    using stats_alone.path_bound [OF _ inv] order_trans by blast
  have last: "\<exists>stats. sy_reader t = S_Done stats \<and> (sy_reader s = S_Begin \<longrightarrow> stats = totals (sy_sent s))"
    if t: "reachable vnetloop_get_stats64 s t" "\<nexists>u. vnetloop_get_stats64 t u"
  proof -
    obtain stats where stats: "sy_reader t = S_Done stats"
      using stats_alone.progress [OF stats_alone.reachable_from_inv [OF t(1) inv]] t(2)
      by (auto simp: reader_done_def)
    moreover have "stats = totals (sy_sent s)" if "sy_reader s = S_Begin"
      using reads_fresh [OF t(1)] that stats writer_inv_idle [of marks s] inv by (simp add: reader_fresh_def)
    ultimately show ?thesis by blast
  qed
  from bound last stats_alone.completes [OF inv] show ?thesis by (auto simp: reader_done_def)
qed

theorem vnetloop_stats_settle_witness:
  "\<exists>u stats. reachable vnetloop_get_stats64 (stats_at (totals [(60, None)]) 2 W_Idle S_Begin) u \<and>
    sy_reader u = S_Done stats"
  using vnetloop_stats_settle [OF one_packet_sent] by (simp add: stats_at_def)

theorem vnetloop_stats_consistent_witness:
  "\<exists>s stats. reachable (stats_step True) stats_start s \<and> sy_reader s = S_Done stats \<and> sy_sent s = [(60, None)] \<and>
    stats Tx_packets = 1 \<and> (\<exists>n\<le>length (sy_sent s). stats = totals (take n (sy_sent s)))"
proof -
  let ?p2 = "totals [(60, None)]"
  let ?at = "\<lambda>cs. stats_at ?p2 2 W_Idle (S_Read 2 cs ?p2)"
  let ?s = "stats_at ?p2 2 W_Idle (S_Done ?p2)"
  have "vnetloop_get_stats64 (stats_at ?p2 2 W_Idle S_Begin) (?at [Tx_packets, Tx_bytes, Rx_packets, Rx_bytes])"
    using vnetloop_get_stats64.fetch_begin [of "stats_at ?p2 2 W_Idle S_Begin" ?p2] by (simp add: stats_at_def)
  moreover have "vnetloop_get_stats64 (?at (c # cs)) (?at cs)" for c cs
    using vnetloop_get_stats64.read_counter [of "?at (c # cs)" 2 c cs ?p2]
    by (simp add: stats_at_def fun_upd_idem)
  moreover have "vnetloop_get_stats64 (?at []) ?s"
    using vnetloop_get_stats64.finish [of "?at []" 2 ?p2] by (simp add: stats_at_def)
  ultimately have r: "step_path vnetloop_get_stats64 (stats_at ?p2 2 W_Idle S_Begin)
      [?at [Tx_packets, Tx_bytes, Rx_packets, Rx_bytes], ?at [Tx_bytes, Rx_packets, Rx_bytes],
       ?at [Rx_packets, Rx_bytes], ?at [Rx_bytes], ?at [], ?s]"
    by (simp only: step_path.simps)
  have "reachable (stats_step True) (stats_at ?p2 2 W_Idle S_Begin) ?s"
    using reachable_path [OF step_path_mono [OF r, of "stats_step True"]] by (simp add: stats_step_def)
  then have reach: "reachable (stats_step True) stats_start ?s" by (rule reachable_trans [OF _ one_packet_sent])
  have fin: "sy_reader ?s = S_Done ?p2" by (simp add: stats_at_def)
  from vnetloop_stats_consistent [OF reach fin] reach fin show ?thesis
    by (intro exI [of _ ?s] exI [of _ ?p2]) (simp add: stats_at_def totals_def xmit_updates_def)
qed

end
