(* ===== verification/Debugfs_File.thy ===== *)
theory Debugfs_File
  imports Lifecycle Cat Vfs
begin

text \<open>
  examples/hello-debugfs-file.c: a text of up to 127 bytes in debugfs that can be read in pieces and
  replaced, and examples/hello-debugfs.c, which exports two variables. The handlers rest on two helpers
  of the kernel (fs/libfs.c), modelled here as documented: they copy between user memory and a buffer
  from the file's offset on, and fail only when nothing could be copied.
\<close>

subsection \<open>The helpers\<close>

text \<open>The memory, the offset and the return value.\<close>

definition simple_read_from_buffer ::
    "nat \<Rightarrow> nat \<Rightarrow> int \<Rightarrow> char list \<Rightarrow> nat \<Rightarrow> umem \<Rightarrow> (umem \<times> int \<times> int) option" where
  "simple_read_from_buffer to count pos from available m =
     (if pos < 0 then Some (m, pos, - EINVAL)
      else if int available \<le> pos \<or> count = 0 then Some (m, pos, 0)
      else (let count = min count (available - nat pos)
            in if nat pos + count > length from then None
               else (let (m, ret) = copy_to_user to (take count (drop (nat pos) from)) m
                     in if ret = count then Some (m, pos, - EFAULT)
                        else Some (m, pos + int (count - ret), int (count - ret)))))"

text \<open>The buffer, the offset and the return value.\<close>

definition simple_write_to_buffer ::
    "char list \<Rightarrow> nat \<Rightarrow> int \<Rightarrow> nat \<Rightarrow> nat \<Rightarrow> umem \<Rightarrow> (char list \<times> int \<times> int) option" where
  "simple_write_to_buffer to available pos from count m =
     (if pos < 0 then Some (to, pos, - EINVAL)
      else if int available \<le> pos \<or> count = 0 then Some (to, pos, 0)
      else (let count = min count (available - nat pos); (bs, res) = copy_from_user from count m
            in case blit to (nat pos) bs of
                 None \<Rightarrow> None
               | Some to \<Rightarrow>
                   if res = count then Some (to, pos, - EFAULT)
                   else Some (to, pos + int (count - res), int (count - res))))"

subsection \<open>The message\<close>

definition MESSAGE_MAX_LEN :: nat where "MESSAGE_MAX_LEN = 128"

record debugfs_msg =
  df_message :: "char list"
  df_message_len :: nat

definition df_hello :: string where "df_hello = ''debugfs says hello'' @ [LF]"

definition debugfs_msg_start :: debugfs_msg where
  "debugfs_msg_start = \<lparr>df_message = df_hello @ zeros (MESSAGE_MAX_LEN - length df_hello),
     df_message_len = length df_hello\<rparr>"

definition message_read :: "debugfs_msg read_handler" where
  "message_read s m buffer len ppos =
     map_option (\<lambda>(m, ppos, ret). (s, m, ppos, ret))
       (simple_read_from_buffer buffer len ppos (df_message s) (df_message_len s) m)"

definition message_write ::
    "debugfs_msg \<Rightarrow> umem \<Rightarrow> nat \<Rightarrow> nat \<Rightarrow> int \<Rightarrow> (debugfs_msg \<times> int \<times> int) option" where
  "message_write s m buffer len ppos =
     (if ppos \<noteq> 0 then Some (s, ppos, - EINVAL)
      else (case simple_write_to_buffer (df_message s) (MESSAGE_MAX_LEN - 1) ppos buffer len m of
              None \<Rightarrow> None
            | Some (message, ppos, copied) \<Rightarrow>
                (let s = s\<lparr>df_message := message\<rparr>
                 in if copied > 0
                    then map_option
                           (\<lambda>message. (s\<lparr>df_message := message, df_message_len := nat ppos\<rparr>, ppos, copied))
                           (wr message ppos NUL)
                    else Some (s, ppos, copied))))"

definition debugfs_inv :: "debugfs_msg \<Rightarrow> bool" where
  "debugfs_inv s \<longleftrightarrow> length (df_message s) = MESSAGE_MAX_LEN \<and> df_message_len s < MESSAGE_MAX_LEN"

definition debugfs_content :: "debugfs_msg \<Rightarrow> string" where
  "debugfs_content s = take (df_message_len s) (df_message s)"

lemma length_debugfs_content [simp]: "debugfs_inv s \<Longrightarrow> length (debugfs_content s) = df_message_len s"
  by (simp add: debugfs_inv_def debugfs_content_def)

lemma debugfs_start: "debugfs_inv debugfs_msg_start" "debugfs_content debugfs_msg_start = df_hello"
  by (simp_all add: debugfs_inv_def debugfs_content_def debugfs_msg_start_def df_hello_def
      MESSAGE_MAX_LEN_def)

interpretation debugfs_reader: copy_reader message_read debugfs_content debugfs_inv
proof unfold_locales
  fix s off m buffer n
  assume inv: "debugfs_inv s" and off: "0 \<le> off" "nat off < length (debugfs_content s)"
    and map: "mapped m buffer (length (take n (drop (nat off) (debugfs_content s))))"
  define d where "d = take n (drop (nat off) (debugfs_content s))"
  have len: "df_message_len s \<le> length (df_message s)" using inv by (simp add: debugfs_inv_def)
  have d: "take (min n (df_message_len s - nat off)) (drop (nat off) (df_message s)) = d"
    by (simp add: d_def debugfs_content_def drop_take min.commute)
  have dlen: "length d = min n (df_message_len s - nat off)"
    using inv by (simp add: d_def min.commute)
  have copy: "copy_to_user buffer d m = (put_str m buffer d, 0)"
    using map by (simp add: d_def copy_to_user_mapped)
  show "message_read s m buffer n off =
      (let d = take n (drop (nat off) (debugfs_content s))
       in Some (s, put_str m buffer d, off + int (length d), int (length d)))"
  proof (cases "n = 0")
    case True
    then show ?thesis using off inv by (simp add: message_read_def simple_read_from_buffer_def)
  next
    case False
    have "\<not> int (df_message_len s) \<le> off"
      "\<not> length (df_message s) < nat off + min n (df_message_len s - nat off)"
      using off inv len by auto
    with False show ?thesis
      unfolding d_def [symmetric] using off inv len d dlen copy
      by (simp add: message_read_def simple_read_from_buffer_def Let_def)
  qed
next
  fix s off m buffer n
  assume "debugfs_inv s" and "off = int (length (debugfs_content s))"
  then show "\<exists>s' m' off'. message_read s m buffer n off = Some (s', m', off', 0)"
    by (simp add: message_read_def simple_read_from_buffer_def)
qed

lemma message_write_eq:
  assumes "debugfs_inv s" and "0 < len" and "mapped m buffer (min len (MESSAGE_MAX_LEN - 1))"
  shows "\<exists>s'. message_write s m buffer len 0 =
      (let k = min len (MESSAGE_MAX_LEN - 1) in Some (s', int k, int k)) \<and>
    debugfs_inv s' \<and> debugfs_content s' = ustr m buffer (min len (MESSAGE_MAX_LEN - 1))"
proof -
  define k where "k = min len (MESSAGE_MAX_LEN - 1)"
  define u where "u = ustr m buffer k"
  have k: "0 < k" "k < length (df_message s)" "k < MESSAGE_MAX_LEN" "length (df_message s) = MESSAGE_MAX_LEN"
    using assms(1,2) by (auto simp: k_def debugfs_inv_def MESSAGE_MAX_LEN_def)
  have kk: "min len (MESSAGE_MAX_LEN - Suc 0) = k" by (simp add: k_def)
  have copy: "copy_from_user buffer k m = (u, 0)"
    using assms(3) by (simp add: k_def u_def copy_from_user_mapped)
  have "length u = k" by (simp add: u_def)
  moreover from this have "blit (df_message s) 0 u = Some (u @ drop k (df_message s))"
    using k by (simp add: blit_0)
  ultimately show ?thesis
    using copy k assms(2) unfolding k_def [symmetric] u_def [symmetric]
    by (simp add: message_write_def simple_write_to_buffer_def Let_def kk debugfs_inv_def
        debugfs_content_def)
qed

subsection \<open>Loading and unloading\<close>

text \<open>
  For whether each of the three creations succeeded. None of the results is looked at: without the
  directory creating the files does nothing, init succeeds in every case, and removing the directory
  removes what is in it, if it exists.
\<close>

record debugfs_env =
  de_dir :: bool
  de_first :: bool
  de_second :: bool

definition debugfs_create :: "string \<Rightarrow> string \<Rightarrow> string \<Rightarrow> debugfs_env \<Rightarrow> kop list" where
  "debugfs_create dir first second e =
     (if de_dir e
      then Acquire (Debugfs dir) # (if de_first e then [Acquire (Debugfs first)] else []) @
             (if de_second e then [Acquire (Debugfs second)] else [])
      else [])"

definition debugfs_remove_recursive :: "string \<Rightarrow> string \<Rightarrow> string \<Rightarrow> debugfs_env \<Rightarrow> kop list" where
  "debugfs_remove_recursive dir first second e =
     (if de_dir e
      then (if de_first e then [Release (Debugfs first)] else []) @
             (if de_second e then [Release (Debugfs second)] else []) @ [Release (Debugfs dir)]
      else [])"

definition hello_debugfs_file_init :: "debugfs_env \<Rightarrow> int \<times> kop list" where
  "hello_debugfs_file_init e = (0, debugfs_create ''lkmpg_debugfs_file'' ''message'' ''blob'' e)"

definition hello_debugfs_file_exit :: "debugfs_env \<Rightarrow> kop list" where
  "hello_debugfs_file_exit e = debugfs_remove_recursive ''lkmpg_debugfs_file'' ''message'' ''blob'' e"

definition hello_debugfs_init :: "debugfs_env \<Rightarrow> int \<times> kop list" where
  "hello_debugfs_init e = (0, debugfs_create ''lkmpg_debugfs'' ''debug_value'' ''debug_enabled'' e)"

definition hello_debugfs_exit :: "debugfs_env \<Rightarrow> kop list" where
  "hello_debugfs_exit e = debugfs_remove_recursive ''lkmpg_debugfs'' ''debug_value'' ''debug_enabled'' e"

fun debugfs_owned :: "string list \<Rightarrow> debugfs_env \<Rightarrow> resource set" where
  "debugfs_owned [dir, first, second] e =
     (if de_dir e
      then {Debugfs dir} \<union> (if de_first e then {Debugfs first} else {}) \<union>
             (if de_second e then {Debugfs second} else {})
      else {})"
| "debugfs_owned _ e = {}"

interpretation debugfs_file_mod: module_lifecycle hello_debugfs_file_init hello_debugfs_file_exit
    "debugfs_owned [''lkmpg_debugfs_file'', ''message'', ''blob'']" "\<lambda>_. True"
  by unfold_locales
    (auto simp: hello_debugfs_file_init_def hello_debugfs_file_exit_def debugfs_create_def debugfs_remove_recursive_def)

interpretation debugfs_mod: module_lifecycle hello_debugfs_init hello_debugfs_exit
    "debugfs_owned [''lkmpg_debugfs'', ''debug_value'', ''debug_enabled'']" "\<lambda>_. True"
  by unfold_locales
    (auto simp: hello_debugfs_init_def hello_debugfs_exit_def debugfs_create_def debugfs_remove_recursive_def)

subsection \<open>The file\<close>

definition message_fops :: "(unit, debugfs_msg) file_operations" where
  "message_fops =
     \<lparr>fop_owner = THIS_MODULE, fop_llseek = Some default_llseek, fop_read = Some message_read,
      fop_write = Some message_write, fop_open = None, fop_release = None\<rparr>"

lemma message_calls [simp]: "call_read message_fops = message_read" "call_write message_fops = message_write"
  by (simp_all add: message_fops_def fop_calls)

interpretation debugfs_io: io_device message_read message_write debugfs_inv "\<lambda>off s. True"
proof unfold_locales
  fix s m buf n and off :: int
  assume s: "debugfs_inv s"
  show "\<exists>s' m' off' ret. message_read s m buf n off = Some (s', m', off', ret) \<and>
      debugfs_inv s' \<and> True \<and> confined m m' buf n \<and> ret \<le> int n"
  proof (cases "off < 0 \<or> int (df_message_len s) \<le> off \<or> n = 0")
    case True
    with s show ?thesis by (auto simp: message_read_def simple_read_from_buffer_def)
  next
    case False
    define k where "k = min n (df_message_len s - nat off)"
    have k: "nat off + k \<le> length (df_message s)" "k \<le> n"
      using s False by (auto simp: k_def debugfs_inv_def)
    obtain m' ret where copy: "copy_to_user buf (take k (drop (nat off) (df_message s))) m = (m', ret)"
      by (cases "copy_to_user buf (take k (drop (nat off) (df_message s))) m")
    from k(2) have "k - ret \<le> n" by simp
    with copy_to_user_take [OF copy k(2)] False s k copy show ?thesis
      by (simp add: message_read_def simple_read_from_buffer_def Let_def k_def [symmetric])
  qed
  show "\<exists>s' off' ret. message_write s m buf n off = Some (s', off', ret) \<and> debugfs_inv s' \<and> True \<and> ret \<le> int n"
  proof (cases "off \<noteq> 0 \<or> n = 0")
    case True
    with s show ?thesis
      by (auto simp: message_write_def simple_write_to_buffer_def debugfs_inv_def MESSAGE_MAX_LEN_def)
  next
    case False
    define k where "k = min n (MESSAGE_MAX_LEN - 1)"
    obtain bs res where bs: "copy_from_user buf k m = (bs, res)" by (cases "copy_from_user buf k m")
    then have "length bs = k" by (metis fst_conv length_copy_from_user)
    moreover have "length (df_message s) = MESSAGE_MAX_LEN" using s by (simp add: debugfs_inv_def)
    ultimately have "length bs \<le> length (df_message s)" by (simp add: k_def)
    from blit_ok [OF this] \<open>length (df_message s) = MESSAGE_MAX_LEN\<close> obtain to where
      to: "blit (df_message s) 0 bs = Some to" "length to = MESSAGE_MAX_LEN" by auto
    have k: "k < MESSAGE_MAX_LEN" "k \<le> n" by (simp_all add: k_def MESSAGE_MAX_LEN_def)
    have kk: "min n (MESSAGE_MAX_LEN - Suc 0) = k" by (simp add: k_def)
    show ?thesis
    proof (cases "res = k")
      case True
      with False s k to bs show ?thesis
        by (simp add: message_write_def simple_write_to_buffer_def Let_def kk debugfs_inv_def)
    next
      case False
      have n: "nat (int k - int res) = k - res" by simp
      have "wr to (int k - int res) NUL = Some (to[k - res := NUL])" if "res < k"
        using k(1) to(2) that by (simp add: wr_def n)
      moreover have "0 < MESSAGE_MAX_LEN - Suc 0" by (simp add: MESSAGE_MAX_LEN_def)
      ultimately have w: "message_write s m buf n off =
          (if 0 < k - res
           then Some (s\<lparr>df_message := to[k - res := NUL], df_message_len := k - res\<rparr>, int (k - res), int (k - res))
           else Some (s\<lparr>df_message := to\<rparr>, 0, 0))"
        using \<open>\<not> (off \<noteq> 0 \<or> n = 0)\<close> False to(1) bs
        by (simp add: message_write_def simple_write_to_buffer_def Let_def kk n)
      show ?thesis
      proof (cases "0 < k - res")
        case True
        with w k to(2) show ?thesis by (auto simp: debugfs_inv_def)
      next
        case False
        with w s to(2) show ?thesis by (simp add: debugfs_inv_def)
      qed
    qed
  qed
qed simp

interpretation message_file: file_device message_fops
    debugfs_inv "\<lambda>off s. True" "\<lambda>k s. True" True debugfs_msg_start
proof (rule file_device.intro, simp only: message_calls, rule debugfs_io.io_device_axioms, unfold_locales)
  show "debugfs_inv debugfs_msg_start \<and> True"
    by (simp add: debugfs_inv_def debugfs_msg_start_def MESSAGE_MAX_LEN_def df_hello_def)
qed (auto simp: message_fops_def fop_calls)

subsection \<open>Properties\<close>

text \<open>
  What is written to the debugfs file at its start (the first 127 bytes, any bytes) replaces the
  whole text and is what a program then reads, in pieces of whatever size it asks for; a write anywhere
  else is refused and changes nothing.
\<close>

theorem debugfs_write_then_cat:
  assumes "debugfs_inv s" and "0 < len" and "mapped m wbuf (min len 127)"
    and "mapped m2 rbuf MAX_BYTES" and "pos \<noteq> 0"
  shows "\<exists>s'. message_write s m wbuf len 0 = Some (s', int (min len 127), int (min len 127)) \<and>
    cat_main 2 prog (vfs_read message_read rbuf) (Inr (s', m2, 0)) =
      Some (ustr m wbuf (min len 127), EXIT_SUCCESS) \<and>
    message_write s' m wbuf len pos = Some (s', pos, - EINVAL)"
proof -
  have k: "MESSAGE_MAX_LEN - Suc 0 = 127" by (simp add: MESSAGE_MAX_LEN_def)
  from message_write_eq [OF assms(1,2), of m wbuf] assms(3) obtain s' where s':
    "message_write s m wbuf len 0 = Some (s', int (min len 127), int (min len 127))"
    "debugfs_inv s'" "debugfs_content s' = ustr m wbuf (min len 127)" by (auto simp: k Let_def)
  have "file_ok debugfs_inv debugfs_content rbuf MAX_BYTES (s', m2, 0)"
    using s'(2) assms(4) by (simp add: file_ok_def)
  from debugfs_reader.seq.cat_main_prints [OF this, of prog] s' assms(5) show ?thesis
    by (simp add: MAX_BYTES_def file_rest_def message_write_def)
qed

theorem debugfs_write_then_cat_witness:
  "\<exists>s'. message_write debugfs_msg_start (\<lambda>_. Some CHR ''x'') 0 500 0 = Some (s', int (min 500 127), int (min 500 127)) \<and>
    cat_main 2 [] (vfs_read message_read 0) (Inr (s', \<lambda>_. Some NUL, 0)) =
      Some (ustr (\<lambda>_. Some CHR ''x'') 0 (min 500 127), EXIT_SUCCESS) \<and>
    message_write s' (\<lambda>_. Some CHR ''x'') 0 500 3 = Some (s', 3, - EINVAL)"
  by (rule debugfs_write_then_cat) (simp_all add: debugfs_start mapped_def)

end
