(* ===== verification/Platform.thy ===== *)
theory Platform
  imports Lifecycle
begin

text \<open>
  Drivers of platform devices: examples/dma.c (allocates and maps memory for a device it makes itself),
  examples/devicetree.c (reads a node of the device tree) and examples/devicemodel.c. A probe function
  that fails leaves its managed (devm) allocations to the driver core, which releases them; registering
  a driver succeeds even if its probe function then fails for the device.
\<close>

subsection \<open>dma.c\<close>

text \<open>The kernel's answers to \<open>dma_demo_probe\<close>, in the order of the calls.\<close>

record dma_answers =
  da_mask :: int                   \<comment> \<open>\<open>dma_set_mask_and_coherent\<close>\<close>
  da_demo :: bool                  \<comment> \<open>memory for the \<open>dma_demo_dev\<close>\<close>
  da_coherent :: "64 word option"  \<comment> \<open>the handle of the coherent buffer\<close>
  da_streaming :: bool             \<comment> \<open>memory for the streaming buffer\<close>
  da_mapped :: "64 word option"    \<comment> \<open>the handle of the mapping\<close>

record dma_demo_dev =
  dd_coherent_handle :: "64 word"
  dd_streaming_buf :: "8 word list"
  dd_streaming_handle :: "64 word"
  dd_coherent_len :: nat
  dd_streaming_len :: nat

text \<open>The return value, what was allocated and mapped, and the data of the device if it was set.\<close>

definition dma_demo_probe ::
    "nat \<Rightarrow> nat \<Rightarrow> dma_answers \<Rightarrow> int \<times> kop list \<times> dma_demo_dev option" where
  "dma_demo_probe coherent_size streaming_size a =
     (if da_mask a \<noteq> 0 then (da_mask a, [], None)
      else if \<not> da_demo a then (- ENOMEM, [], None)
      else (let ops = [Acquire (Heap ''demo'')]
            in case da_coherent a of
                 None \<Rightarrow> (- ENOMEM, ops, None)
               | Some coherent_handle \<Rightarrow>
                   (let ops = ops @ [Acquire (Heap ''coherent'')]
                    in if \<not> da_streaming a then (- ENOMEM, ops, None)
                       else (let ops = ops @ [Acquire (Heap ''streaming'')];
                                 streaming_buf = replicate streaming_size 0x5a
                             in case da_mapped a of
                                  None \<Rightarrow> (- EIO, ops, None)
                                | Some streaming_handle \<Rightarrow>
                                    (0, ops @ [Acquire (Heap ''mapping''), Release (Heap ''mapping'')],
                                     Some \<lparr>dd_coherent_handle = coherent_handle,
                                       dd_streaming_buf = streaming_buf,
                                       dd_streaming_handle = streaming_handle,
                                       dd_coherent_len = coherent_size,
                                       dd_streaming_len = streaming_size\<rparr>)))))"

text \<open>
  What the driver core does when probe has failed or the driver goes: it releases the managed
  allocations that \<open>ops\<close> has made, the last one first. The mapping is not managed.
\<close>

fun acquired :: "kop list \<Rightarrow> resource list" where
  "acquired [] = []"
| "acquired (Acquire r # ops) = r # acquired ops"
| "acquired (_ # ops) = acquired ops"

definition devres_release_all :: "kop list \<Rightarrow> kop list" where
  "devres_release_all ops = map Release (rev (filter (\<lambda>r. r \<noteq> Heap ''mapping'') (acquired ops)))"

text \<open>Loading: the answers to init, and to the probe function that registering the driver calls.\<close>

record dma_env =
  de_alloc :: bool
  de_add :: int
  de_register :: int
  de_coherent_size :: nat
  de_streaming_size :: nat
  de_answers :: dma_answers

definition dma_bound :: "dma_env \<Rightarrow> bool" where
  "dma_bound e = (fst (dma_demo_probe (de_coherent_size e) (de_streaming_size e) (de_answers e)) = 0)"

text \<open>Registering the driver, with the probe of the device that waits for it.\<close>

definition dma_register :: "dma_env \<Rightarrow> kop list" where
  "dma_register e =
     (case dma_demo_probe (de_coherent_size e) (de_streaming_size e) (de_answers e) of
        (ret, ops, data) \<Rightarrow>
          Acquire (Pdrv ''lkmpg_dma_demo'') # ops @ (if ret = 0 then [] else devres_release_all ops))"

definition dma_demo_init :: "dma_env \<Rightarrow> int \<times> kop list" where
  "dma_demo_init e =
     (if \<not> de_alloc e then (- ENOMEM, [])
      else (let ops = [Acquire (Pdev ''lkmpg_dma_demo'')]
            in if de_add e \<noteq> 0 then (de_add e, ops @ [Release (Pdev ''lkmpg_dma_demo'')])
               else (let ops = ops @ [Acquire (Live_Pdev ''lkmpg_dma_demo'')]
                     in if de_register e \<noteq> 0
                        then (de_register e, ops @ [Release (Live_Pdev ''lkmpg_dma_demo''),
                                Release (Pdev ''lkmpg_dma_demo'')])
                        else (0, ops @ dma_register e))))"

text \<open>The driver's remove function only prints; the core releases what probe has allocated.\<close>

definition dma_demo_exit :: "dma_env \<Rightarrow> kop list" where
  "dma_demo_exit e =
     (case dma_demo_probe (de_coherent_size e) (de_streaming_size e) (de_answers e) of
        (ret, ops, data) \<Rightarrow> (if ret = 0 then devres_release_all ops else [])) @
     [Release (Pdrv ''lkmpg_dma_demo''), Release (Live_Pdev ''lkmpg_dma_demo''),
      Release (Pdev ''lkmpg_dma_demo'')]"

definition dma_owned :: "dma_env \<Rightarrow> resource set" where
  "dma_owned e = {Pdev ''lkmpg_dma_demo'', Live_Pdev ''lkmpg_dma_demo'', Pdrv ''lkmpg_dma_demo''} \<union>
     (if dma_bound e then {Heap ''demo'', Heap ''coherent'', Heap ''streaming''} else {})"

lemma dma_probe_ops:
  assumes "dma_demo_probe coherent_size streaming_size a = (ret, ops, data)"
  shows "ret = 0 \<Longrightarrow> ops = [Acquire (Heap ''demo''), Acquire (Heap ''coherent''),
      Acquire (Heap ''streaming''), Acquire (Heap ''mapping''), Release (Heap ''mapping'')]"
    and "ret \<noteq> 0 \<Longrightarrow> ops \<in> {[], [Acquire (Heap ''demo'')],
      [Acquire (Heap ''demo''), Acquire (Heap ''coherent'')],
      [Acquire (Heap ''demo''), Acquire (Heap ''coherent''), Acquire (Heap ''streaming'')]}"
  using assms by (auto simp: dma_demo_probe_def Let_def split: if_splits option.splits)

text \<open>A probe that fails leaves nothing behind, one that succeeds its three buffers.\<close>

lemma dma_register_run:
  "kops_run (dma_register e) {Live_Pdev ''lkmpg_dma_demo'', Pdev ''lkmpg_dma_demo''} = Some (dma_owned e)"
proof -
  obtain ret ops data where probe:
    "dma_demo_probe (de_coherent_size e) (de_streaming_size e) (de_answers e) = (ret, ops, data)"
    by (metis prod_cases3)
  show ?thesis
  proof (cases "ret = 0")
    case True
    with probe dma_probe_ops(1) [OF probe] show ?thesis
      by (simp add: dma_register_def dma_owned_def dma_bound_def) auto
  next
    case False
    with dma_probe_ops(2) [OF probe] consider "ops = []" | "ops = [Acquire (Heap ''demo'')]"
      | "ops = [Acquire (Heap ''demo''), Acquire (Heap ''coherent'')]"
      | "ops = [Acquire (Heap ''demo''), Acquire (Heap ''coherent''), Acquire (Heap ''streaming'')]"
      by blast
    then show ?thesis using False probe
      by cases (simp add: dma_register_def dma_owned_def dma_bound_def devres_release_all_def; auto)+
  qed
qed

lemma dma_exit_run: "kops_run (dma_demo_exit e) (dma_owned e) = Some {}"
proof -
  obtain ret ops data where probe:
    "dma_demo_probe (de_coherent_size e) (de_streaming_size e) (de_answers e) = (ret, ops, data)"
    by (metis prod_cases3)
  show ?thesis
  proof (cases "ret = 0")
    case True
    with probe dma_probe_ops(1) [OF probe] show ?thesis
      by (simp add: dma_demo_exit_def dma_owned_def dma_bound_def devres_release_all_def) auto
  next
    case False
    with probe show ?thesis by (simp add: dma_demo_exit_def dma_owned_def dma_bound_def) auto
  qed
qed

interpretation dma_mod: module_lifecycle dma_demo_init dma_demo_exit dma_owned "\<lambda>_. True"
  by unfold_locales (auto simp: dma_demo_init_def dma_register_run dma_exit_run Let_def split: if_splits)

subsection \<open>devicetree.c\<close>

text \<open>What \<open>of_property_read_string\<close>, \<open>of_property_read_u32\<close> and \<open>of_property_read_bool\<close> find in a node.\<close>

record dt_node =
  dn_label :: "string option"
  dn_reg :: "32 word option"
  dn_custom_value :: "32 word option"
  dn_has_clock :: bool

record dt_device_data =
  dt_label :: string
  dt_reg_value :: "32 word"
  dt_custom_value :: "32 word"
  dt_has_clock :: bool

text \<open>\<open>dt_probe\<close>, for whether there is memory. The structure starts zeroed; \<open>reg\<close> has no other default.\<close>

definition dt_probe :: "bool \<Rightarrow> dt_node \<Rightarrow> int \<times> dt_device_data option" where
  "dt_probe kzalloc np =
     (if \<not> kzalloc then (- ENOMEM, None)
      else (let data = \<lparr>dt_label = [], dt_reg_value = 0, dt_custom_value = 0, dt_has_clock = False\<rparr>;
                data = (case dn_label np of
                          Some string_prop \<Rightarrow> data\<lparr>dt_label := string_prop\<rparr>
                        | None \<Rightarrow> data\<lparr>dt_label := ''unnamed''\<rparr>);
                data = (case dn_reg np of
                          Some v \<Rightarrow> data\<lparr>dt_reg_value := v\<rparr>
                        | None \<Rightarrow> data);
                data = (case dn_custom_value np of
                          Some v \<Rightarrow> data\<lparr>dt_custom_value := v\<rparr>
                        | None \<Rightarrow> data\<lparr>dt_custom_value := 42\<rparr>);
                data = data\<lparr>dt_has_clock := dn_has_clock np\<rparr>
            in (0, Some data)))"

text \<open>\<open>dt_remove\<close> prints the label of the data that probe has stored with the device.\<close>

definition dt_remove :: "dt_device_data option \<Rightarrow> string option" where
  "dt_remove drvdata = map_option (\<lambda>data. ''lkmpg_devicetree: Removing device '' @ dt_label data @ [LF]) drvdata"

definition dt_init :: "int \<Rightarrow> int \<times> kop list" where
  "dt_init registered =
     (if registered \<noteq> 0 then (registered, []) else (0, [Acquire (Pdrv ''lkmpg_devicetree'')]))"

definition dt_exit :: "int \<Rightarrow> kop list" where
  "dt_exit registered = [Release (Pdrv ''lkmpg_devicetree'')]"

interpretation dt_mod: module_lifecycle dt_init dt_exit "\<lambda>_. {Pdrv ''lkmpg_devicetree''}" "\<lambda>_. True"
  by unfold_locales (auto simp: dt_init_def dt_exit_def split: if_splits)

text \<open>Every property of a node arrives, with the stated defaults, whatever else the node has.\<close>

lemma dt_probe_reads:
  "dt_probe True np = (0, Some \<lparr>dt_label = (case dn_label np of Some l \<Rightarrow> l | None \<Rightarrow> ''unnamed''),
     dt_reg_value = (case dn_reg np of Some v \<Rightarrow> v | None \<Rightarrow> 0),
     dt_custom_value = (case dn_custom_value np of Some v \<Rightarrow> v | None \<Rightarrow> 42),
     dt_has_clock = dn_has_clock np\<rparr>)"
  by (simp add: dt_probe_def Let_def split: option.split)

subsection \<open>devicemodel.c\<close>

text \<open>
  \<open>devicemodel_probe\<close>: the return value and the line printed; \<open>None\<close> when the device has no platform
  data, whose pointer is followed without a test.
\<close>

definition devicemodel_probe :: "(string \<times> int) option \<Rightarrow> (int \<times> string) option" where
  "devicemodel_probe platform_data =
     map_option (\<lambda>(greeting, number).
       (0, ''devicemodel greeting: '' @ greeting @ ''; '' @ dec_int number @ [LF])) platform_data"

text \<open>The callbacks of power management print a line and succeed.\<close>

definition devicemodel_suspend :: "string \<times> int" where
  "devicemodel_suspend = (''devicemodel example suspend'' @ [LF], 0)"

definition devicemodel_resume :: "string \<times> int" where
  "devicemodel_resume = (''devicemodel example resume'' @ [LF], 0)"

definition devicemodel_init :: "int \<Rightarrow> int \<times> kop list" where
  "devicemodel_init registered =
     (if registered \<noteq> 0 then (registered, []) else (0, [Acquire (Pdrv ''devicemodel_example'')]))"

definition devicemodel_exit :: "int \<Rightarrow> kop list" where
  "devicemodel_exit registered = [Release (Pdrv ''devicemodel_example'')]"

interpretation devicemodel_mod: module_lifecycle devicemodel_init devicemodel_exit
    "\<lambda>_. {Pdrv ''devicemodel_example''}" "\<lambda>_. True"
  by unfold_locales (auto simp: devicemodel_init_def devicemodel_exit_def split: if_splits)

end
