(* ===== verification/Platform_Bus.thy ===== *)
theory Platform_Bus
  imports Platform
begin

text \<open>
  The driver structures of devicetree.c, dma.c and devicemodel.c, and the platform bus that calls them:
  devices come and go, the driver is loaded and unloaded, and every device that matches a loaded driver
  is probed. The locale \<open>probing_driver\<close> is what a driver promises for one device; from it follows what
  holds of all devices after any sequence of these events.
\<close>

subsection \<open>Drivers and devices\<close>

text \<open>
  A driver's probe function gets what the kernel answers to its calls and what the device has to say of
  itself, and leaves the data it stores with the device; a function that follows a NULL pointer is
  \<open>None\<close>. The remove function yields what it prints.
\<close>

record dev_pm_ops =
  pm_suspend :: "string \<times> int"
  pm_resume :: "string \<times> int"
  pm_poweroff :: "string \<times> int"
  pm_freeze :: "string \<times> int"
  pm_thaw :: "string \<times> int"
  pm_restore :: "string \<times> int"

record ('e, 'n, 'd) platform_driver =
  pd_name :: string
  pd_of_match :: "string list"
  pd_probe :: "'e \<Rightarrow> 'n \<Rightarrow> (int \<times> 'd option) option"
  pd_remove :: "'d option \<Rightarrow> string option"
  pd_pm :: "dev_pm_ops option"

record 'n platform_device =
  dv_name :: string
  dv_compatible :: "string list"
  dv_node :: 'n

definition dt_match_table :: "string list" where
  "dt_match_table = [''lkmpg,example-device'', ''lkmpg,another-device'']"

definition dt_driver :: "(bool, dt_node, dt_device_data) platform_driver" where
  "dt_driver = \<lparr>pd_name = ''lkmpg_devicetree'', pd_of_match = dt_match_table,
     pd_probe = (\<lambda>kzalloc np. Some (dt_probe kzalloc np)), pd_remove = dt_remove, pd_pm = None\<rparr>"

definition dma_demo_remove :: string where
  "dma_demo_remove = ''DMA demo removed'' @ [LF]"

text \<open>The device of dma.c says nothing of itself; the sizes are parameters of the module.\<close>

definition dma_demo_driver :: "nat \<Rightarrow> nat \<Rightarrow> (dma_answers, unit, dma_demo_dev) platform_driver" where
  "dma_demo_driver coherent_size streaming_size =
     \<lparr>pd_name = ''lkmpg_dma_demo'', pd_of_match = [],
      pd_probe = (\<lambda>a _. case dma_demo_probe coherent_size streaming_size a of (ret, _, data) \<Rightarrow> Some (ret, data)),
      pd_remove = (\<lambda>_. Some dma_demo_remove), pd_pm = None\<rparr>"

definition devicemodel_remove :: string where
  "devicemodel_remove = ''devicemodel example removed'' @ [LF]"

definition devicemodel_pm_ops :: dev_pm_ops where
  "devicemodel_pm_ops =
     \<lparr>pm_suspend = devicemodel_suspend, pm_resume = devicemodel_resume,
      pm_poweroff = devicemodel_suspend, pm_freeze = devicemodel_suspend,
      pm_thaw = devicemodel_resume, pm_restore = devicemodel_resume\<rparr>"

text \<open>devicemodel.c stores no data with its devices, whose platform data it prints.\<close>

definition devicemodel_driver :: "(unit, (string \<times> int) option, unit) platform_driver" where
  "devicemodel_driver =
     \<lparr>pd_name = ''devicemodel_example'', pd_of_match = [],
      pd_probe = (\<lambda>_ pd. map_option (\<lambda>(ret, _). (ret, None)) (devicemodel_probe pd)),
      pd_remove = (\<lambda>_. Some devicemodel_remove), pd_pm = Some devicemodel_pm_ops\<rparr>"

text \<open>
  A driver is for a device if an entry of its table is among the device's compatible strings, as the
  kernel's comparison \<open>same\<close> has it, or if they have one name.
\<close>

definition platform_match ::
    "(string \<Rightarrow> string \<Rightarrow> bool) \<Rightarrow> ('e, 'n, 'd) platform_driver \<Rightarrow> 'n platform_device \<Rightarrow> bool" where
  "platform_match same drv dev \<longleftrightarrow>
     (\<exists>c\<in>set (pd_of_match drv). \<exists>c'\<in>set (dv_compatible dev). same c c') \<or> dv_name dev = pd_name drv"

subsection \<open>The bus\<close>

text \<open>The devices, in the order they came, those bound to the driver with their data, and what was printed.\<close>

record ('n, 'd) bus =
  bus_devs :: "(nat \<times> 'n platform_device) list"
  bus_bound :: "nat \<rightharpoonup> 'd option"
  bus_loaded :: bool
  bus_log :: "string list"

definition bus_start :: "('n, 'd) bus" where
  "bus_start = \<lparr>bus_devs = [], bus_bound = Map.empty, bus_loaded = False, bus_log = []\<rparr>"

datatype ('e, 'n) bus_event =
    Device_Add nat "'n platform_device" 'e
  | Device_Del nat
  | Driver_Load "nat \<Rightarrow> 'e"
  | Driver_Unload

text \<open>A device is probed; if that fails it stays without a driver.\<close>

definition bus_probe ::
    "(string \<Rightarrow> string \<Rightarrow> bool) \<Rightarrow> ('e, 'n, 'd) platform_driver \<Rightarrow> 'e \<Rightarrow> nat \<times> 'n platform_device \<Rightarrow>
      ('n, 'd) bus \<Rightarrow> ('n, 'd) bus option" where
  "bus_probe same drv e d b =
     (case d of (i, dev) \<Rightarrow>
        if \<not> platform_match same drv dev then Some b
        else map_option (\<lambda>(ret, data). if ret = 0 then b\<lparr>bus_bound := (bus_bound b)(i \<mapsto> data)\<rparr> else b)
               (pd_probe drv e (dv_node dev)))"

definition bus_remove :: "('e, 'n, 'd) platform_driver \<Rightarrow> nat \<Rightarrow> ('n, 'd) bus \<Rightarrow> ('n, 'd) bus option" where
  "bus_remove drv i b =
     (case bus_bound b i of
        None \<Rightarrow> Some b
      | Some data \<Rightarrow>
          map_option (\<lambda>line. b\<lparr>bus_bound := (bus_bound b)(i := None), bus_log := bus_log b @ [line]\<rparr>)
            (pd_remove drv data))"

fun bus_all :: "('a \<Rightarrow> 'b \<Rightarrow> 'b option) \<Rightarrow> 'a list \<Rightarrow> 'b \<Rightarrow> 'b option" where
  "bus_all f [] b = Some b"
| "bus_all f (x # xs) b = Option.bind (f x b) (bus_all f xs)"

text \<open>The last device that came is the first the driver is taken from.\<close>

fun bus_step ::
    "(string \<Rightarrow> string \<Rightarrow> bool) \<Rightarrow> ('e, 'n, 'd) platform_driver \<Rightarrow> ('e, 'n) bus_event \<Rightarrow> ('n, 'd) bus \<Rightarrow>
      ('n, 'd) bus option" where
  "bus_step same drv (Device_Add i dev e) b =
     (if i \<in> fst ` set (bus_devs b) then Some b
      else (let b = b\<lparr>bus_devs := bus_devs b @ [(i, dev)]\<rparr>
            in if bus_loaded b then bus_probe same drv e (i, dev) b else Some b))"
| "bus_step same drv (Device_Del i) b =
     map_option (\<lambda>b. b\<lparr>bus_devs := filter (\<lambda>d. fst d \<noteq> i) (bus_devs b)\<rparr>) (bus_remove drv i b)"
| "bus_step same drv (Driver_Load es) b =
     (if bus_loaded b then Some b
      else bus_all (\<lambda>d. bus_probe same drv (es (fst d)) d) (bus_devs b) (b\<lparr>bus_loaded := True\<rparr>))"
| "bus_step same drv Driver_Unload b =
     map_option (\<lambda>b. b\<lparr>bus_loaded := False\<rparr>) (bus_all (\<lambda>d. bus_remove drv (fst d)) (rev (bus_devs b)) b)"

fun bus_run ::
    "(string \<Rightarrow> string \<Rightarrow> bool) \<Rightarrow> ('e, 'n, 'd) platform_driver \<Rightarrow> ('e, 'n) bus_event list \<Rightarrow> ('n, 'd) bus \<Rightarrow>
      ('n, 'd) bus option" where
  "bus_run same drv [] b = Some b"
| "bus_run same drv (ev # evs) b = Option.bind (bus_step same drv ev b) (bus_run same drv evs)"

text \<open>All the kernel's answers in an event.\<close>

fun event_all :: "('e \<Rightarrow> bool) \<Rightarrow> ('e, 'n) bus_event \<Rightarrow> bool" where
  "event_all P (Device_Add i dev e) \<longleftrightarrow> P e"
| "event_all P (Driver_Load es) \<longleftrightarrow> (\<forall>i. P (es i))"
| "event_all P _ \<longleftrightarrow> True"

subsection \<open>What a driver promises\<close>

text \<open>
  Probing follows no bad pointer and, when it succeeds, stores data that fit the device; such data can be
  removed, printing \<open>farewell\<close>.
\<close>

locale probing_driver =
  fixes drv :: "('e, 'n, 'd) platform_driver" and fits :: "'n \<Rightarrow> 'd \<Rightarrow> bool" and farewell :: "'d \<Rightarrow> string"
    and plenty :: "'e \<Rightarrow> bool"
  assumes probe_call: "\<exists>ret data. pd_probe drv e n = Some (ret, data) \<and>
      (ret = 0 \<longrightarrow> (\<exists>d. data = Some d \<and> fits n d)) \<and> (plenty e \<longrightarrow> ret = 0)"
    and remove_call: "fits n d \<Longrightarrow> pd_remove drv (Some d) = Some (farewell d)"
begin

text \<open>Only present devices are bound, and only to data that fit them.\<close>

definition bus_ok :: "(string \<Rightarrow> string \<Rightarrow> bool) \<Rightarrow> ('n, 'd) bus \<Rightarrow> bool" where
  "bus_ok same b \<longleftrightarrow> distinct (map fst (bus_devs b)) \<and>
     (\<forall>i data. bus_bound b i = Some data \<longrightarrow> (\<exists>dev d. (i, dev) \<in> set (bus_devs b) \<and> platform_match same drv dev \<and>
        data = Some d \<and> fits (dv_node dev) d))"

lemma probe_ok:
  assumes "bus_ok same b" and "(i, dev) \<in> set (bus_devs b)"
  shows "\<exists>b'. bus_probe same drv e (i, dev) b = Some b' \<and> bus_ok same b' \<and> bus_devs b' = bus_devs b \<and>
    bus_loaded b' = bus_loaded b \<and> (\<forall>j. j \<noteq> i \<longrightarrow> bus_bound b' j = bus_bound b j) \<and>
    (bus_bound b i \<noteq> None \<or> plenty e \<and> platform_match same drv dev \<longrightarrow> bus_bound b' i \<noteq> None)"
proof (cases "platform_match same drv dev")
  case False
  with assms(1) show ?thesis by (simp add: bus_probe_def)
next
  case True
  from probe_call [of e "dv_node dev"] obtain ret data where probe: "pd_probe drv e (dv_node dev) = Some (ret, data)"
    "ret = 0 \<longrightarrow> (\<exists>d. data = Some d \<and> fits (dv_node dev) d)" "plenty e \<longrightarrow> ret = 0" by blast
  show ?thesis
  proof (cases "ret = 0")
    case ret: True
    with probe obtain d where d: "data = Some d" "fits (dv_node dev) d" by blast
    let ?b = "b\<lparr>bus_bound := (bus_bound b)(i \<mapsto> data)\<rparr>"
    have "bus_probe same drv e (i, dev) b = Some ?b" using True probe(1) ret by (simp add: bus_probe_def)
    moreover have "bus_ok same ?b" unfolding bus_ok_def
    proof (intro conjI allI impI)
      show "distinct (map fst (bus_devs ?b))" using assms(1) by (simp add: bus_ok_def)
      fix j x assume j: "bus_bound ?b j = Some x"
      show "\<exists>dev d. (j, dev) \<in> set (bus_devs ?b) \<and> platform_match same drv dev \<and> x = Some d \<and> fits (dv_node dev) d"
      proof (cases "j = i")
        case True
        with j assms(2) d \<open>platform_match same drv dev\<close> show ?thesis by auto
      next
        case False
        with j assms(1) show ?thesis by (simp add: bus_ok_def)
      qed
    qed
    ultimately show ?thesis by simp
  next
    case False
    with True probe assms(1) show ?thesis by (simp add: bus_probe_def)
  qed
qed

lemma probe_all_ok:
  assumes "bus_ok same b" and "set ds \<subseteq> set (bus_devs b)"
  shows "\<exists>b'. bus_all (\<lambda>d. bus_probe same drv (es (fst d)) d) ds b = Some b' \<and> bus_ok same b' \<and>
    bus_devs b' = bus_devs b \<and> bus_loaded b' = bus_loaded b \<and>
    (\<forall>i. bus_bound b i \<noteq> None \<longrightarrow> bus_bound b' i \<noteq> None) \<and>
    (\<forall>(i, dev) \<in> set ds. plenty (es i) \<longrightarrow> platform_match same drv dev \<longrightarrow> bus_bound b' i \<noteq> None)"
  using assms
proof (induction ds arbitrary: b)
  case Nil
  then show ?case by simp
next
  case (Cons d ds)
  obtain i dev where d: "d = (i, dev)" by fastforce
  have "(i, dev) \<in> set (bus_devs b)" using Cons.prems(2) d by simp
  from probe_ok [OF Cons.prems(1) this, of "es i"] obtain c where
    c: "bus_probe same drv (es i) (i, dev) b = Some c" "bus_ok same c" "bus_devs c = bus_devs b"
      "bus_loaded c = bus_loaded b" and other: "\<And>j. j \<noteq> i \<Longrightarrow> bus_bound c j = bus_bound b j"
      and this_one: "bus_bound b i \<noteq> None \<or> plenty (es i) \<and> platform_match same drv dev \<Longrightarrow> bus_bound c i \<noteq> None"
    by blast
  have kept: "bus_bound c j \<noteq> None" if "bus_bound b j \<noteq> None" for j
    using that other [of j] this_one by (cases "j = i") auto
  from Cons.prems(2) c(3) have "set ds \<subseteq> set (bus_devs c)" by simp
  from Cons.IH [OF c(2) this] obtain b' where
    b': "bus_all (\<lambda>d. bus_probe same drv (es (fst d)) d) ds c = Some b'" "bus_ok same b'"
      "bus_devs b' = bus_devs c" "bus_loaded b' = bus_loaded c"
    and kept': "\<And>j. bus_bound c j \<noteq> None \<Longrightarrow> bus_bound b' j \<noteq> None"
    and rest: "\<forall>(i, dev) \<in> set ds. plenty (es i) \<longrightarrow> platform_match same drv dev \<longrightarrow> bus_bound b' i \<noteq> None"
    by blast
  have "bus_all (\<lambda>d. bus_probe same drv (es (fst d)) d) (d # ds) b = Some b'" using d c(1) b'(1) by simp
  moreover have "\<forall>(i, dev) \<in> set (d # ds). plenty (es i) \<longrightarrow> platform_match same drv dev \<longrightarrow> bus_bound b' i \<noteq> None"
    using rest this_one kept' [of i] d by auto
  moreover have "bus_bound b j \<noteq> None \<Longrightarrow> bus_bound b' j \<noteq> None" for j by (rule kept' [OF kept])
  ultimately show ?case using b'(2-4) c(3,4) by (intro exI [of _ b']) (simp del: not_None_eq)
qed

lemma remove_ok:
  assumes "bus_ok same b"
  shows "\<exists>b'. bus_remove drv i b = Some b' \<and> bus_ok same b' \<and> bus_devs b' = bus_devs b \<and>
    bus_loaded b' = bus_loaded b \<and> bus_bound b' = (bus_bound b)(i := None) \<and>
    bus_log b' = bus_log b @ (case bus_bound b i of Some (Some d) \<Rightarrow> [farewell d] | _ \<Rightarrow> [])"
proof (cases "bus_bound b i")
  case None
  then have "(bus_bound b)(i := None) = bus_bound b" by auto
  with None assms show ?thesis by (simp add: bus_remove_def)
next
  case (Some data)
  with assms obtain dev :: "'n platform_device" and d where d: "data = Some d" "fits (dv_node dev) d"
    unfolding bus_ok_def by blast
  let ?b = "b\<lparr>bus_bound := (bus_bound b)(i := None), bus_log := bus_log b @ [farewell d]\<rparr>"
  have "bus_remove drv i b = Some ?b" using Some d remove_call by (simp add: bus_remove_def)
  moreover have "bus_ok same ?b" using assms by (auto simp: bus_ok_def split: if_splits)
  ultimately show ?thesis using Some d(1) by simp
qed

text \<open>What the remove function prints for the devices \<open>is\<close>.\<close>

definition farewells :: "(nat \<rightharpoonup> 'd option) \<Rightarrow> nat list \<Rightarrow> string list" where
  "farewells bound is = concat (map (\<lambda>i. case bound i of Some (Some d) \<Rightarrow> [farewell d] | _ \<Rightarrow> []) is)"

lemma remove_all_ok:
  assumes "bus_ok same b" and "distinct (map fst ds)"
  shows "\<exists>b'. bus_all (\<lambda>d. bus_remove drv (fst d)) ds b = Some b' \<and> bus_ok same b' \<and> bus_devs b' = bus_devs b \<and>
    bus_loaded b' = bus_loaded b \<and> (\<forall>i. bus_bound b' i = (if i \<in> fst ` set ds then None else bus_bound b i)) \<and>
    bus_log b' = bus_log b @ farewells (bus_bound b) (map fst ds)"
  using assms
proof (induction ds arbitrary: b)
  case Nil
  then show ?case by (simp add: farewells_def)
next
  case (Cons d ds)
  obtain i dev where d: "d = (i, dev)" by fastforce
  from remove_ok [OF Cons.prems(1), of i] obtain c where c: "bus_remove drv i b = Some c" "bus_ok same c"
    "bus_devs c = bus_devs b" "bus_loaded c = bus_loaded b" "bus_bound c = (bus_bound b)(i := None)"
    "bus_log c = bus_log b @ (case bus_bound b i of Some (Some d) \<Rightarrow> [farewell d] | _ \<Rightarrow> [])" by blast
  from Cons.IH [OF c(2)] Cons.prems(2) obtain b' where
    b': "bus_all (\<lambda>d. bus_remove drv (fst d)) ds c = Some b'" "bus_ok same b'" "bus_devs b' = bus_devs c"
      "bus_loaded b' = bus_loaded c" "\<forall>i. bus_bound b' i = (if i \<in> fst ` set ds then None else bus_bound c i)"
      "bus_log b' = bus_log c @ farewells (bus_bound c) (map fst ds)" by auto
  have "map (\<lambda>j. case ((bus_bound b)(i := None)) j of Some (Some d) \<Rightarrow> [farewell d] | _ \<Rightarrow> []) (map fst ds) =
      map (\<lambda>j. case bus_bound b j of Some (Some d) \<Rightarrow> [farewell d] | _ \<Rightarrow> []) (map fst ds)"
    using Cons.prems(2) d by (intro map_cong refl) auto
  then have "farewells (bus_bound c) (map fst ds) = farewells (bus_bound b) (map fst ds)"
    unfolding farewells_def c(5) by (rule arg_cong [where f = concat])
  then have "bus_log b' = bus_log b @ farewells (bus_bound b) (map fst (d # ds))"
    using b'(6) c(6) d by (simp add: farewells_def)
  moreover have "bus_all (\<lambda>d. bus_remove drv (fst d)) (d # ds) b = Some b'" using d c(1) b'(1) by simp
  moreover have "\<forall>j. bus_bound b' j = (if j \<in> fst ` set (d # ds) then None else bus_bound b j)"
    using b'(5) c(5) d by auto
  ultimately show ?case using b'(2-4) c(3,4) by (intro exI [of _ b']) simp
qed


definition bus_inv :: "(string \<Rightarrow> string \<Rightarrow> bool) \<Rightarrow> ('n, 'd) bus \<Rightarrow> bool" where
  "bus_inv same b \<longleftrightarrow> bus_ok same b \<and> (\<not> bus_loaded b \<longrightarrow> bus_bound b = Map.empty)"

text \<open>With memory enough, every device that matches is bound while the driver is loaded.\<close>

definition bus_full :: "(string \<Rightarrow> string \<Rightarrow> bool) \<Rightarrow> ('n, 'd) bus \<Rightarrow> bool" where
  "bus_full same b \<longleftrightarrow> (bus_loaded b \<longrightarrow>
     (\<forall>(i, dev) \<in> set (bus_devs b). platform_match same drv dev \<longrightarrow> bus_bound b i \<noteq> None))"

lemma bound_present: "bus_ok same b \<Longrightarrow> bus_bound b i \<noteq> None \<Longrightarrow> i \<in> fst ` set (bus_devs b)"
  unfolding bus_ok_def by force

lemma bus_ok_more:
  assumes "bus_ok same b" and "bus_bound b' = bus_bound b" and "set (bus_devs b) \<subseteq> set (bus_devs b')"
    and "distinct (map fst (bus_devs b'))"
  shows "bus_ok same b'"
  using assms unfolding bus_ok_def by (metis subsetD)

text \<open>What a step owes: it does not fail, keeps the invariant, leaves no device unbound, and unloading
  says goodbye to every bound device.\<close>

definition step_fine :: "(string \<Rightarrow> string \<Rightarrow> bool) \<Rightarrow> ('e, 'n) bus_event \<Rightarrow> ('n, 'd) bus \<Rightarrow> bool" where
  "step_fine same ev b \<longleftrightarrow> (\<exists>b'. bus_step same drv ev b = Some b' \<and> bus_inv same b' \<and>
    (event_all plenty ev \<longrightarrow> bus_full same b \<longrightarrow> bus_full same b') \<and>
    (ev = Driver_Unload \<longrightarrow> bus_bound b' = Map.empty \<and>
       bus_log b' = bus_log b @ farewells (bus_bound b) (rev (map fst (bus_devs b)))))"

lemma add_ok:
  assumes "bus_inv same b"
  shows "step_fine same (Device_Add i dev e) b"
proof (cases "i \<in> fst ` set (bus_devs b)")
  case True
  with assms show ?thesis by (simp add: step_fine_def)
next
  case False
  let ?b = "b\<lparr>bus_devs := bus_devs b @ [(i, dev)]\<rparr>"
  have "bus_ok same b" using assms by (simp add: bus_inv_def)
  then have ok: "bus_ok same ?b"
    using False by (rule_tac bus_ok_more) (auto simp: bus_ok_def)
  show ?thesis
  proof (cases "bus_loaded b")
    case True
    from probe_ok [OF ok, of i dev e] obtain b' where b': "bus_probe same drv e (i, dev) ?b = Some b'" "bus_ok same b'"
      "bus_devs b' = bus_devs b @ [(i, dev)]" "bus_loaded b'" "\<forall>j. j \<noteq> i \<longrightarrow> bus_bound b' j = bus_bound b j"
      "plenty e \<and> platform_match same drv dev \<longrightarrow> bus_bound b' i \<noteq> None" using True by auto
    have "bus_full same b'" if "plenty e" "bus_full same b" unfolding bus_full_def
    proof (rule impI, rule ballI)
      fix d assume d: "d \<in> set (bus_devs b')"
      obtain j jdev where dj: "d = (j, jdev)" by fastforce
      have "bus_bound b' j \<noteq> None" if m: "platform_match same drv jdev"
      proof (cases "j = i")
        case True
        with d dj b'(3) False have "jdev = dev" by force
        with True m b'(6) \<open>plenty e\<close> show ?thesis by blast
      next
        case neq: False
        with d dj b'(3) have "(j, jdev) \<in> set (bus_devs b)" by simp
        with \<open>bus_full same b\<close> True m have "bus_bound b j \<noteq> None" unfolding bus_full_def by blast
        with neq b'(5) show ?thesis by simp
      qed
      with dj show "case d of (i, dev) \<Rightarrow> platform_match same drv dev \<longrightarrow> bus_bound b' i \<noteq> None" by simp
    qed
    with b' show ?thesis using False True by (simp add: step_fine_def bus_inv_def)
  next
    case unloaded: False
    with False ok assms show ?thesis by (simp add: step_fine_def bus_inv_def bus_full_def)
  qed
qed

lemma del_ok:
  assumes "bus_inv same b"
  shows "step_fine same (Device_Del i) b"
proof -
  from assms have "bus_ok same b" by (simp add: bus_inv_def)
  from remove_ok [OF this, of i] obtain c where c: "bus_remove drv i b = Some c" "bus_ok same c"
    "bus_devs c = bus_devs b" "bus_loaded c = bus_loaded b" "bus_bound c = (bus_bound b)(i := None)" by blast
  let ?b = "c\<lparr>bus_devs := filter (\<lambda>d. fst d \<noteq> i) (bus_devs c)\<rparr>"
  have "bus_ok same ?b" unfolding bus_ok_def
  proof (intro conjI allI impI)
    show "distinct (map fst (bus_devs ?b))" using c(2) by (simp add: bus_ok_def distinct_map_filter)
    fix j x assume "bus_bound ?b j = Some x"
    then have "j \<noteq> i" "bus_bound c j = Some x" using c(5) by (auto split: if_splits)
    with c(2) show "\<exists>dev d. (j, dev) \<in> set (bus_devs ?b) \<and> platform_match same drv dev \<and> x = Some d \<and> fits (dv_node dev) d"
      by (simp add: bus_ok_def)
  qed
  moreover have "bus_full same ?b" if "bus_full same b" using that c(3-5) by (auto simp: bus_full_def)
  ultimately show ?thesis using c assms by (simp add: step_fine_def bus_inv_def)
qed

lemma load_ok:
  assumes "bus_inv same b"
  shows "step_fine same (Driver_Load es) b"
proof (cases "bus_loaded b")
  case True
  with assms show ?thesis by (simp add: step_fine_def)
next
  case False
  have "bus_ok same (b\<lparr>bus_loaded := True\<rparr>)" using assms by (simp add: bus_inv_def bus_ok_def)
  from probe_all_ok [OF this, of "bus_devs b" es] obtain b' where
    "bus_all (\<lambda>d. bus_probe same drv (es (fst d)) d) (bus_devs b) (b\<lparr>bus_loaded := True\<rparr>) = Some b'"
    "bus_ok same b'" "bus_devs b' = bus_devs b" "bus_loaded b'"
    "\<forall>(i, dev) \<in> set (bus_devs b). plenty (es i) \<longrightarrow> platform_match same drv dev \<longrightarrow> bus_bound b' i \<noteq> None" by auto
  then show ?thesis using False by (auto simp: step_fine_def bus_inv_def bus_full_def)
qed

lemma unload_ok:
  assumes "bus_inv same b"
  shows "step_fine same Driver_Unload b"
proof -
  from assms have ok: "bus_ok same b" by (simp add: bus_inv_def)
  then have "distinct (map fst (rev (bus_devs b)))" by (simp add: bus_ok_def rev_map [symmetric])
  from remove_all_ok [OF ok this] obtain b' where b': "bus_all (\<lambda>d. bus_remove drv (fst d)) (rev (bus_devs b)) b = Some b'"
    "bus_ok same b'" "bus_devs b' = bus_devs b"
    "\<forall>i. bus_bound b' i = (if i \<in> fst ` set (rev (bus_devs b)) then None else bus_bound b i)"
    "bus_log b' = bus_log b @ farewells (bus_bound b) (map fst (rev (bus_devs b)))" by blast
  have "bus_bound b' i = None" for i using b'(4) bound_present [OF ok, of i] by (cases "bus_bound b i") simp_all
  then have "bus_bound b' = Map.empty" by (rule ext)
  then show ?thesis using b' by (simp add: step_fine_def bus_inv_def bus_full_def bus_ok_def rev_map)
qed

lemma step_ok:
  assumes "bus_inv same b"
  shows "\<exists>b'. bus_step same drv ev b = Some b' \<and> bus_inv same b' \<and>
    (event_all plenty ev \<longrightarrow> bus_full same b \<longrightarrow> bus_full same b') \<and>
    (ev = Driver_Unload \<longrightarrow> bus_bound b' = Map.empty \<and>
       bus_log b' = bus_log b @ farewells (bus_bound b) (rev (map fst (bus_devs b))))"
proof -
  have "step_fine same ev b" using assms by (cases ev) (auto intro: add_ok del_ok load_ok unload_ok)
  then show ?thesis by (simp only: step_fine_def)
qed

lemma run_ok:
  assumes "bus_inv same b"
  shows "\<exists>b'. bus_run same drv evs b = Some b' \<and> bus_inv same b' \<and>
    (list_all (event_all plenty) evs \<longrightarrow> bus_full same b \<longrightarrow> bus_full same b')"
  using assms
proof (induction evs arbitrary: b)
  case Nil
  then show ?case by simp
next
  case (Cons ev evs)
  from step_ok [OF Cons.prems, of ev] obtain c where c: "bus_step same drv ev b = Some c" "bus_inv same c"
    "event_all plenty ev \<Longrightarrow> bus_full same b \<Longrightarrow> bus_full same c" by blast
  from Cons.IH [OF c(2)] obtain b' where "bus_run same drv evs c = Some b'" "bus_inv same b'"
    "list_all (event_all plenty) evs \<longrightarrow> bus_full same c \<longrightarrow> bus_full same b'" by blast
  with c show ?case by auto
qed

lemma start_ok: "bus_inv same bus_start \<and> bus_full same bus_start"
  by (simp add: bus_inv_def bus_ok_def bus_full_def bus_start_def)

end

subsection \<open>devicetree.c\<close>

text \<open>What a node says, with the defaults of the module.\<close>

definition dt_reading :: "dt_node \<Rightarrow> dt_device_data" where
  "dt_reading np = \<lparr>dt_label = (case dn_label np of Some l \<Rightarrow> l | None \<Rightarrow> ''unnamed''),
     dt_reg_value = (case dn_reg np of Some v \<Rightarrow> v | None \<Rightarrow> 0),
     dt_custom_value = (case dn_custom_value np of Some v \<Rightarrow> v | None \<Rightarrow> 42),
     dt_has_clock = dn_has_clock np\<rparr>"

definition dt_farewell :: "dt_device_data \<Rightarrow> string" where
  "dt_farewell data = ''lkmpg_devicetree: Removing device '' @ dt_label data @ [LF]"

interpretation dt_bus: probing_driver dt_driver "\<lambda>np d. d = dt_reading np" dt_farewell "\<lambda>kzalloc. kzalloc"
proof
  fix e np
  show "\<exists>ret data. pd_probe dt_driver e np = Some (ret, data) \<and> (ret = 0 \<longrightarrow> (\<exists>d. data = Some d \<and> d = dt_reading np)) \<and>
      (e \<longrightarrow> ret = 0)"
  proof (cases e)
    case True
    then show ?thesis by (simp add: dt_driver_def dt_probe_reads dt_reading_def)
  next
    case False
    then show ?thesis by (simp add: dt_driver_def dt_probe_def)
  qed
qed (simp add: dt_driver_def dt_remove_def dt_farewell_def)

interpretation dma_bus: probing_driver "dma_demo_driver coherent_size streaming_size"
    "\<lambda>_ d. dd_coherent_len d = coherent_size \<and> dd_streaming_len d = streaming_size \<and>
       dd_streaming_buf d = replicate streaming_size 0x5a" "\<lambda>_. dma_demo_remove" "\<lambda>_. False"
    for coherent_size streaming_size
  by unfold_locales
    (auto simp: dma_demo_driver_def dma_demo_probe_def Let_def split: option.splits prod.splits if_splits)

lemma dt_farewells:
  assumes "dt_bus.bus_ok same b"
  shows "dt_bus.farewells (bus_bound b) (rev (map fst (bus_devs b))) =
    concat (map (\<lambda>(i, dev). if bus_bound b i = None then [] else [dt_farewell (dt_reading (dv_node dev))])
      (rev (bus_devs b)))"
proof -
  have "(case bus_bound b (fst d) of Some (Some d) \<Rightarrow> [dt_farewell d] | _ \<Rightarrow> []) =
      (case d of (i, dev) \<Rightarrow> if bus_bound b i = None then [] else [dt_farewell (dt_reading (dv_node dev))])"
    if d: "d \<in> set (bus_devs b)" for d
  proof -
    obtain i dev where dev: "d = (i, dev)" by fastforce
    show ?thesis
    proof (cases "bus_bound b i")
      case (Some data)
      with assms obtain dev' where dev': "(i, dev') \<in> set (bus_devs b)" "data = Some (dt_reading (dv_node dev'))"
        unfolding dt_bus.bus_ok_def by blast
      have "dev' = dev"
        using assms d dev dev'(1) by (intro eq_key_imp_eq_value [of "bus_devs b" i]) (simp_all add: dt_bus.bus_ok_def)
      with Some dev' dev show ?thesis by simp
    qed (simp add: dev)
  qed
  then have "map (\<lambda>d. case bus_bound b (fst d) of Some (Some d) \<Rightarrow> [dt_farewell d] | _ \<Rightarrow> []) (rev (bus_devs b)) =
      map (\<lambda>(i, dev). if bus_bound b i = None then [] else [dt_farewell (dt_reading (dv_node dev))]) (rev (bus_devs b))"
    by (intro map_cong refl) simp
  then show ?thesis unfolding dt_bus.farewells_def rev_map map_map o_def by (rule arg_cong [where f = concat])
qed

text \<open>
  C29: devices of the device tree come and go, and devicetree.c is loaded and unloaded, in any order. A
  device is bound only while the module is loaded and only if it matches, and the data kept for it are
  what its own node says, with the defaults; if there is memory, every device that matches is bound. No
  remove finds its data missing, and unloading leaves none behind and takes leave of each bound device
  by its label, the last one first.
\<close>

theorem devicetree_bus_correct:
  "\<exists>b. bus_run same dt_driver evs bus_start = Some b \<and>
    (\<forall>i data. bus_bound b i = Some data \<longrightarrow> bus_loaded b \<and> (\<exists>dev. (i, dev) \<in> set (bus_devs b) \<and>
       platform_match same dt_driver dev \<and> data = Some (dt_reading (dv_node dev)))) \<and>
    (list_all (event_all (\<lambda>kzalloc. kzalloc)) evs \<longrightarrow> bus_loaded b \<longrightarrow>
       (\<forall>(i, dev) \<in> set (bus_devs b). platform_match same dt_driver dev \<longrightarrow> bus_bound b i \<noteq> None)) \<and>
    (\<exists>b'. bus_step same dt_driver Driver_Unload b = Some b' \<and> bus_bound b' = Map.empty \<and>
       bus_log b' = bus_log b @
         concat (map (\<lambda>(i, dev). if bus_bound b i = None then [] else [dt_farewell (dt_reading (dv_node dev))])
           (rev (bus_devs b))))"
proof -
  from dt_bus.start_ok obtain b where run: "bus_run same dt_driver evs bus_start = Some b" and I: "dt_bus.bus_inv same b"
    and full: "list_all (event_all (\<lambda>kzalloc. kzalloc)) evs \<Longrightarrow> dt_bus.bus_full same b"
    using dt_bus.run_ok [of same bus_start evs] by blast
  from I have ok: "dt_bus.bus_ok same b" and unloaded: "\<not> bus_loaded b \<Longrightarrow> bus_bound b = Map.empty"
    by (simp_all add: dt_bus.bus_inv_def)
  have "bus_loaded b \<and> (\<exists>dev. (i, dev) \<in> set (bus_devs b) \<and> platform_match same dt_driver dev \<and>
      data = Some (dt_reading (dv_node dev)))" if "bus_bound b i = Some data" for i data
  proof
    show "bus_loaded b" using that unloaded by (cases "bus_loaded b") simp_all
    show "\<exists>dev. (i, dev) \<in> set (bus_devs b) \<and> platform_match same dt_driver dev \<and> data = Some (dt_reading (dv_node dev))"
      using that ok unfolding dt_bus.bus_ok_def by blast
  qed
  moreover have "\<exists>b'. bus_step same dt_driver Driver_Unload b = Some b' \<and> bus_bound b' = Map.empty \<and>
       bus_log b' = bus_log b @
         concat (map (\<lambda>(i, dev). if bus_bound b i = None then [] else [dt_farewell (dt_reading (dv_node dev))])
           (rev (bus_devs b)))"
    using dt_bus.step_ok [OF I, of Driver_Unload] unfolding dt_farewells [OF ok] by blast
  ultimately show ?thesis using run full unfolding dt_bus.bus_full_def by blast
qed

text \<open>A device with a label comes after the module, and one that does not match; then the module goes.\<close>

definition demo_device :: "string \<Rightarrow> dt_node platform_device" where
  "demo_device c = \<lparr>dv_name = ''lkmpg'', dv_compatible = [c],
     dv_node = \<lparr>dn_label = Some ''demo'', dn_reg = None, dn_custom_value = None, dn_has_clock = True\<rparr>\<rparr>"

theorem devicetree_bus_correct_witness:
  "\<exists>b b'. bus_run (=) dt_driver [Driver_Load (\<lambda>_. True), Device_Add 1 (demo_device ''lkmpg,another-device'') True,
      Device_Add 2 (demo_device ''other'') True] bus_start = Some b \<and> bus_bound b 1 \<noteq> None \<and>
    bus_step (=) dt_driver Driver_Unload b = Some b' \<and>
    bus_log b' = bus_log b @ [''lkmpg_devicetree: Removing device demo'' @ [LF]]"
proof -
  let ?evs = "[Driver_Load (\<lambda>_. True), Device_Add 1 (demo_device ''lkmpg,another-device'') True,
      Device_Add 2 (demo_device ''other'') True]"
  obtain b where run: "bus_run (=) dt_driver ?evs bus_start = Some b"
    and b: "bus_devs b = [(1, demo_device ''lkmpg,another-device''), (2, demo_device ''other'')]" "bus_loaded b"
      "bus_bound b 2 = None"
    by (simp add: bus_start_def bus_probe_def platform_match_def dt_driver_def dt_match_table_def demo_device_def dt_probe_reads)
  have "platform_match (=) dt_driver (demo_device ''lkmpg,another-device'')"
    by (simp add: platform_match_def dt_driver_def dt_match_table_def demo_device_def)
  moreover have "list_all (event_all (\<lambda>kzalloc. kzalloc)) ?evs" by simp
  ultimately have bound: "bus_bound b 1 \<noteq> None" and "\<exists>b'. bus_step (=) dt_driver Driver_Unload b = Some b' \<and>
      bus_log b' = bus_log b @ concat (map (\<lambda>(i, dev). if bus_bound b i = None then []
        else [dt_farewell (dt_reading (dv_node dev))]) (rev (bus_devs b)))"
    using devicetree_bus_correct [of "(=)" ?evs] b unfolding run by force+
  then show ?thesis using run b(1,3) by (auto simp: demo_device_def dt_reading_def dt_farewell_def)
qed

text \<open>
  The sleep transitions of the system, as lists of callbacks in the order of the kernel: to memory and
  back; to disk, with the thaw that lets the image be written, and back; and a hibernation that is given
  up. The first callback that fails ends the transition.
\<close>

definition sleep_transitions :: "(dev_pm_ops \<Rightarrow> string \<times> int) list set" where
  "sleep_transitions =
     {[pm_suspend, pm_resume], [pm_freeze, pm_thaw, pm_poweroff, pm_restore], [pm_freeze, pm_thaw]}"

fun pm_transition :: "dev_pm_ops \<Rightarrow> (dev_pm_ops \<Rightarrow> string \<times> int) list \<Rightarrow> string list \<times> int" where
  "pm_transition ops [] = ([], 0)"
| "pm_transition ops (cb # cbs) =
     (case cb ops of (out, ret) \<Rightarrow>
        if ret \<noteq> 0 then ([out], ret)
        else (case pm_transition ops cbs of (outs, ret) \<Rightarrow> (out # outs, ret)))"

text \<open>devicemodel.c never aborts one, and each suspension it prints is followed by its resumption.\<close>

lemma devicemodel_sleeps:
  assumes "cbs \<in> sleep_transitions" and "pd_pm devicemodel_driver = Some ops"
  shows "\<exists>n>0. pm_transition ops cbs =
    (concat (replicate n [fst devicemodel_suspend, fst devicemodel_resume]), 0)"
proof -
  have "ops = devicemodel_pm_ops" using assms(2) by (simp add: devicemodel_driver_def)
  note pm = this devicemodel_pm_ops_def devicemodel_suspend_def devicemodel_resume_def
  from assms(1) consider "cbs = [pm_suspend, pm_resume] \<or> cbs = [pm_freeze, pm_thaw]"
    | "cbs = [pm_freeze, pm_thaw, pm_poweroff, pm_restore]"
    by (auto simp: sleep_transitions_def)
  then show ?thesis
  proof cases
    case 1
    then show ?thesis by (intro exI [of _ 1]) (auto simp: pm)
  next
    case 2
    then show ?thesis by (intro exI [of _ 2]) (simp add: pm numeral_2_eq_2)
  qed
qed

text \<open>A device of the name of devicemodel.c that brings no platform data makes its probe follow a NULL pointer.\<close>

theorem devicemodel_needs_data:
  assumes "dv_name dev = ''devicemodel_example''" and "dv_node dev = None"
  shows "bus_run same devicemodel_driver [Driver_Load es, Device_Add i dev e] bus_start = None"
  using assms
  by (simp add: bus_start_def bus_probe_def platform_match_def devicemodel_driver_def devicemodel_probe_def)

end
