(* ===== verification/Attributes.thy ===== *)
theory Attributes
  imports Lifecycle Kstrtol
begin

text \<open>
  Variables that user space reads and writes as text: examples/hello-sysfs.c, a file in sysfs, and
  examples/hello-6.c, a module parameter with its own callbacks. The functions of the kernel that parse
  and print the numbers for them are parameters, with their documented behaviour on decimal numbers.
\<close>

text \<open>The numbers an \<open>int\<close> holds.\<close>

definition in_int :: "int \<Rightarrow> bool" where
  "in_int k \<longleftrightarrow> - (2 ^ 31) \<le> k \<and> k < 2 ^ 31"

subsection \<open>hello-sysfs.c\<close>

definition SYSFS_PAGE_SIZE :: nat where "SYSFS_PAGE_SIZE = 4096"

text \<open>\<open>myvariable_show\<close>: the page that sysfs provides, filled in, and the return value.\<close>

definition myvariable_show :: "32 word \<Rightarrow> char list \<Rightarrow> (char list \<times> int) option" where
  "myvariable_show myvariable buf =
     (let text = dec_int (sint myvariable) @ [LF]
      in map_option (\<lambda>buf. (buf, int (length text))) (c_sprintf buf text))"

text \<open>
  \<open>myvariable_store\<close>, over \<open>sscanf(buf, "%d", ...)\<close>, which is \<open>None\<close> when it converts nothing. Its
  result is not looked at: the return value is always the number of bytes given.
\<close>

definition myvariable_store ::
    "(string \<Rightarrow> 32 word option) \<Rightarrow> 32 word \<Rightarrow> string \<Rightarrow> nat \<Rightarrow> 32 word \<times> int" where
  "myvariable_store sscanf_d myvariable buf count =
     (case sscanf_d buf of
        Some v \<Rightarrow> (v, int count)
      | None \<Rightarrow> (myvariable, int count))"

definition sscanf_ok :: "(string \<Rightarrow> 32 word option) \<Rightarrow> bool" where
  "sscanf_ok sscanf_d \<longleftrightarrow> (\<forall>k. in_int k \<longrightarrow>
     sscanf_d (dec_int k) = Some (word_of_int k) \<and> sscanf_d (dec_int k @ [LF]) = Some (word_of_int k))"

text \<open>Whether \<open>kobject_create_and_add\<close> made the directory, and the answer of \<open>sysfs_create_file\<close>.\<close>

definition mymodule_init :: "bool \<times> int \<Rightarrow> int \<times> kop list" where
  "mymodule_init e =
     (let (made, error) = e
      in if \<not> made then (- ENOMEM, [])
         else if error \<noteq> 0
         then (error, [Acquire (Kobject ''mymodule''), Release (Kobject ''mymodule'')])
         else (0, [Acquire (Kobject ''mymodule'')]))"

definition mymodule_exit :: "bool \<times> int \<Rightarrow> kop list" where
  "mymodule_exit e = [Release (Kobject ''mymodule'')]"

interpretation mymodule_mod: module_lifecycle mymodule_init mymodule_exit
    "\<lambda>_. {Kobject ''mymodule''}" "\<lambda>_. True"
  by unfold_locales (auto simp: mymodule_init_def mymodule_exit_def split: if_splits)

subsection \<open>hello-6.c\<close>

definition watched_start :: "32 word" where "watched_start = 42"

text \<open>\<open>watched_set\<close>: the variable, the return value, and the line printed, if any.\<close>

definition watched_set ::
    "(string \<Rightarrow> int + 32 word) \<Rightarrow> 32 word \<Rightarrow> string \<Rightarrow> 32 word \<times> int \<times> string option" where
  "watched_set param_set_int watched val =
     (case param_set_int val of
        Inl ret \<Rightarrow> (watched, ret, None)
      | Inr v \<Rightarrow> (v, 0, Some (''watched updated to '' @ dec_int (sint v) @ [LF])))"

definition watched_get ::
    "(32 word \<Rightarrow> int + string) \<Rightarrow> 32 word \<Rightarrow> (int + string) \<times> string option" where
  "watched_get param_get_int watched =
     (case param_get_int watched of
        Inl ret \<Rightarrow> (Inl ret, None)
      | Inr buffer \<Rightarrow> (Inr buffer, Some (''watched was read'' @ [LF])))"

definition hello_6_init :: "32 word \<Rightarrow> int \<times> string" where
  "hello_6_init watched =
     (0, ''Hello, world 6'' @ [LF] @ ''watched starts at '' @ dec_int (sint watched) @ [LF])"

definition hello_6_exit :: string where
  "hello_6_exit = ''Goodbye, world 6'' @ [LF]"

definition param_int_ok :: "(string \<Rightarrow> int + 32 word) \<Rightarrow> (32 word \<Rightarrow> int + string) \<Rightarrow> bool" where
  "param_int_ok param_set_int param_get_int \<longleftrightarrow>
     (\<forall>k. in_int k \<longrightarrow> param_set_int (dec_int k @ [LF]) = Inr (word_of_int k)) \<and>
     (\<forall>v. param_get_int v = Inr (dec_int (sint v) @ [LF])) \<and>
     (\<forall>val ret. param_set_int val = Inl ret \<longrightarrow> ret < 0)"

subsection \<open>Functions that behave as documented\<close>

definition int_word :: "int \<Rightarrow> 32 word option" where
  "int_word k = (if - (2 ^ 31) \<le> k \<and> k < 2 ^ 31 then Some (word_of_int k) else None)"

definition sscanf_dec :: "string \<Rightarrow> 32 word option" where
  "sscanf_dec s = (case kstrtol_dec s of Inl e \<Rightarrow> None | Inr k \<Rightarrow> int_word k)"

definition param_set_dec :: "string \<Rightarrow> int + 32 word" where
  "param_set_dec s = (case kstrtol_dec s of Inl e \<Rightarrow> Inl (- EINVAL)
     | Inr k \<Rightarrow> (case int_word k of None \<Rightarrow> Inl (- 34) | Some v \<Rightarrow> Inr v))"

definition param_get_dec :: "32 word \<Rightarrow> int + string" where
  "param_get_dec v = Inr (dec_int (sint v) @ [LF])"

lemma kstrtol_dec_int_range:
  assumes "in_int k"
  shows "kstrtol_dec (dec_int k) = Inr k" and "kstrtol_dec (dec_int k @ [LF]) = Inr k"
  using kstrtol_dec_ok assms by (simp_all add: kstrtol_ok_def in_int_def)

lemma sscanf_dec_ok: "sscanf_ok sscanf_dec"
  by (simp add: sscanf_ok_def sscanf_dec_def kstrtol_dec_int_range)
    (simp add: int_word_def in_int_def)

lemma param_dec_ok: "param_int_ok param_set_dec param_get_dec"
  by (auto simp: param_int_ok_def param_set_dec_def param_get_dec_def kstrtol_dec_int_range
      split: sum.splits option.splits) (simp_all add: int_word_def in_int_def)

lemma sint_word_of_int_range: "in_int k \<Longrightarrow> sint (word_of_int k :: 32 word) = k"
  by (simp add: in_int_def signed_of_int signed_take_bit_int_eq_self)

lemma length_dec_int_sint: "length (dec_int (sint (v :: 32 word)) @ [LF]) < SYSFS_PAGE_SIZE"
proof -
  have "\<bar>sint v\<bar> < 10 ^ 10"
    using sint_lt [of v] sint_ge [of v] by (simp add: abs_if)
  from length_dec_int [OF this] show ?thesis by (simp add: SYSFS_PAGE_SIZE_def)
qed

lemma myvariable_show_eq:
  assumes "length buf = SYSFS_PAGE_SIZE"
  shows "\<exists>buf'. myvariable_show v buf = Some (buf', int (length (dec_int (sint v) @ [LF]))) \<and>
    cstr buf' = dec_int (sint v) @ [LF]"
proof -
  let ?t = "dec_int (sint v) @ [LF]"
  have "c_sprintf buf ?t = Some (?t @ NUL # drop (Suc (length ?t)) buf)"
    using length_dec_int_sint [of v] assms by (intro c_sprintf_Some) simp
  moreover have "NUL \<notin> set ?t" by simp
  ultimately show ?thesis by (simp add: myvariable_show_def Let_def cstr_append_nul del: append_assoc)
qed

subsection \<open>Properties\<close>

text \<open>
  A number written to the sysfs file, or to the module parameter, is the number then read, as the
  same text. A text that is not a number leaves the sysfs variable as it was and is reported as written
  all the same, whereas the parameter reports the error.
\<close>

theorem attributes_store_show:
  assumes "sscanf_ok sscanf_d" and "param_int_ok set_int get_int" and "in_int k"
    and "length buf = SYSFS_PAGE_SIZE" and "sscanf_d junk = None" and "set_int junk = Inl err"
  shows "myvariable_store sscanf_d v (dec_int k @ [LF]) n = (word_of_int k, int n) \<and>
    (\<exists>buf'. myvariable_show (word_of_int k) buf = Some (buf', int (length (dec_int k @ [LF]))) \<and>
       cstr buf' = dec_int k @ [LF]) \<and>
    myvariable_store sscanf_d v junk n = (v, int n) \<and>
    fst (watched_set set_int v (dec_int k @ [LF])) = word_of_int k \<and>
    fst (watched_get get_int (word_of_int k)) = Inr (dec_int k @ [LF]) \<and>
    watched_set set_int v junk = (v, err, None) \<and> err < 0"
  using assms myvariable_show_eq [OF assms(4), of "word_of_int k"]
  by (simp add: myvariable_store_def sscanf_ok_def watched_set_def watched_get_def param_int_ok_def
      sint_word_of_int_range)

theorem attributes_store_show_witness:
  "myvariable_store sscanf_dec 0 (dec_int (- 7) @ [LF]) 3 = (word_of_int (- 7), int 3) \<and>
    (\<exists>buf'. myvariable_show (word_of_int (- 7)) (zeros SYSFS_PAGE_SIZE) =
        Some (buf', int (length (dec_int (- 7) @ [LF]))) \<and> cstr buf' = dec_int (- 7) @ [LF]) \<and>
    myvariable_store sscanf_dec 0 ''x'' 3 = (0, int 3) \<and>
    fst (watched_set param_set_dec 0 (dec_int (- 7) @ [LF])) = word_of_int (- 7) \<and>
    fst (watched_get param_get_dec (word_of_int (- 7))) = Inr (dec_int (- 7) @ [LF]) \<and>
    watched_set param_set_dec 0 ''x'' = (0, - EINVAL, None) \<and> - EINVAL < 0"
  by (rule attributes_store_show)
    (simp_all add: sscanf_dec_ok param_dec_ok in_int_def sscanf_dec_def param_set_dec_def kstrtol_dec_def)

end
