(* ===== verification/Seq_File.thy ===== *)
theory Seq_File
  imports Lifecycle Cat
begin

text \<open>
  examples/procfs4.c: a /proc file made with the kernel's seq_file interface. The module gives the
  functions that start a sequence, go to the next item and show an item; the kernel's \<open>seq_read\<close> calls
  them. The one item is a counter that is static in \<open>my_seq_start\<close>; the pointer to it that the
  functions pass on is represented by whether it is NULL.
\<close>

subsection \<open>The module's functions\<close>

text \<open>Whether an item is there, and the position.\<close>

definition my_seq_start :: "64 word \<Rightarrow> int \<Rightarrow> bool \<times> int" where
  "my_seq_start counter pos = (if pos = 0 then (True, pos) else (False, 0))"

text \<open>Whether there is a next item (never), the counter and the position.\<close>

definition my_seq_next :: "64 word \<Rightarrow> int \<Rightarrow> bool \<times> 64 word \<times> int" where
  "my_seq_next counter pos = (False, counter + 1, pos + 1)"

text \<open>The text of an item; the counter is printed as the signed \<open>loff_t\<close>.\<close>

definition my_seq_show :: "64 word \<Rightarrow> string" where
  "my_seq_show counter = dec_int (sint counter) @ [LF]"

text \<open>Opening the file starts at position 0; the counter is what earlier readers have left.\<close>

definition my_open :: "64 word \<Rightarrow> 64 word \<times> int" where
  "my_open counter = (counter, 0)"

definition procfs4_init :: "bool \<Rightarrow> int \<times> kop list" where
  "procfs4_init created = (if \<not> created then (- ENOMEM, []) else (0, [Acquire (Proc_Entry ''iter'')]))"

definition procfs4_exit :: "bool \<Rightarrow> kop list" where
  "procfs4_exit created = [Drop (Proc_Entry ''iter'')]"

interpretation procfs4_mod: module_lifecycle procfs4_init procfs4_exit
    "\<lambda>_. {Proc_Entry ''iter''}" "\<lambda>_. True"
  by unfold_locales (auto simp: procfs4_init_def procfs4_exit_def split: if_splits)

subsection \<open>The kernel's side\<close>

text \<open>
  \<open>seq_read\<close> as documented, for a caller whose buffer holds all items: start at the position, show
  each item and go to the next until there is none. The open file is the counter and its position.
\<close>

partial_function (option) seq_items ::
    "64 word \<Rightarrow> int \<Rightarrow> bool \<Rightarrow> string \<Rightarrow> (64 word \<times> int \<times> string) option" where
  "seq_items counter pos item out =
     (if \<not> item then Some (counter, pos, out)
      else (let out = out @ my_seq_show counter; (item, counter, pos) = my_seq_next counter pos
            in seq_items counter pos item out))"

definition seq_read :: "(64 word \<times> int) sys_read" where
  "seq_read f n =
     (case f of (counter, pos) \<Rightarrow>
       (case my_seq_start counter pos of (item, pos) \<Rightarrow>
          map_option (\<lambda>(counter, pos, out). ((counter, pos), Inr (take n out)))
            (seq_items counter pos item [])))"

lemma seq_items_eq:
  "seq_items counter pos item out =
     Some (if item then (counter + 1, pos + 1, out @ my_seq_show counter) else (counter, pos, out))"
  by (subst seq_items.simps) (simp add: my_seq_next_def seq_items.simps)

lemma seq_read_eq:
  "seq_read (counter, pos) n =
     Some (if pos = 0 then ((counter + 1, 1), Inr (take n (my_seq_show counter))) else ((counter, 0), Inr []))"
  by (simp add: seq_read_def my_seq_start_def seq_items_eq)

lemma length_my_seq_show: "length (my_seq_show counter) \<le> 21"
proof -
  have "\<bar>sint counter\<bar> < 10 ^ 19" using sint_lt [of counter] sint_ge [of counter] by (simp add: abs_if)
  from length_dec_int [OF this] show ?thesis by (simp add: my_seq_show_def)
qed

definition seq_rest :: "64 word \<times> int \<Rightarrow> string" where
  "seq_rest f = (case f of (counter, pos) \<Rightarrow> if pos = 0 then my_seq_show counter else [])"

interpretation procfs4_reader: seq_reader seq_read seq_rest "\<lambda>_. True" 21 maxlen for maxlen
proof unfold_locales
  fix f n
  assume rest: "seq_rest f \<noteq> []" and n: "(21 :: nat) \<le> n"
  obtain counter pos where f: "f = (counter, pos)" by (cases f)
  with rest have "pos = 0" by (auto simp: seq_rest_def split: if_splits)
  moreover have "take n (my_seq_show counter) = my_seq_show counter"
    using n length_my_seq_show [of counter] by simp
  ultimately show "\<exists>f' d. seq_read f n = Some (f', Inr d) \<and> d \<noteq> [] \<and>
      seq_rest f = d @ seq_rest f' \<and> True"
    using rest by (simp add: f seq_read_eq seq_rest_def)
next
  fix f n
  assume "seq_rest f = []"
  then show "\<exists>f'. seq_read f n = Some (f', Inr [])"
    by (cases f) (auto simp: seq_rest_def my_seq_show_def seq_read_eq split: if_splits)
qed

subsection \<open>Properties\<close>

text \<open>
  Every program that reads the file to its end prints the number of items shown so far and
  terminates, and each reading counts one item, so the next program prints the next number; whoever
  reads on after the end starts a new sequence.
\<close>

theorem procfs4_counts:
  "cat_main 2 prog seq_read (Inr (my_open counter)) = Some (dec_int (sint counter) @ [LF], EXIT_SUCCESS) \<and>
   seq_read (my_open counter) MAX_BYTES = Some ((counter + 1, 1), Inr (dec_int (sint counter) @ [LF])) \<and>
   seq_read (counter + 1, 1) MAX_BYTES = Some ((counter + 1, 0), Inr []) \<and>
   cat_main 2 prog seq_read (Inr (my_open (counter + 1))) =
     Some (dec_int (sint (counter + 1)) @ [LF], EXIT_SUCCESS)"
proof -
  have "cat_main 2 prog seq_read (Inr (c, 0)) = Some (dec_int (sint c) @ [LF], EXIT_SUCCESS)" for c
    using procfs4_reader.cat_main_prints [of MAX_BYTES prog "(c, 0)"]
    by (simp add: seq_rest_def my_seq_show_def MAX_BYTES_def)
  moreover have "take MAX_BYTES (my_seq_show counter) = my_seq_show counter"
    using length_my_seq_show [of counter] by (simp add: MAX_BYTES_def)
  ultimately show ?thesis by (simp add: seq_read_eq my_open_def) (simp add: my_seq_show_def)
qed

end
