(* ===== verification/Kbleds.thy ===== *)
theory Kbleds
  imports Prelude
begin

text \<open>
  examples/kbleds.c: a timer that switches the keyboard's LEDs between all lit and their normal use
  until the module is unloaded. The commands given to the keyboard driver are a list, the last one
  last. A console or terminal that is not there is \<open>None\<close>, and following the pointer to it gives the
  result \<open>None\<close>.
\<close>

definition ALL_LEDS_ON :: "64 word" where "ALL_LEDS_ON = 0x07"
definition RESTORE_LEDS :: "64 word" where "RESTORE_LEDS = 0xFF"

text \<open>The terminal of the foreground console, \<open>vc_cons[fg_console].d->port.tty\<close>, may be missing.\<close>

record kbleds =
  kb_status :: "64 word"
  kb_timer :: bool                    \<comment> \<open>the timer is pending\<close>
  kb_commands :: "64 word list"       \<comment> \<open>arguments of \<open>KDSETLED\<close>\<close>

definition kbleds_start :: kbleds where
  "kbleds_start = \<lparr>kb_status = 0, kb_timer = False, kb_commands = []\<rparr>"

text \<open>The timer's function, called when the timer has run out; it starts the timer again.\<close>

definition my_timer_func :: "bool \<Rightarrow> kbleds \<Rightarrow> kbleds option" where
  "my_timer_func tty s =
     (let status = (if kb_status s = ALL_LEDS_ON then RESTORE_LEDS else ALL_LEDS_ON);
          s = s\<lparr>kb_status := status\<rparr>
      in if \<not> tty then None
         else (let s = s\<lparr>kb_commands := kb_commands s @ [status]\<rparr>
               in Some (s\<lparr>kb_timer := True\<rparr>)))"

text \<open>The consoles that init lists: those before the first that is missing, by number.\<close>

fun scan_consoles :: "nat \<Rightarrow> bool list \<Rightarrow> nat list" where
  "scan_consoles i [] = []"
| "scan_consoles i (present # cons) = (if \<not> present then [] else i # scan_consoles (Suc i) cons)"

text \<open>
  \<open>kbleds_init\<close>, for the consoles, the number of the foreground console, and whether that has a
  terminal: the state, the return value, and the consoles listed.
\<close>

definition kbleds_init ::
    "bool list \<Rightarrow> nat \<Rightarrow> bool \<Rightarrow> kbleds \<Rightarrow> (kbleds \<times> int \<times> nat list) option" where
  "kbleds_init consoles fg_console tty s =
     (if fg_console < length consoles \<and> consoles ! fg_console \<and> tty
      then Some (s\<lparr>kb_timer := True\<rparr>, 0, scan_consoles 0 consoles)
      else None)"

text \<open>\<open>kbleds_cleanup\<close>: stop the timer for good, then give the LEDs back.\<close>

definition kbleds_cleanup :: "bool \<Rightarrow> kbleds \<Rightarrow> kbleds option" where
  "kbleds_cleanup tty s =
     (let s = s\<lparr>kb_timer := False\<rparr>
      in if \<not> tty then None else Some (s\<lparr>kb_commands := kb_commands s @ [RESTORE_LEDS]\<rparr>))"

text \<open>
  The timer runs out \<open>n\<close> times, the terminal being there each time; it can only when it is pending.
\<close>

fun ticks :: "nat \<Rightarrow> kbleds \<Rightarrow> kbleds option" where
  "ticks 0 s = Some s"
| "ticks (Suc n) s = 
     (if kb_timer s
      then Option.bind (my_timer_func True (s\<lparr>kb_timer := False\<rparr>)) (ticks n)
      else None)"

definition blinks :: "64 word \<Rightarrow> nat \<Rightarrow> 64 word list" where
  "blinks status n = map (\<lambda>i. if even i = (status = ALL_LEDS_ON) then RESTORE_LEDS else ALL_LEDS_ON) [0..<n]"

lemma leds_differ: "RESTORE_LEDS \<noteq> ALL_LEDS_ON"
  by (simp add: RESTORE_LEDS_def ALL_LEDS_ON_def)

lemma blinks_Suc:
  "blinks status (Suc n) =
     (let next = (if status = ALL_LEDS_ON then RESTORE_LEDS else ALL_LEDS_ON) in next # blinks next n)"
  using leds_differ
  by (auto simp: blinks_def upt_conv_Cons map_Suc_upt [symmetric] Let_def simp del: upt_Suc)

lemma ticks_eq:
  assumes "kb_timer s"
  shows "\<exists>t. ticks n s = Some t \<and> kb_timer t \<and> kb_commands t = kb_commands s @ blinks (kb_status s) n"
  using assms
proof (induction n arbitrary: s)
  case 0
  then show ?case by (simp add: blinks_def)
next
  case (Suc n)
  define status where "status = (if kb_status s = ALL_LEDS_ON then RESTORE_LEDS else ALL_LEDS_ON)"
  have "my_timer_func True (s\<lparr>kb_timer := False\<rparr>) =
      Some (s\<lparr>kb_status := status, kb_commands := kb_commands s @ [status], kb_timer := True\<rparr>)"
    by (simp add: my_timer_func_def status_def Let_def)
  then show ?case
    using Suc.IH [of "s\<lparr>kb_status := status, kb_commands := kb_commands s @ [status], kb_timer := True\<rparr>"]
      Suc.prems
    by (auto simp: blinks_Suc Let_def status_def [symmetric])
qed

lemma scan_consoles_eq: "scan_consoles i cons = [i..<i + length (takeWhile id cons)]"
  by (induction i cons rule: scan_consoles.induct) (auto simp: upt_conv_Cons simp del: upt_Suc)

subsection \<open>Properties\<close>

text \<open>
  From loading to unloading, however often the timer runs out, the LEDs are alternately all lit and
  given back, starting with all lit, and unloading gives them back last and leaves no timer behind.
\<close>

theorem kbleds_blink:
  assumes "fg_console < length consoles" and "consoles ! fg_console"
  shows "\<exists>s t u. kbleds_init consoles fg_console True kbleds_start =
      Some (s, 0, [0..<length (takeWhile id consoles)]) \<and>
    ticks n s = Some t \<and> kbleds_cleanup True t = Some u \<and> \<not> kb_timer u \<and>
    kb_commands u = map (\<lambda>i. if even i then ALL_LEDS_ON else RESTORE_LEDS) [0..<n] @ [RESTORE_LEDS]"
proof -
  let ?s = "kbleds_start\<lparr>kb_timer := True\<rparr>"
  obtain t where t: "ticks n ?s = Some t" "kb_commands t = blinks 0 n"
    using ticks_eq [of ?s n] by (auto simp: kbleds_start_def)
  have "blinks 0 n = map (\<lambda>i. if even i then ALL_LEDS_ON else RESTORE_LEDS) [0..<n]"
    by (simp add: blinks_def ALL_LEDS_ON_def)
  with t assms show ?thesis
    by (simp add: kbleds_init_def kbleds_cleanup_def scan_consoles_eq)
qed

theorem kbleds_blink_witness:
  "\<exists>s t u. kbleds_init [True, True, False] 1 True kbleds_start =
      Some (s, 0, [0..<length (takeWhile id [True, True, False])]) \<and>
    ticks 3 s = Some t \<and> kbleds_cleanup True t = Some u \<and> \<not> kb_timer u \<and>
    kb_commands u = map (\<lambda>i. if even i then ALL_LEDS_ON else RESTORE_LEDS) [0..<3] @ [RESTORE_LEDS]"
  by (rule kbleds_blink) simp_all

end
