(* ===== verification/Deferred.thy ===== *)
theory Deferred
  imports Lifecycle Transition
begin

text \<open>
  Work handed to the kernel to be run later: examples/sched.c queues it on a work queue of its own,
  examples/example_tasklet.c schedules a tasklet. In both, unloading first waits until the work has run.
  One transition system covers the two: what they print is a parameter, and a thread of the kernel runs
  the work at any time after it is queued, beside the thread that loads and unloads the module.
\<close>

datatype load_pc =
    D_Init          \<comment> \<open>at the call that queues the work\<close>
  | D_Queued        \<comment> \<open>in init, after that call\<close>
  | D_Failed        \<comment> \<open>init has returned an error\<close>
  | D_Loaded
  | D_Flush         \<comment> \<open>in exit, waiting for the work\<close>
  | D_Unloaded

datatype work_pc = Work_None | Work_Pending | Work_Running | Work_Over

record deferred =
  d_load :: load_pc
  d_work :: work_pc
  d_log :: "string list"

definition deferred_start :: deferred where
  "deferred_start = \<lparr>d_load = D_Init, d_work = Work_None, d_log = []\<rparr>"

text \<open>
  The kernel's side: the work starts and ends, printing the lines \<open>begins\<close> and \<open>ends\<close>; \<open>flush_workqueue\<close>
  and \<open>tasklet_kill\<close> return when it is neither pending nor running.
\<close>

inductive work_step :: "string list \<Rightarrow> string list \<Rightarrow> deferred \<Rightarrow> deferred \<Rightarrow> bool" for begins ends where
  work_starts: "d_work s = Work_Pending \<Longrightarrow>
    work_step begins ends s (s\<lparr>d_work := Work_Running, d_log := d_log s @ begins\<rparr>)"
| work_ends: "d_work s = Work_Running \<Longrightarrow>
    work_step begins ends s (s\<lparr>d_work := Work_Over, d_log := d_log s @ ends\<rparr>)"

definition flushed :: "deferred \<Rightarrow> bool" where
  "flushed s \<longleftrightarrow> d_work s \<noteq> Work_Pending \<and> d_work s \<noteq> Work_Running"

subsection \<open>sched.c\<close>

inductive sched_init :: "deferred \<Rightarrow> deferred \<Rightarrow> bool" where
  no_queue: "d_load s = D_Init \<Longrightarrow>
    sched_init s (s\<lparr>d_load := D_Failed, d_log := d_log s @ [''Failed to allocate workqueue'']\<rparr>)"
| queue_work: "d_load s = D_Init \<Longrightarrow> sched_init s (s\<lparr>d_load := D_Queued, d_work := Work_Pending\<rparr>)"
| return_0: "d_load s = D_Queued \<Longrightarrow> sched_init s (s\<lparr>d_load := D_Loaded\<rparr>)"

inductive sched_exit :: "deferred \<Rightarrow> deferred \<Rightarrow> bool" where
  rmmod: "d_load s = D_Loaded \<Longrightarrow> sched_exit s (s\<lparr>d_load := D_Flush\<rparr>)"
| flush: "d_load s = D_Flush \<Longrightarrow> flushed s \<Longrightarrow> sched_exit s (s\<lparr>d_load := D_Unloaded\<rparr>)"

definition work_handler :: "string list" where
  "work_handler = [''work handler function.'']"

definition sched_step :: "deferred \<Rightarrow> deferred \<Rightarrow> bool" where
  "sched_step s t \<longleftrightarrow> work_step work_handler [] s t \<or> sched_init s t \<or> sched_exit s t"

text \<open>The objects: the work queue, for whether it could be made.\<close>

definition sched_module_init :: "bool \<Rightarrow> int \<times> kop list" where
  "sched_module_init made = (if \<not> made then (- ENOMEM, []) else (0, [Acquire (Workqueue ''HELLOWORLD'')]))"

definition sched_module_exit :: "bool \<Rightarrow> kop list" where
  "sched_module_exit made = [Release (Workqueue ''HELLOWORLD'')]"

interpretation sched_mod: module_lifecycle sched_module_init sched_module_exit
    "\<lambda>_. {Workqueue ''HELLOWORLD''}" "\<lambda>_. True"
  by unfold_locales (auto simp: sched_module_init_def sched_module_exit_def split: if_splits)

subsection \<open>example_tasklet.c\<close>

definition tasklet_begins :: "string list" where "tasklet_begins = [''Example tasklet starts'']"
definition tasklet_ends :: "string list" where "tasklet_ends = [''Example tasklet ends'']"

inductive example_tasklet_init :: "deferred \<Rightarrow> deferred \<Rightarrow> bool" where
  schedule: "d_load s = D_Init \<Longrightarrow>
    example_tasklet_init s (s\<lparr>d_load := D_Queued, d_work := Work_Pending,
      d_log := d_log s @ [''tasklet example init'']\<rparr>)"
| continues: "d_load s = D_Queued \<Longrightarrow>
    example_tasklet_init s (s\<lparr>d_load := D_Loaded,
      d_log := d_log s @ [''Example tasklet init continues...'']\<rparr>)"

inductive example_tasklet_exit :: "deferred \<Rightarrow> deferred \<Rightarrow> bool" where
  rmmod: "d_load s = D_Loaded \<Longrightarrow>
    example_tasklet_exit s (s\<lparr>d_load := D_Flush, d_log := d_log s @ [''tasklet example exit'']\<rparr>)"
| kill: "d_load s = D_Flush \<Longrightarrow> flushed s \<Longrightarrow>
    example_tasklet_exit s (s\<lparr>d_load := D_Unloaded\<rparr>)"

definition tasklet_step :: "deferred \<Rightarrow> deferred \<Rightarrow> bool" where
  "tasklet_step s t \<longleftrightarrow> work_step tasklet_begins tasklet_ends s t \<or>
     example_tasklet_init s t \<or> example_tasklet_exit s t"

subsection \<open>What both owe\<close>

text \<open>
  A module that defers work: queueing it is a step of its own, a step of the loader never touches work
  that is queued, and the module is only unloaded when its work is over.
\<close>

definition deferred_inv :: "deferred \<Rightarrow> bool" where
  "deferred_inv s \<longleftrightarrow> (d_work s = Work_None \<longleftrightarrow> d_load s \<in> {D_Init, D_Failed}) \<and>
     (d_load s = D_Unloaded \<longrightarrow> d_work s = Work_Over)"

fun load_weight :: "load_pc \<Rightarrow> nat" where
  "load_weight D_Init = 4"
| "load_weight D_Queued = 3"
| "load_weight D_Loaded = 2"
| "load_weight D_Flush = 1"
| "load_weight D_Failed = 0"
| "load_weight D_Unloaded = 0"

fun work_weight :: "work_pc \<Rightarrow> nat" where
  "work_weight Work_None = 3"
| "work_weight Work_Pending = 2"
| "work_weight Work_Running = 1"
| "work_weight Work_Over = 0"

definition deferred_weight :: "deferred \<Rightarrow> nat" where
  "deferred_weight s = load_weight (d_load s) + work_weight (d_work s)"

definition deferred_finished :: "deferred \<Rightarrow> bool" where
  "deferred_finished s \<longleftrightarrow> d_load s = D_Failed \<or> d_load s = D_Unloaded"

text \<open>How often the work has begun and ended is in the log.\<close>

definition work_log :: "string list \<Rightarrow> string list \<Rightarrow> deferred \<Rightarrow> bool" where
  "work_log begins ends s \<longleftrightarrow>
     filter (\<lambda>l. l \<in> set (begins @ ends)) (d_log s) =
       (case d_work s of Work_Running \<Rightarrow> begins | Work_Over \<Rightarrow> begins @ ends | _ \<Rightarrow> [])"

locale deferred_work =
  fixes begins ends :: "string list" and loader :: "deferred \<Rightarrow> deferred \<Rightarrow> bool"
  assumes loader_queue: "loader s t \<Longrightarrow> d_load s = D_Init \<Longrightarrow>
      d_load t = D_Failed \<and> d_work t = d_work s \<or> d_load t = D_Queued \<and> d_work t = Work_Pending"
    and loader_next: "loader s t \<Longrightarrow> d_load s \<noteq> D_Init \<Longrightarrow> d_work t = d_work s \<and>
      (d_load s, d_load t) \<in> {(D_Queued, D_Loaded), (D_Loaded, D_Flush), (D_Flush, D_Unloaded)}"
    and loader_flush: "loader s t \<Longrightarrow> d_load t = D_Unloaded \<Longrightarrow> flushed s"
    and loader_log: "loader s t \<Longrightarrow> \<exists>ls. d_log t = d_log s @ ls \<and> set ls \<inter> set (begins @ ends) = {}"
    and loader_goes: "d_load s \<notin> {D_Failed, D_Unloaded} \<Longrightarrow> d_load s = D_Flush \<longrightarrow> flushed s \<Longrightarrow>
      \<exists>t. loader s t"
begin

definition sys_step :: "deferred \<Rightarrow> deferred \<Rightarrow> bool" where
  "sys_step s t \<longleftrightarrow> work_step begins ends s t \<or> loader s t"

lemma sys_inv:
  assumes "sys_step s t" and "deferred_inv s \<and> work_log begins ends s"
  shows "deferred_inv t \<and> work_log begins ends t"
proof -
  consider (work) "work_step begins ends s t" | (load) "loader s t"
    using assms(1) by (auto simp: sys_step_def)
  then show ?thesis
  proof cases
    case work
    then show ?thesis using assms(2)
      by cases (auto simp: deferred_inv_def work_log_def)
  next
    case load
    from loader_log [OF load] obtain ls where ls: "d_log t = d_log s @ ls"
      "set ls \<inter> set (begins @ ends) = {}" by blast
    then have "filter (\<lambda>l. l \<in> set (begins @ ends)) ls = []" by (auto simp: filter_empty_conv)
    with ls have log: "filter (\<lambda>l. l \<in> set (begins @ ends)) (d_log t) =
        filter (\<lambda>l. l \<in> set (begins @ ends)) (d_log s)" by simp
    show ?thesis
    proof (cases "d_load s = D_Init")
      case True
      with loader_queue [OF load True] assms(2) log show ?thesis
        by (auto simp: deferred_inv_def work_log_def)
    next
      case False
      with loader_next [OF load False] loader_flush [OF load] assms(2) log show ?thesis
        by (auto simp: deferred_inv_def work_log_def flushed_def; cases "d_work s"; auto)
    qed
  qed
qed

lemma sys_weight:
  assumes "sys_step s t" and "deferred_inv s"
  shows "deferred_weight t < deferred_weight s"
proof -
  consider (work) "work_step begins ends s t" | (load) "loader s t"
    using assms(1) by (auto simp: sys_step_def)
  then show ?thesis
  proof cases
    case work
    then show ?thesis by cases (auto simp: deferred_weight_def)
  next
    case load
    then show ?thesis
      using loader_queue [OF load] loader_next [OF load] assms(2)
      by (cases "d_load s = D_Init") (auto simp: deferred_weight_def deferred_inv_def)
  qed
qed

lemma sys_progress:
  assumes "deferred_inv s" and "\<not> deferred_finished s"
  shows "\<exists>t. sys_step s t"
proof (cases "flushed s")
  case True
  with assms(2) loader_goes [of s] show ?thesis by (auto simp: sys_step_def deferred_finished_def)
next
  case False
  then show ?thesis by (auto simp: flushed_def sys_step_def intro: work_step.intros)
qed

end

sublocale deferred_work \<subseteq> sys: terminating_system sys_step deferred_start
    "\<lambda>s. deferred_inv s \<and> work_log begins ends s" deferred_finished deferred_weight
  by unfold_locales
    (auto simp: sys_inv sys_weight sys_progress, auto simp: deferred_inv_def work_log_def deferred_start_def)

interpretation sched: deferred_work work_handler "[]" "\<lambda>s t. sched_init s t \<or> sched_exit s t"
proof unfold_locales
  fix s
  assume "d_load s \<notin> {D_Failed, D_Unloaded}" and "d_load s = D_Flush \<longrightarrow> flushed s"
  then show "\<exists>t. sched_init s t \<or> sched_exit s t"
    by (cases "d_load s") (auto intro: sched_init.intros sched_exit.intros)
qed (auto elim!: sched_init.cases sched_exit.cases simp: work_handler_def)

interpretation tasklet: deferred_work tasklet_begins tasklet_ends
    "\<lambda>s t. example_tasklet_init s t \<or> example_tasklet_exit s t"
proof unfold_locales
  fix s
  assume "d_load s \<notin> {D_Failed, D_Unloaded}" and "d_load s = D_Flush \<longrightarrow> flushed s"
  then show "\<exists>t. example_tasklet_init s t \<or> example_tasklet_exit s t"
    by (cases "d_load s") (auto intro: example_tasklet_init.intros example_tasklet_exit.intros)
qed (auto elim!: example_tasklet_init.cases example_tasklet_exit.cases
    simp: tasklet_begins_def tasklet_ends_def)

lemma sched_step_eq: "sched_step = sched.sys_step"
  by (simp add: fun_eq_iff sched_step_def sched.sys_step_def)

lemma tasklet_step_eq: "tasklet_step = tasklet.sys_step"
  by (simp add: fun_eq_iff tasklet_step_def tasklet.sys_step_def)

context deferred_work
begin

lemma unloaded_after_work:
  assumes "reachable sys_step deferred_start s" and "d_load s = D_Unloaded"
  shows "d_work s = Work_Over \<and> filter (\<lambda>l. l \<in> set (begins @ ends)) (d_log s) = begins @ ends"
  using sys.reachable_inv [OF assms(1)] assms(2) by (simp add: deferred_inv_def work_log_def)

text \<open>Every run ends, after seven steps at most, and every state can go on to its end.\<close>

lemma weight_bound: "deferred_weight s \<le> 7"
  by (cases "d_load s"; cases "d_work s") (simp_all add: deferred_weight_def)

lemma run_ends:
  assumes "reachable sys_step deferred_start s"
  shows "\<exists>u. reachable sys_step s u \<and> deferred_finished u"
    and "step_path sys_step s ss \<Longrightarrow> length ss \<le> 7"
  using sys.completes [of s] sys.path_bound [of s ss] sys.reachable_inv [OF assms] weight_bound [of s]
  by auto

end

subsection \<open>Properties\<close>

text \<open>
  C21: the two modules are unloaded only when their work has run, exactly once and to its end, so no work
  runs in a module that is gone; and the wait in their exit functions always comes to an end: from every
  state the module can still be unloaded (or has failed to load), and no run has more than seven steps.
\<close>

theorem deferred_work_done_before_unload:
  assumes "reachable sched_step deferred_start s" and "reachable tasklet_step deferred_start t"
  shows "(d_load s = D_Unloaded \<longrightarrow> d_work s = Work_Over \<and>
        filter (\<lambda>l. l \<in> set work_handler) (d_log s) = work_handler) \<and>
    (d_load t = D_Unloaded \<longrightarrow> d_work t = Work_Over \<and>
        filter (\<lambda>l. l \<in> set (tasklet_begins @ tasklet_ends)) (d_log t) = tasklet_begins @ tasklet_ends) \<and>
    (\<exists>u. reachable sched_step s u \<and> d_load u \<in> {D_Failed, D_Unloaded}) \<and>
    (\<exists>u. reachable tasklet_step t u \<and> d_load u \<in> {D_Failed, D_Unloaded}) \<and>
    (step_path sched_step s ss \<longrightarrow> length ss \<le> 7) \<and> (step_path tasklet_step t ts \<longrightarrow> length ts \<le> 7)"
  using sched.unloaded_after_work [of s] tasklet.unloaded_after_work [of t] sched.run_ends(1) [of s]
    sched.run_ends(2) [of s ss] tasklet.run_ends(1) [of t] tasklet.run_ends(2) [of t ts] assms
  unfolding sched_step_eq tasklet_step_eq deferred_finished_def by simp

definition demo_deferred :: "load_pc \<Rightarrow> work_pc \<Rightarrow> string list \<Rightarrow> deferred" where
  "demo_deferred l w ls = \<lparr>d_load = l, d_work = w, d_log = ls\<rparr>"

lemma demo_sched:
  "reachable sched_step deferred_start (demo_deferred D_Unloaded Work_Over work_handler)"
proof -
  have "step_path sched_step deferred_start [demo_deferred D_Queued Work_Pending [],
      demo_deferred D_Loaded Work_Pending [], demo_deferred D_Flush Work_Pending [],
      demo_deferred D_Flush Work_Running work_handler, demo_deferred D_Flush Work_Over work_handler,
      demo_deferred D_Unloaded Work_Over work_handler]"
    by (simp add: demo_deferred_def deferred_start_def sched_step_def work_step.simps sched_init.simps
        sched_exit.simps flushed_def)
  from reachable_path [OF this] show ?thesis by simp
qed

lemma demo_tasklet:
  "\<exists>ls. reachable tasklet_step deferred_start (demo_deferred D_Unloaded Work_Over ls)"
proof -
  let ?a = "[''tasklet example init'']"
  let ?b = "?a @ tasklet_begins @ [''Example tasklet init continues...'']"
  let ?c = "?b @ [''tasklet example exit'']"
  let ?d = "?c @ tasklet_ends"
  have "step_path tasklet_step deferred_start [demo_deferred D_Queued Work_Pending ?a,
      demo_deferred D_Queued Work_Running (?a @ tasklet_begins), demo_deferred D_Loaded Work_Running ?b,
      demo_deferred D_Flush Work_Running ?c, demo_deferred D_Flush Work_Over ?d,
      demo_deferred D_Unloaded Work_Over ?d]"
    by (simp add: demo_deferred_def deferred_start_def tasklet_step_def work_step.simps
        example_tasklet_init.simps example_tasklet_exit.simps flushed_def)
  from reachable_path [OF this] show ?thesis by auto
qed

theorem deferred_work_done_before_unload_witness:
  "\<exists>s t. reachable sched_step deferred_start s \<and> d_load s = D_Unloaded \<and>
    filter (\<lambda>l. l \<in> set work_handler) (d_log s) = work_handler \<and>
    reachable tasklet_step deferred_start t \<and> d_load t = D_Unloaded \<and> d_work t = Work_Over"
proof -
  obtain ls where t: "reachable tasklet_step deferred_start (demo_deferred D_Unloaded Work_Over ls)"
    using demo_tasklet by blast
  have l: "d_load (demo_deferred D_Unloaded w ls) = D_Unloaded" for w ls by (simp add: demo_deferred_def)
  from deferred_work_done_before_unload [OF demo_sched t, of "[]" "[]"] demo_sched t show ?thesis
    by (metis l)
qed

end
