(* ===== verification/Small_Modules.thy ===== *)
theory Small_Modules
  imports Lifecycle
begin

unbundle bit_operations_syntax

text \<open>
  Modules that do their work in the init function: examples/kmem_cache.c, example_atomic.c,
  example_mutex.c, example_spinlock.c, example_rwlock.c, print_string.c, hello-1.c to hello-5.c, start.c
  and stop.c.
\<close>

subsection \<open>kmem_cache.c\<close>

text \<open>Whether the cache and its two objects could be had.\<close>

record cache_env =
  ce_cache :: bool
  ce_obj1 :: bool
  ce_obj2 :: bool

definition kmem_cache_example_init :: "cache_env \<Rightarrow> int \<times> kop list" where
  "kmem_cache_example_init e =
     (if \<not> ce_cache e then (- ENOMEM, [])
      else (let ops = [Acquire (Slab ''my_custom_cache'')] @
                      (if ce_obj1 e then [Acquire (Slab_Object ''obj1'')] else []) @
                      (if ce_obj2 e then [Acquire (Slab_Object ''obj2'')] else [])
            in if \<not> ce_obj1 e \<or> \<not> ce_obj2 e
               then (- ENOMEM, ops @
                       (if ce_obj1 e then [Release (Slab_Object ''obj1'')] else []) @
                       (if ce_obj2 e then [Release (Slab_Object ''obj2'')] else []) @
                       [Release (Slab ''my_custom_cache'')])
               else (0, ops)))"

definition kmem_cache_example_exit :: "cache_env \<Rightarrow> kop list" where
  "kmem_cache_example_exit e =
     (if ce_obj1 e then [Release (Slab_Object ''obj1'')] else []) @
     (if ce_obj2 e then [Release (Slab_Object ''obj2'')] else []) @
     (if ce_cache e then [Release (Slab ''my_custom_cache'')] else [])"

definition cache_owned :: "cache_env \<Rightarrow> resource set" where
  "cache_owned e = {Slab ''my_custom_cache'', Slab_Object ''obj1'', Slab_Object ''obj2''}"

interpretation cache_mod: module_lifecycle kmem_cache_example_init kmem_cache_example_exit cache_owned
    "\<lambda>_. True"
  by unfold_locales
    (auto simp: kmem_cache_example_init_def kmem_cache_example_exit_def cache_owned_def Let_def
      split: if_splits)

subsection \<open>example_atomic.c\<close>

text \<open>The macro \<open>BYTE_TO_BINARY\<close>: one character for each of the eight masks.\<close>

definition BYTE_TO_BINARY :: "64 word \<Rightarrow> string" where
  "BYTE_TO_BINARY byte =
     [if byte AND 0x80 \<noteq> 0 then CHR ''1'' else CHR ''0'', if byte AND 0x40 \<noteq> 0 then CHR ''1'' else CHR ''0'',
      if byte AND 0x20 \<noteq> 0 then CHR ''1'' else CHR ''0'', if byte AND 0x10 \<noteq> 0 then CHR ''1'' else CHR ''0'',
      if byte AND 0x08 \<noteq> 0 then CHR ''1'' else CHR ''0'', if byte AND 0x04 \<noteq> 0 then CHR ''1'' else CHR ''0'',
      if byte AND 0x02 \<noteq> 0 then CHR ''1'' else CHR ''0'', if byte AND 0x01 \<noteq> 0 then CHR ''1'' else CHR ''0'']"

text \<open>The bits of the lowest byte, the highest first.\<close>

definition byte_bits :: "64 word \<Rightarrow> string" where
  "byte_bits w = map (\<lambda>i. if bit w i then CHR ''1'' else CHR ''0'') [7, 6, 5, 4, 3, 2, 1, 0]"

definition atomic_add_subtract :: string where
  "atomic_add_subtract =
     (let chris = 50 :: 32 word; debbie = 45 :: 32 word;
          debbie = debbie - 1; debbie = debbie + 7; debbie = debbie + 1
      in ''chris: '' @ dec_int (sint chris) @ '', debbie: '' @ dec_int (sint debbie) @ [LF])"

definition test_and_set_bit :: "nat \<Rightarrow> 64 word \<Rightarrow> 64 word \<times> bool" where
  "test_and_set_bit n w = (set_bit n w, bit w n)"

text \<open>The lines of \<open>atomic_bitwise\<close>; only the last ends with a newline.\<close>

definition atomic_bitwise :: "string list" where
  "atomic_bitwise =
     (let w = 0;
          l0 = ''Bits 0: '' @ BYTE_TO_BINARY w;
          w = set_bit 3 w; w = set_bit 5 w;
          l1 = ''Bits 1: '' @ BYTE_TO_BINARY w;
          w = unset_bit 5 w;
          l2 = ''Bits 2: '' @ BYTE_TO_BINARY w;
          w = flip_bit 3 w;
          l3 = ''Bits 3: '' @ BYTE_TO_BINARY w;
          (w, old) = test_and_set_bit 3 w;
          wrong = (if old then [''wrong'' @ [LF]] else []);
          l4 = ''Bits 4: '' @ BYTE_TO_BINARY w;
          w = 255;
          l5 = ''Bits 5: '' @ BYTE_TO_BINARY w @ [LF]
      in [l0, l1, l2, l3] @ wrong @ [l4, l5])"

definition example_atomic_init :: "int \<times> string list" where
  "example_atomic_init = (0, ''example_atomic started'' # atomic_add_subtract # atomic_bitwise)"

lemma mask_bit: "w AND 2 ^ n \<noteq> 0 \<longleftrightarrow> bit (w :: 64 word) n"
  by (simp add: bit_iff_and_push_bit_not_eq_0 push_bit_of_1)

text \<open>The macro prints the bits of the byte.\<close>

lemma BYTE_TO_BINARY_bits: "BYTE_TO_BINARY w = byte_bits w"
  using mask_bit [of w 7] mask_bit [of w 6] mask_bit [of w 5] mask_bit [of w 4] mask_bit [of w 3]
    mask_bit [of w 2] mask_bit [of w 1] mask_bit [of w 0]
  by (simp add: BYTE_TO_BINARY_def byte_bits_def)

lemma atomic_bitwise_lines:
  "atomic_bitwise =
     [''Bits 0: 00000000'', ''Bits 1: 00101000'', ''Bits 2: 00001000'', ''Bits 3: 00000000'',
      ''Bits 4: 00001000'', ''Bits 5: 11111111'' @ [LF]]"
  by (simp add: atomic_bitwise_def BYTE_TO_BINARY_bits byte_bits_def test_and_set_bit_def Let_def
      bit_simps)

subsection \<open>Locks\<close>

text \<open>
  The locks, by name, that are held exclusively (a spin lock, or a read/write lock by its writer), the
  numbers of readers, and the processor's interrupt flag. Taking a lock that is held is waiting for ever
  on one processor, which is the result \<open>None\<close>.
\<close>

record lock_cpu =
  lc_held :: "string set"
  lc_readers :: "string \<Rightarrow> nat"
  lc_irqs :: bool                \<comment> \<open>interrupts are enabled\<close>
  lc_log :: "string list"

definition log_line :: "string \<Rightarrow> lock_cpu \<Rightarrow> lock_cpu" where
  "log_line l s = s\<lparr>lc_log := lc_log s @ [l]\<rparr>"

definition spin_lock_init :: "string \<Rightarrow> lock_cpu \<Rightarrow> lock_cpu" where
  "spin_lock_init l s = s\<lparr>lc_held := lc_held s - {l}\<rparr>"

text \<open>Also \<open>write_lock_irqsave\<close>, for which there must be no reader either.\<close>

definition spin_lock_irqsave :: "string \<Rightarrow> lock_cpu \<Rightarrow> (lock_cpu \<times> bool) option" where
  "spin_lock_irqsave l s =
     (if l \<in> lc_held s \<or> lc_readers s l \<noteq> 0 then None
      else Some (s\<lparr>lc_held := insert l (lc_held s), lc_irqs := False\<rparr>, lc_irqs s))"

definition spin_unlock_irqrestore :: "string \<Rightarrow> bool \<Rightarrow> lock_cpu \<Rightarrow> lock_cpu" where
  "spin_unlock_irqrestore l flags s = s\<lparr>lc_held := lc_held s - {l}, lc_irqs := flags\<rparr>"

definition read_lock_irqsave :: "string \<Rightarrow> lock_cpu \<Rightarrow> (lock_cpu \<times> bool) option" where
  "read_lock_irqsave l s =
     (if l \<in> lc_held s then None
      else Some (s\<lparr>lc_readers := (lc_readers s)(l := Suc (lc_readers s l)), lc_irqs := False\<rparr>, lc_irqs s))"

definition read_unlock_irqrestore :: "string \<Rightarrow> bool \<Rightarrow> lock_cpu \<Rightarrow> lock_cpu" where
  "read_unlock_irqrestore l flags s =
     s\<lparr>lc_readers := (lc_readers s)(l := lc_readers s l - 1), lc_irqs := flags\<rparr>"

definition example_spinlock_static :: "lock_cpu \<Rightarrow> lock_cpu option" where
  "example_spinlock_static s =
     map_option (\<lambda>(s, flags). log_line ''Unlocked static spinlock''
         (spin_unlock_irqrestore ''sl_static'' flags (log_line ''Locked static spinlock'' s)))
       (spin_lock_irqsave ''sl_static'' s)"

definition example_spinlock_dynamic :: "lock_cpu \<Rightarrow> lock_cpu option" where
  "example_spinlock_dynamic s =
     map_option (\<lambda>(s, flags). log_line ''Unlocked dynamic spinlock''
         (spin_unlock_irqrestore ''sl_dynamic'' flags (log_line ''Locked dynamic spinlock'' s)))
       (spin_lock_irqsave ''sl_dynamic'' (spin_lock_init ''sl_dynamic'' s))"

definition example_spinlock_init :: "lock_cpu \<Rightarrow> (lock_cpu \<times> int) option" where
  "example_spinlock_init s =
     map_option (\<lambda>s. (s, 0)) (Option.bind
       (example_spinlock_static (log_line ''example spinlock started'' s)) example_spinlock_dynamic)"

definition example_read_lock :: "lock_cpu \<Rightarrow> lock_cpu option" where
  "example_read_lock s =
     map_option (\<lambda>(s, flags). log_line ''Read Unlocked''
         (read_unlock_irqrestore ''myrwlock'' flags (log_line ''Read Locked'' s)))
       (read_lock_irqsave ''myrwlock'' s)"

definition example_write_lock :: "lock_cpu \<Rightarrow> lock_cpu option" where
  "example_write_lock s =
     map_option (\<lambda>(s, flags). log_line ''Write Unlocked''
         (spin_unlock_irqrestore ''myrwlock'' flags (log_line ''Write Locked'' s)))
       (spin_lock_irqsave ''myrwlock'' s)"

definition example_rwlock_init :: "lock_cpu \<Rightarrow> (lock_cpu \<times> int) option" where
  "example_rwlock_init s =
     map_option (\<lambda>s. (s, 0)) (Option.bind
       (example_read_lock (log_line ''example_rwlock started'' s)) example_write_lock)"

text \<open>\<open>example_mutex_init\<close>: the mutex, the return value and the lines.\<close>

definition example_mutex_init :: "bool \<Rightarrow> bool \<times> int \<times> string list" where
  "example_mutex_init mymutex =
     (let ret = (if mymutex then 0 else 1 :: int); mymutex = True; ls = [''example_mutex init'']
      in if ret \<noteq> 0
         then (let ls = ls @ [''mutex is locked''];
                   ls = (if mymutex then ls else ls @ [''The mutex failed to lock!'']);
                   mymutex = False
               in (mymutex, 0, ls @ [''mutex is unlocked'']))
         else (mymutex, 0, ls @ [''Failed to lock'']))"

text \<open>Each critical section leaves the lock, its readers and the interrupt flag as they were.\<close>

lemmas lock_ops = log_line_def spin_lock_init_def spin_lock_irqsave_def spin_unlock_irqrestore_def
  read_lock_irqsave_def read_unlock_irqrestore_def

lemma locks_balanced:
  "''myrwlock'' \<notin> lc_held s \<Longrightarrow>
    example_read_lock s = Some (s\<lparr>lc_log := lc_log s @ [''Read Locked'', ''Read Unlocked'']\<rparr>)"
  "''myrwlock'' \<notin> lc_held s \<Longrightarrow> lc_readers s ''myrwlock'' = 0 \<Longrightarrow>
    example_write_lock s = Some (s\<lparr>lc_log := lc_log s @ [''Write Locked'', ''Write Unlocked'']\<rparr>)"
  "''sl_static'' \<notin> lc_held s \<Longrightarrow> lc_readers s ''sl_static'' = 0 \<Longrightarrow> example_spinlock_static s =
    Some (s\<lparr>lc_log := lc_log s @ [''Locked static spinlock'', ''Unlocked static spinlock'']\<rparr>)"
  "''sl_dynamic'' \<notin> lc_held s \<Longrightarrow> lc_readers s ''sl_dynamic'' = 0 \<Longrightarrow> example_spinlock_dynamic s =
    Some (s\<lparr>lc_log := lc_log s @ [''Locked dynamic spinlock'', ''Unlocked dynamic spinlock'']\<rparr>)"
  by (cases s; simp add: example_read_lock_def example_write_lock_def example_spinlock_static_def
      example_spinlock_dynamic_def lock_ops)+

lemma example_mutex_unlocked: "fst (example_mutex_init mymutex) = mymutex"
  by (simp add: example_mutex_init_def)

subsection \<open>print_string.c\<close>

text \<open>What is written to the terminal of the current task, if it has one, one call after the other.\<close>

definition print_string :: "bool \<Rightarrow> string \<Rightarrow> string list" where
  "print_string my_tty str = (if my_tty then [str, [CHR 0x0D, CHR 0x0A]] else [])"

definition print_string_init :: "bool \<Rightarrow> int \<times> string list" where
  "print_string_init my_tty = (0, print_string my_tty ''The module has been inserted.  Hello world!'')"

definition print_string_exit :: "bool \<Rightarrow> string list" where
  "print_string_exit my_tty = print_string my_tty ''The module has been removed.  Farewell world!''"

subsection \<open>hello-1.c to hello-4.c, start.c and stop.c\<close>

text \<open>The return value of init and the line it prints, and the line of exit.\<close>

definition hello_1_init_module :: "int \<times> string" where
  "hello_1_init_module = (0, ''Hello world 1.'' @ [LF])"

definition hello_1_cleanup_module :: string where
  "hello_1_cleanup_module = ''Goodbye world 1.'' @ [LF]"

definition hello_2_init :: "int \<times> string" where
  "hello_2_init = (0, ''Hello, world 2'' @ [LF])"

definition hello_2_exit :: string where
  "hello_2_exit = ''Goodbye, world 2'' @ [LF]"

definition hello3_data :: "32 word" where
  "hello3_data = 3"

definition hello_3_init :: "int \<times> string" where
  "hello_3_init = (0, ''Hello, world '' @ dec_int (sint hello3_data) @ [LF])"

definition hello_3_exit :: string where
  "hello_3_exit = ''Goodbye, world 3'' @ [LF]"

definition init_hello_4 :: "int \<times> string" where
  "init_hello_4 = (0, ''Hello, world 4'' @ [LF])"

definition cleanup_hello_4 :: string where
  "cleanup_hello_4 = ''Goodbye, world 4'' @ [LF]"

definition start_init_module :: "int \<times> string" where
  "start_init_module = (0, ''Hello, world - this is the kernel speaking'' @ [LF])"

definition stop_cleanup_module :: string where
  "stop_cleanup_module = ''Short is the life of a kernel module'' @ [LF]"

subsection \<open>hello-5.c\<close>

record hello_5 =
  h5_myshort :: "16 word"
  h5_myint :: "32 word"
  h5_mylong :: "64 word"
  h5_mystring :: string
  h5_myintarray :: "32 word list"
  h5_arr_argc :: "32 word"

definition hello_5_default :: hello_5 where
  "hello_5_default = \<lparr>h5_myshort = 1, h5_myint = 420, h5_mylong = 9999, h5_mystring = ''blah'',
     h5_myintarray = [420, 420], h5_arr_argc = 0\<rparr>"

fun array_lines :: "nat \<Rightarrow> 32 word list \<Rightarrow> string list" where
  "array_lines i [] = []"
| "array_lines i (v # vs) =
     (''myintarray['' @ dec_nat i @ ''] = '' @ dec_int (sint v)) # array_lines (Suc i) vs"

definition hello_5_exit :: string where
  "hello_5_exit = ''Goodbye, world 5'' @ [LF]"

definition hello_5_init :: "hello_5 \<Rightarrow> int \<times> string list" where
  "hello_5_init s =
     (0, [''Hello, world 5'', ''============='',
          ''myshort is a short integer: '' @ dec_int (sint (h5_myshort s)),
          ''myint is an integer: '' @ dec_int (sint (h5_myint s)),
          ''mylong is a long integer: '' @ dec_int (sint (h5_mylong s)),
          ''mystring is a string: '' @ h5_mystring s] @
         array_lines 0 (h5_myintarray s) @
         [''got '' @ dec_int (sint (h5_arr_argc s)) @ '' arguments for myintarray.''])"

subsection \<open>Properties\<close>

text \<open>
  Loading the modules that show spin locks and read/write locks, with the locks free, completes
  whether or not interrupts are enabled: every line appears in its order, every lock is free again and
  the interrupt flag is what it was. With a reader inside, the read lock is still to be had, but the
  writer waits for ever.
\<close>

theorem locks_released:
  assumes "lc_held s = {}" and "lc_readers s = (\<lambda>_. 0)" and "0 < n"
  shows "example_spinlock_init s = Some (s\<lparr>lc_log := lc_log s @ [''example spinlock started'',
      ''Locked static spinlock'', ''Unlocked static spinlock'', ''Locked dynamic spinlock'',
      ''Unlocked dynamic spinlock'']\<rparr>, 0) \<and>
    example_rwlock_init s = Some (s\<lparr>lc_log := lc_log s @ [''example_rwlock started'', ''Read Locked'',
      ''Read Unlocked'', ''Write Locked'', ''Write Unlocked'']\<rparr>, 0) \<and>
    (\<exists>t. example_read_lock (s\<lparr>lc_readers := (\<lambda>_. 0)(''myrwlock'' := n)\<rparr>) = Some t \<and>
      lc_readers t ''myrwlock'' = n \<and> example_write_lock t = None)"
  using assms by (simp add: example_spinlock_init_def example_rwlock_init_def locks_balanced log_line_def)
    (simp add: example_write_lock_def spin_lock_irqsave_def)

theorem locks_released_witness:
  "\<exists>t. example_spinlock_init \<lparr>lc_held = {}, lc_readers = (\<lambda>_. 0), lc_irqs = False, lc_log = []\<rparr> =
      Some (\<lparr>lc_held = {}, lc_readers = (\<lambda>_. 0), lc_irqs = False, lc_log = [''example spinlock started'',
        ''Locked static spinlock'', ''Unlocked static spinlock'', ''Locked dynamic spinlock'',
        ''Unlocked dynamic spinlock'']\<rparr>, 0) \<and>
    lc_readers t ''myrwlock'' = 2 \<and> example_write_lock t = None"
  using locks_released [of "\<lparr>lc_held = {}, lc_readers = (\<lambda>_. 0), lc_irqs = False, lc_log = []\<rparr>" 2]
  by auto

text \<open>
  The macro that prints a byte in binary prints the eight lowest bits of its argument, the highest
  first, and with it the module's lines show the bits that its operations have set.
\<close>

theorem byte_to_binary_prints_bits:
  "BYTE_TO_BINARY w = map (\<lambda>i. if bit w i then CHR ''1'' else CHR ''0'') (rev [0..<8]) \<and>
   example_atomic_init = (0, [''example_atomic started'', ''chris: 50, debbie: 52'' @ [LF],
     ''Bits 0: 00000000'', ''Bits 1: 00101000'', ''Bits 2: 00001000'', ''Bits 3: 00000000'',
     ''Bits 4: 00001000'', ''Bits 5: 11111111'' @ [LF]])"
proof -
  have "rev [0..<8] = [7, 6, 5, 4, 3, 2, 1, 0 :: nat]" by (simp add: upt_rec)
  moreover have "atomic_add_subtract = ''chris: 50, debbie: 52'' @ [LF]" by code_simp
  ultimately show ?thesis
    by (simp add: BYTE_TO_BINARY_bits byte_bits_def example_atomic_init_def atomic_bitwise_lines)
qed

end
