(* ===== verification/Io_Safety.thy ===== *)
theory Io_Safety
  imports Chardev Chardev2 Static_Key Sleep Dht11 Gpio_Cdev Procfs Debugfs_File
begin

text \<open>
  What user space can do to the device files of all modules together: which of them keep every session of
  calls (theory \<open>Vfs\<close>) inside their own arrays and the caller's buffers, and what breaks the others.
\<close>


subsection \<open>The exceptions\<close>

text \<open>A safe session has a result, and the results are within their bounds.\<close>

lemma file_safeD:
  assumes "file_safe any_pos fops s0" and "list_all (call_allowed any_pos (fop_owner fops)) cs"
  shows "\<exists>st rets. vfs_run fops cs (session_start s0 m) = Some (st, rets) \<and> list_all2 call_returns cs rets"
  using assms unfolding file_safe_def by blast

text \<open>One call each that shows what the files do.\<close>

lemma procfile_read_short:
  "procfile_read s (\<lambda>_. Some NUL) 0 n 0 =
     Some (s, put_str (\<lambda>_. Some NUL) 0 hello_proc, int (length hello_proc), int (length hello_proc))"
proof -
  have "copy_to_user 0 hello_proc (\<lambda>_. Some NUL) = (put_str (\<lambda>_. Some NUL) 0 hello_proc, 0)"
    by (rule copy_to_user_mapped) (simp add: mapped_def)
  moreover have "\<not> int (length hello_proc) \<le> 0" by (simp add: hello_proc_def)
  ultimately show ?thesis unfolding procfile_read_def Let_def by simp
qed

lemma static_key_write_no_nul:
  assumes "length command = 10"
  shows "static_key_device_write s command (\<lambda>_. Some CHR ''x'') 0 10 = None"
proof -
  have "copy_from_user 0 10 (\<lambda>_. Some CHR ''x'') = (replicate 10 CHR ''x'', 0)"
    by (subst copy_from_user_mapped) (simp_all add: mapped_def ustr_def get_user_def map_replicate_const)
  then show ?thesis
    using assms by (simp add: static_key_device_write_def blit_0 strncmp_eq_def terminated_def)
qed

lemma chardev_session:
  "\<exists>s'. vfs_call chardev_fops (Open ()) (session_start chardev_start m) =
      Some ((session_start s' m)\<lparr>ses_files := [Some 0]\<rparr>, 0) \<and> chardev_inv s'"
proof -
  have "chardev_inv chardev_start" "cd_already_open chardev_start = CDEV_NOT_USED"
    by (simp_all add: chardev_inv_def chardev_start_def)
  from chardev_open_free [OF this] show ?thesis
    by (auto simp: chardev_fops_def fop_calls session_start_def)
qed

text \<open>A read of chardev.c at a position far beyond the message.\<close>

lemma chardev_pread_outside:
  "vfs_run chardev_fops [Open (), Pread 0 0 n 1000] (session_start chardev_start m) = None"
proof -
  obtain s' where o: "vfs_call chardev_fops (Open ()) (session_start chardev_start m) =
      Some ((session_start s' m)\<lparr>ses_files := [Some 0]\<rparr>, 0)" "chardev_inv s'"
    using chardev_session by blast
  have "chardev_device_read s' m 0 n 1000 = None"
    using o(2) device_read_body_outside [of 1000 "cd_msg s'" m 0 n]
    by (simp add: chardev_device_read_def chardev_inv_def chardev_BUF_LEN_def)
  with o(1) show ?thesis by (simp add: on_file_def read_at_def session_start_def)
qed

lemma chardev2_pread_outside:
  "vfs_run chardev2_fops [Open (), Pread 0 0 n 1000] (session_start chardev2_start m) = None"
proof -
  have "chardev2_device_read chardev2_start m 0 n 1000 = None"
    using device_read_body_outside [of 1000 "c2_message chardev2_start" m 0 n]
    by (simp add: chardev2_device_read_def chardev2_start_def chardev2_BUF_LEN_def)
  moreover have "call_open chardev2_fops () chardev2_start = Some (chardev2_start, 0)"
    by (simp add: chardev2_fops_def fop_calls chardev2_device_open_def)
  ultimately show ?thesis by (simp add: on_file_def read_at_def session_start_def)
qed

text \<open>A file without an owner is still open when its module is gone.\<close>

lemma close_after_unload:
  assumes "fop_owner fops = NO_OWNER" and "call_open fops e s0 = Some (s', 0)"
  shows "vfs_run fops [Open e, Unload, Close 0] (session_start s0 m) = None"
  using assms by (simp add: session_start_def on_file_def)

text \<open>
  C40: the files that are not safe in this way. The read handler of procfs1.c (and that of procfs2.c is the
  same) stores its whole text whatever length it is asked for; a write of ten bytes without a NUL
  to static_key.c is printed as a string beyond its array; a read of chardev.c or chardev2.c at a position
  beyond the message, which \<open>pread\<close> asks for, follows a pointer outside the array; and as the tables of
  chardev.c, chardev2.c and (from kernel 6.4 on) led.c name no owner, their module can be unloaded
  under an open file, whose close then enters freed memory.
\<close>

theorem device_files_unsafe:
  assumes "length command = 10" and "KERNEL_VERSION 6 4 0 \<le> version"
  shows "\<not> file_safe any_pos procfs1_fops () \<and> \<not> file_safe any_pos procfs2_fops procfs2_start \<and>
    \<not> file_safe any_pos (static_key_fops command) static_key_start \<and>
    \<not> file_safe True chardev_fops chardev_start \<and> \<not> file_safe True chardev2_fops chardev2_start \<and>
    vfs_run chardev_fops [Open (), Unload, Close 0] (session_start chardev_start m) = None \<and>
    vfs_run chardev2_fops [Open (), Unload, Close 0] (session_start chardev2_start m) = None \<and>
    vfs_run (led_fops version) [Open (), Unload, Close 0] (session_start led_start m) = None"
proof (intro conjI notI)
  assume "file_safe any_pos procfs1_fops ()"
  from file_safeD [OF this, of "[Open (), Read 0 0 1]" "\<lambda>_. Some NUL"] show False
    by (auto simp: procfs1_fops_def fop_calls on_file_def read_at_def session_start_def procfile_read_short
        hello_proc_def)
next
  assume "file_safe any_pos procfs2_fops procfs2_start"
  from file_safeD [OF this, of "[Open (), Read 0 0 1]" "\<lambda>_. Some NUL"] show False
    by (auto simp: procfs2_fops_def fop_calls on_file_def read_at_def session_start_def procfs2_read_def
        procfile_read_short hello_proc_def)
next
  assume safe: "file_safe any_pos (static_key_fops command) static_key_start"
  have "static_key_inv static_key_start" "sk_already_open static_key_start = CDEV_NOT_USED"
    by (simp_all add: static_key_inv_def static_key_start_def)
  from static_key_open_free [OF this] file_safeD [OF safe, of "[Open (), Write 0 0 10]" "\<lambda>_. Some CHR ''x''"]
  show False
    by (auto simp: static_key_fops_def fop_calls on_file_def write_at_def session_start_def
        static_key_write_no_nul [OF assms(1)])
next
  assume "file_safe True chardev_fops chardev_start"
  from file_safeD [OF this, of "[Open (), Pread 0 0 2 1000]" Map.empty] show False
    by (simp del: vfs_run.simps add: chardev_pread_outside)
next
  assume "file_safe True chardev2_fops chardev2_start"
  from file_safeD [OF this, of "[Open (), Pread 0 0 2 1000]" Map.empty] show False
    by (simp del: vfs_run.simps add: chardev2_pread_outside)
next
  have "chardev_inv chardev_start" "cd_already_open chardev_start = CDEV_NOT_USED"
    by (simp_all add: chardev_inv_def chardev_start_def)
  from chardev_open_free [OF this] show "vfs_run chardev_fops [Open (), Unload, Close 0]
      (session_start chardev_start m) = None"
    by (auto intro!: close_after_unload simp: chardev_fops_def fop_calls simp del: vfs_run.simps)
next
  show "vfs_run chardev2_fops [Open (), Unload, Close 0] (session_start chardev2_start m) = None"
    by (rule close_after_unload) (simp_all add: chardev2_fops_def fop_calls chardev2_device_open_def)
next
  show "vfs_run (led_fops version) [Open (), Unload, Close 0] (session_start led_start m) = None"
    using assms(2) by (intro close_after_unload) (simp_all add: led_fops_def fop_calls led_device_open_def)
qed

theorem device_files_unsafe_witness:
  "\<not> file_safe True procfs1_fops () \<and> \<not> file_safe True procfs2_fops procfs2_start \<and>
    \<not> file_safe True (static_key_fops (zeros 10)) static_key_start \<and>
    \<not> file_safe True chardev_fops chardev_start \<and> \<not> file_safe True chardev2_fops chardev2_start \<and>
    vfs_run chardev_fops [Open (), Unload, Close 0] (session_start chardev_start Map.empty) = None \<and>
    vfs_run chardev2_fops [Open (), Unload, Close 0] (session_start chardev2_start Map.empty) = None \<and>
    vfs_run (led_fops (KERNEL_VERSION 6 8 0)) [Open (), Unload, Close 0] (session_start led_start Map.empty) = None"
  by (rule device_files_unsafe) (simp_all add: KERNEL_VERSION_def)

end
