(* ===== verification/Spec2Isabelle.thy ===== *)
theory Spec2Isabelle
  imports Chardev Userspace Chardev2_Threads Vinput_Spec Vinput_Threads Vinput_Files Sleep Blkram Dht11 Threaded_Irq Static_Key Procfs Rcu
    Completions Ioctl_Numbers Syscall_Steal Vnetloop Debugfs_File Platform_Bus Attributes Seq_File Kbleds
    Deferred Small_Modules Io_Safety
begin

text \<open>
  The example modules of the Linux Kernel Module Programming Guide (src/examples), and the two user
  programs beside them (src/examples/other), as a library of definitions and theorems.

  \<^bold>\<open>The program.\<close> Each file of src/examples is a kernel module (vinput.c and vkbd.c are two modules that
  work together): functions the kernel calls when the module is loaded and unloaded, when a process opens,
  reads, writes or closes its device, when an interrupt, a timer or a piece of deferred work runs, or when
  a packet is sent. Modules meet user space in the file handlers, and each other in the registries of the
  kernel and, for vinput.c, in the registry of virtual input devices that drivers such as vkbd.c join.

  \<^bold>\<open>How code is represented.\<close> The static variables of a module are a record, one field each. A handler is
  a function from that record, user memory and its arguments to the new record and the C return value;
  error codes are negative integers. A \<open>char\<close> array is a list of its length, and an access outside an
  object (or through a freed or NULL pointer) makes the whole result \<open>None\<close>, so a theorem that a handler
  returns \<open>Some\<close> says that it stays inside its objects. Integers whose width matters are words. User memory is
  a partial map, undefined where a process has mapped nothing. What the kernel answers (return values,
  pointers, samples of a line) is an argument, in a record \<open>..._env\<close> for the longer lists. Concurrency is
  a step relation over all threads, each access to shared state a step (the test and the write of the LED
  in the interrupt handlers are two, a wait for an event is registering, testing and sleeping); a lock is
  the atomicity of the step it protects.

  \<^bold>\<open>The theories.\<close>
  \<^item> \<open>Prelude\<close>: C arrays and strings, decimal output, compare-and-exchange, \<open>put_user\<close>, \<open>copy_to_user\<close> and
    their kin. \<open>Kstrtol\<close>: the contract of \<open>kstrtol\<close>, and a function that satisfies it. \<open>Transition\<close>:
    reachable states and traces, and the locales \<open>invariant_system\<close>, \<open>terminating_system\<close> and \<open>simulation\<close>. \<open>Lifecycle\<close>: what init
    and exit functions acquire and release, and the locale \<open>module_lifecycle\<close>, which turns the laws for one
    loading into \<open>leak_free\<close>, the absence of leaks over any sequence of loading and unloading.
  \<^item> \<open>Char_Read\<close>: the read loop that chardev.c, chardev2.c and static_key.c share, and the contracts of
    files that a program reads to their end (\<open>seq_reader\<close>, \<open>copy_reader\<close>, \<open>msg_reader\<close>). \<open>Cat\<close>:
    other/cat_nonblock.c, proved once against \<open>seq_reader\<close> to end and print the file. \<open>Userspace\<close>:
    other/userspace_ioctl.c against chardev2.c, whichever of its calls fails. \<open>Excl_Open\<close>: the exclusive open as a transition system
    (locale \<open>excl_device\<close>). \<open>Vfs\<close>: the tables of file operations, and sessions of calls on any number of
    open files, with unloading in between (locales \<open>io_device\<close> and \<open>file_device\<close>); each module's table is
    in the module's theory. \<open>Io_Safety\<close>: which of the files are safe under every session.
  \<^item> \<open>Vinput\<close>: vinput.c and vinput.h, the driver and device lists, the bitmap of ids, export and unexport;
    \<open>Vkbd\<close>: vkbd.c; \<open>Vinput_Inv\<close>: the invariant of the registry, kept by every operation;
    \<open>Vinput_Props\<close>: the properties of the two modules together; \<open>Vinput_Spec\<close>: the table of devices by id
    that vinput.c implements, and the simulation that shows it; \<open>Vinput_Threads\<close>: several processes inside
    export and unexport at once; \<open>Vinput_Files\<close>: the file operations and class attributes, and open files while
    devices, drivers and the module come and go.
  \<^item> \<open>Chardev\<close> (chardev.c), \<open>Chardev2\<close> (chardev2.c, chardev.h), \<open>Chardev2_Threads\<close> (several processes
    in chardev2.c at once), \<open>Static_Key\<close> (static_key.c),
    \<open>Ioctl_Dev\<close> (ioctl.c), \<open>Ioctl_Numbers\<close> (the encoding of the commands of chardev.h and ioctl.c), \<open>Procfs\<close> (procfs1.c to procfs3.c), \<open>Seq_File\<close> (procfs4.c), \<open>Sleep\<close> (sleep.c,
    with the wait queue of its open handler),
    \<open>Debugfs_File\<close> (hello-debugfs-file.c, hello-debugfs.c), \<open>Attributes\<close> (hello-sysfs.c, hello-6.c):
    devices and files.
  \<^item> \<open>Blkram\<close> (blkram.c), \<open>Vnetloop\<close> (vnetloop.c), \<open>Dht11\<close> (dht11.c), \<open>Gpio_Cdev\<close> (led.c, and the init
    chain that dht11.c shares with it), \<open>Button_Irq\<close> (intrpt.c, bottomhalf.c, bh_threaded.c), \<open>Threaded_Irq\<close>
    (bh_threaded.c at work), \<open>Kbleds\<close> (kbleds.c), \<open>Platform\<close> (dma.c, devicetree.c, devicemodel.c), \<open>Platform_Bus\<close> (their
    driver structures, and the bus that calls them): drivers.
  \<^item> \<open>Rcu\<close> (example_rcu.c), \<open>Completions\<close> (completions.c), \<open>Deferred\<close> (sched.c, example_tasklet.c):
    threads and deferred work. \<open>Syscall_Steal\<close> (syscall-steal.c: the memory of the kernel is a map of words, and
    the module writes the entry at the address it has found; the kernel may call through its table or not). \<open>Small_Modules\<close>: kmem_cache.c,
    example_atomic.c, example_mutex.c, example_spinlock.c, example_rwlock.c, print_string.c, hello-1.c to
    hello-5.c, start.c and stop.c.

  Definitions carry the names of the C functions; where several modules use one name (\<open>device_read\<close>,
  \<open>procfile_read\<close>) it is prefixed with the module's.

  \<^bold>\<open>What is proved.\<close>
  \<^item> \<^emph>\<open>Invariants of the state.\<close> The vinput registry, also under concurrent exports, the exclusive opens, the published data
    and the readers of example_rcu.c, the per-file data of ioctl.c, the devices bound to devicetree.c, the statistics of
    vnetloop.c, which are those of whole packets.
  \<^item> \<^emph>\<open>Memory safety.\<close> Whatever user space asks, on any number of open files, the handlers stay inside their
    arrays and the caller's buffers, and a transfer of blkram.c stays inside the disk; the exceptions are
    stated too, among them the files under which the module can be unloaded. (Unloading sleep.c, whose open
  handler sleeps, is not claimed to be safe.)
  \<^item> \<^emph>\<open>Refinement.\<close> The registry of vinput.c implements a table of devices by id, blkram.c a disk, and the
    interleaved ioctls of chardev2.c a device that does one at a time. The LED of bottomhalf.c shows the last of
  the interrupts, each taking effect at one point while its handler runs.
  \<^item> \<^emph>\<open>Round trips, end to end.\<close> What is written, sent, configured or measured is what a program then
    reads, and
    unloading the modules that steal a system call restores the table; a call through a stack of them
    does what it did without them.
  \<^item> \<^emph>\<open>Loading and unloading.\<close> No failure of any step leaks an object or releases it twice; work is
    over before its module is gone, and where that is not so the race is exhibited.
  \<^item> \<^emph>\<open>Progress.\<close> A process waiting for a file that nobody else takes is served in a bounded number of steps and one that will not wait never does, the threads
    of completions.c complete in their order, unloading example_rcu.c completes whatever its reader does, and bh_threaded.c whatever its interrupt threads do,
    a reader of vnetloop.c's statistics ends once transmissions stop,
    waiting for a silent sensor ends with an error.
  \<^item> \<^emph>\<open>Behaviour on every branch,\<close> errors included, in the lemmas of each theory that these rest on.

  \<^bold>\<open>Interfaces.\<close> Every locale is interpreted on the definitions of the code: \<open>module_lifecycle\<close> by the
  modules whose init acquires objects of the kernel step by step, \<open>seq_reader\<close> or \<open>copy_reader\<close> by all
  files that a program reads to the end, \<open>io_device\<close> and \<open>file_device\<close> by seven devices, \<open>excl_device\<close> by two, \<open>invariant_system\<close> and
  \<open>terminating_system\<close> by the concurrent modules, \<open>simulation\<close> by the registry of vinput.c and the ioctls of chardev2.c,
  \<open>deferred_work\<close> by both of its modules, \<open>probing_driver\<close> by the drivers of devicetree.c and dma.c, \<open>vinput_driver\<close> and
  \<open>vinput_reader\<close> by the keyboard driver. The properties rest on the facts of the interpretations.

  \<^bold>\<open>Bounds and fuel.\<close> There is no fuel. Loops are structural recursions or functions with a measure;
  those that may not end are partial functions whose value \<open>None\<close> is that they do not: \<open>cat_loop\<close> and
  \<open>seq_items\<close> (shown to end on every file of the development), \<open>name_loop\<close> (ends where the name does),
  \<open>call_openat\<close> (ends for every stack of loaded modules), \<open>scan_table\<close>. The waiting loops of dht11.c are bounded by their own timeouts of 300. Runs of
  completions.c, of the deferred work, of the statistics of vnetloop.c and of unloading example_rcu.c and bh_threaded.c are bounded by measures, in
  \<open>terminating_system\<close>.

  \<^bold>\<open>What is assumed of the kernel.\<close> Functions that are not in src/ are arguments or steps with their
  documented behaviour: \<open>kstrtol\<close>, \<open>sscanf\<close>, \<open>param_set_int\<close>, \<open>eth_type_trans\<close>, the answers to
  allocations and registrations (an error pointer holds a negative code), the grace periods of RCU, wait
  queues and completions, the handlers of one interrupt line (one at a time, and \<open>free_irq\<close> waits for them and
  for the line's thread), the dispatch of system calls, with the table and without, the loop of \<open>seq_read\<close>, the helpers of libfs, the release of managed
  allocations, the matching of devices and drivers on the platform bus, the references that open files hold
  on the owner of their file operations.

  \<^bold>\<open>Not modelled.\<close> Log output, except where it is what a module is for; delays and sleeps other than as
  steps without effect; the tables of function pointers other than the file operations of \<open>Vfs\<close> and \<open>Vinput_Files\<close>, the platform drivers
  and the network device, module
  parameters' declarations and other data for the build; which minor numbers and which addresses are given out; weak memory ordering (a step is
  sequentially consistent); the wrap-around of version and reference counters of the
  kernel; the register writes of the processor beyond the bit that is changed. The book's text, the
  build files and the device tree overlay are no code of the kernel.
\<close>

text \<open>
  C33: whatever opens, reads, writes and closes processes have made of chardev.c's file, while none has it
  open a process that opens it succeeds, and copying it with cat_nonblock.c prints the greeting with the
  number of earlier opens that succeeded (as a 32-bit integer: the number itself below \<open>2^31\<close>), and exits
  successfully. Its open is counted too. Opens refused with \<open>EBUSY\<close>, reads, writes and closes are not
  counted.
\<close>

theorem chardev_open_then_cat:
  assumes "chardev_ran es s {}" and "mapped m buf MAX_BYTES"
  shows "\<exists>s'. chardev_device_open s = Some (s', 0) \<and> cd_counter s' = of_nat (Suc (opens es)) \<and>
    cat_main 2 prog (vfs_read chardev_device_read buf) (Inr (s', m, 0)) =
      Some (''I already told you '' @ dec_int (sint (of_nat (opens es) :: 32 word)) @
        '' times Hello world!'' @ [LF], EXIT_SUCCESS) \<and>
    (opens es < 2 ^ 31 \<longrightarrow>
      cat_main 2 prog (vfs_read chardev_device_read buf) (Inr (s', m, 0)) =
        Some (''I already told you '' @ dec_int (int (opens es)) @ '' times Hello world!'' @ [LF],
          EXIT_SUCCESS))"
proof -
  have "chardev_inv s" and "cd_already_open s = CDEV_NOT_USED" and count: "cd_counter s = of_nat (opens es)"
    using chardev_excl.excl_inv [OF chardev_ran_reach [OF assms(1)]] chardev_counts [OF assms(1)] by auto
  then obtain s' where s': "chardev_device_open s = Some (s', 0)" "chardev_inv s'"
    "cd_counter s' = cd_counter s + 1" "chardev_content s' = chardev_text (cd_counter s)"
    using chardev_open_free by blast
  have "file_ok chardev_inv chardev_content buf MAX_BYTES (s', m, 0)"
    using s'(2) assms(2) by (simp add: file_ok_def)
  from chardev_reader.seq.cat_main_prints [OF this, of prog] s' count show ?thesis
    by (simp add: MAX_BYTES_def file_rest_def chardev_text_def sint_of_small_nat add.commute)
qed

theorem chardev_open_then_cat_witness:
  "\<exists>s s'. chardev_ran [Opened 0, Opened (- EBUSY), Closed] s {} \<and> chardev_device_open s = Some (s', 0) \<and>
    cat_main 2 [] (vfs_read chardev_device_read 0) (Inr (s', \<lambda>a. Some NUL, 0)) =
      Some (''I already told you '' @ dec_int 1 @ '' times Hello world!'' @ [LF], EXIT_SUCCESS)"
proof -
  have "chardev_inv chardev_start" "cd_already_open chardev_start = CDEV_NOT_USED"
    by (simp_all add: chardev_inv_def chardev_start_def)
  then obtain t where t: "chardev_device_open chardev_start = Some (t, 0)"
    "cd_already_open t = CDEV_EXCLUSIVE_OPEN"
    using chardev_open_free by blast
  have "chardev_ran [Opened 0] t {3}" using chardev_ran.opened [OF loaded t(1), of 3] by simp
  from chardev_ran.opened [OF this chardev_open_busy, of 4] t(2)
  have "chardev_ran [Opened 0, Opened (- EBUSY)] t {3}" by simp
  from chardev_ran.closed [OF this, of 3]
  have ran: "chardev_ran [Opened 0, Opened (- EBUSY), Closed] (chardev_device_release t) {}" by simp
  have n: "opens [Opened 0, Opened (- EBUSY), Closed] = 1" by (simp add: opens_def)
  from chardev_open_then_cat [OF ran, where m = "\<lambda>a. Some NUL" and buf = 0 and prog = "[]"] ran
  show ?thesis unfolding n by (auto simp: mapped_def)
qed

text \<open>
  C20: for each of these modules, from character and block devices to /proc files and platform
  drivers, no sequence of loading and unloading leaks an object or releases one twice, whichever step of
  the initialisation fails. The kernel may answer anything, except that an error pointer holds a negative
  code and a probe is not registered with a positive one, and that the two buttons of a module have different
  lines of which, on kernels before 6.10, the second is found (if it is not, the three modules do leak
  the first). These are the last arguments of \<open>leak_free\<close>.
\<close>

theorem modules_no_leak:
  "leak_free chardev_init chardev_exit chardev_owned chardev_env_ok \<and>
   leak_free chardev2_init chardev2_exit chardev2_owned (\<lambda>e. err_ptr_ok (c2_class_ptr e)) \<and>
   leak_free blkram_init blkram_exit blkram_owned blkram_env_ok \<and>
   leak_free led_init led_exit (gpio_cdev_owned ''gpio_led'' 4) gpio_cdev_env_ok \<and>
   leak_free dht11_init dht11_exit (gpio_cdev_owned ''dht11'' 575) gpio_cdev_env_ok \<and>
   leak_free bottomhalf_init bottomhalf_exit (button_owned ''NULL'' ''NULL'') button_env_ok \<and>
   leak_free intrpt_init intrpt_exit (button_owned ''NULL'' ''NULL'') button_env_ok \<and>
   leak_free bh_threaded_init bh_threaded_exit bh_threaded_owned button_env_ok \<and>
   leak_free vinput_init vinput_end (\<lambda>_. {Chrdev ''vinput'', Class ''vinput''}) (\<lambda>_. True) \<and>
   leak_free sleep_init sleep_exit (\<lambda>_. {Proc_Entry ''sleep''}) (\<lambda>_. True) \<and>
   leak_free procfs3_init procfs3_exit (\<lambda>_. {Proc_Entry ''buffer2k''}) (\<lambda>_. True) \<and>
   leak_free ioctl_init ioctl_exit (\<lambda>_. {Chrdev ''ioctltest'', Cdev ''ioctltest''}) (\<lambda>_. True) \<and>
   leak_free static_key_init static_key_exit
     (\<lambda>e. {Chrdev ''key_state'', Class ''key_state''} \<union> (if sk_device_made e then {Device ''key_state''} else {}))
     (\<lambda>e. err_ptr_ok (sk_class_ptr e)) \<and>
   leak_free dma_demo_init dma_demo_exit dma_owned (\<lambda>_. True) \<and>
   leak_free vnetloop_init vnetloop_exit (\<lambda>_. {Netdev ''vnetloop%d'', Live_Netdev ''vnetloop%d''}) (\<lambda>_. True) \<and>
   leak_free kmem_cache_example_init kmem_cache_example_exit cache_owned (\<lambda>_. True) \<and>
   leak_free hello_debugfs_file_init hello_debugfs_file_exit
     (debugfs_owned [''lkmpg_debugfs_file'', ''message'', ''blob'']) (\<lambda>_. True) \<and>
   leak_free hello_debugfs_init hello_debugfs_exit
     (debugfs_owned [''lkmpg_debugfs'', ''debug_value'', ''debug_enabled'']) (\<lambda>_. True) \<and>
   leak_free mymodule_init mymodule_exit (\<lambda>_. {Kobject ''mymodule''}) (\<lambda>_. True) \<and>
   leak_free sched_module_init sched_module_exit (\<lambda>_. {Workqueue ''HELLOWORLD''}) (\<lambda>_. True) \<and>
   leak_free (kprobe_steal_start ''__x64_sys_openat'') (kprobe_steal_end ''__x64_sys_openat'')
     (\<lambda>_. {Kprobe ''__x64_sys_openat''}) (\<lambda>err. err \<le> 0) \<and>
   leak_free procfs1_init procfs1_exit (\<lambda>_. {Proc_Entry ''helloworld''}) (\<lambda>_. True) \<and>
   leak_free procfs2_init procfs2_exit (\<lambda>_. {Proc_Entry ''buffer1k''}) (\<lambda>_. True) \<and>
   leak_free procfs4_init procfs4_exit (\<lambda>_. {Proc_Entry ''iter''}) (\<lambda>_. True) \<and>
   leak_free dt_init dt_exit (\<lambda>_. {Pdrv ''lkmpg_devicetree''}) (\<lambda>_. True) \<and>
   leak_free devicemodel_init devicemodel_exit (\<lambda>_. {Pdrv ''devicemodel_example''}) (\<lambda>_. True)"
  unfolding led_init_def led_exit_def dht11_init_def dht11_exit_def
  by (intro conjI chardev_mod.leak_free chardev2_mod.leak_free blkram_mod.leak_free
      gpio_cdev.leak_free bottomhalf_mod.leak_free intrpt_mod.leak_free bh_threaded_mod.leak_free
      vinput_mod.leak_free sleep_mod.leak_free procfs3_mod.leak_free ioctl_mod.leak_free static_key_mod.leak_free
      dma_mod.leak_free vnetloop_mod.leak_free cache_mod.leak_free debugfs_file_mod.leak_free debugfs_mod.leak_free
      mymodule_mod.leak_free sched_mod.leak_free kprobe_steal_mod.leak_free procfs1_mod.leak_free procfs2_mod.leak_free
      procfs4_mod.leak_free dt_mod.leak_free devicemodel_mod.leak_free)

end
